(* ===== verification/XPrelude.thy ===== *)
theory XPrelude
  imports Main "HOL-Library.Word"
begin

unbundle bit_operations_syntax

text \<open>
  Shared vocabulary of the development: the machine types of the runtime
  (\<open>uptr\<close> is a 64-bit word), the theorem collections of the component
  theories, and generic facts on words, bit masks and lists.  Nothing here
  speaks of a particular component.
\<close>

named_theorems mapping_simps \<open>unfolds the address-space tables and mapping functions\<close>
named_theorems mop_simps \<open>unfolds the memory-operation analyses\<close>
named_theorems shadow_simps \<open>unfolds the shadow-memory operations\<close>

type_synonym uptr = "64 word"
type_synonym u8 = "8 word"
type_synonym u16 = "16 word"
type_synonym u32 = "32 word"
type_synonym u64 = "64 word"

section \<open>Words read as natural numbers\<close>

lemma unat_less_exp_bit:
  fixes x :: "'a::len word"
  assumes "unat x < 2 ^ n" and "n \<le> k"
  shows "\<not> bit x k"
proof
  assume b: "bit x k"
  have "take_bit n (unat x) = unat x" using assms(1) by (simp add: take_bit_nat_eq_self_iff)
  with b have "bit (take_bit n (unat x)) k" by (simp add: bit_unsigned_iff bit_imp_le_length)
  with assms(2) show False by (simp add: bit_simps)
qed

text \<open>
  The shadow mappings clear a field of \<open>k\<close> high bits at position \<open>n\<close> and the
  lowest \<open>c\<close> bits of an address; below \<open>2 ^ (n + k)\<close> that is the address modulo
  \<open>2 ^ n\<close>, rounded down to a multiple of \<open>2 ^ c\<close>.
\<close>

lemma clear_top_and_cell:
  fixes x :: uptr
  assumes "unat x < 2 ^ (n + k)"
  shows "x AND NOT (push_bit n (mask k) OR mask c) = push_bit c (drop_bit c (take_bit n x))"
proof (rule bit_word_eqI)
  fix i assume "i < LENGTH(64)"
  then have i: "i < 64" by simp
  note hi = unat_less_exp_bit [OF assms]
  show "bit (x AND NOT (push_bit n (mask k) OR mask c)) i \<longleftrightarrow>
        bit (push_bit c (drop_bit c (take_bit n x))) i"
    using i hi [of i] by (cases "n + k \<le> i") (auto simp: bit_simps)
qed

lemma unat_push_drop:
  fixes x :: uptr
  shows "unat (push_bit c (drop_bit c x)) = unat x div 2 ^ c * 2 ^ c"
proof -
  have "unat x div 2 ^ c * 2 ^ c < 2 ^ 64"
    by (rule le_less_trans [OF div_times_less_eq_dividend]) (use unsigned_less [of x] in simp)
  then have "take_bit 64 (push_bit c (drop_bit c (unat x))) = unat x div 2 ^ c * 2 ^ c"
    by (simp add: push_bit_eq_mult drop_bit_eq_div take_bit_nat_eq_self_iff)
  then show ?thesis
    by (simp only: unsigned_push_bit_eq unat_drop_bit_eq) simp
qed

lemma unat_take_bit_mod:
  fixes x :: "'a::len word"
  shows "unat (take_bit n x) = unat x mod 2 ^ n"
  by (simp only: unsigned_take_bit_eq) (simp only: take_bit_eq_mod)

lemma unat_clear_top_and_cell:
  fixes x :: uptr
  assumes "unat x < 2 ^ (n + k)"
  shows "unat (x AND NOT (push_bit n (mask k) OR mask c)) = unat x mod 2 ^ n div 2 ^ c * 2 ^ c"
  by (simp only: clear_top_and_cell [OF assms] unat_push_drop unat_take_bit_mod)

lemma and_not_mask_push_drop:
  fixes x :: "'a::len word"
  shows "x AND NOT (mask c) = push_bit c (drop_bit c x)"
  by (rule bit_word_eqI) (auto simp: bit_simps)

lemma unat_and_not_mask:
  fixes x :: uptr
  shows "unat (x AND NOT (mask c)) = unat x div 2 ^ c * 2 ^ c"
  by (simp only: and_not_mask_push_drop unat_push_drop)

lemma mod_interval:
  fixes x n k :: nat
  assumes "k * n \<le> x" and "x < Suc k * n"
  shows "x mod n = x - k * n"
proof -
  from assms have "x = k * n + (x - k * n)" and "x - k * n < n" by simp_all
  then show ?thesis by (metis mod_less mod_mult_self3)
qed

lemma uptr_eqI: "unat (x :: 'a::len word) = unat y \<Longrightarrow> x = y"
  by (simp add: word_unat_eq_iff)

text \<open>Joining disjoint bit fields adds them; flipping one bit adds or subtracts its weight.\<close>

lemma unat_or_disjoint:
  fixes x y :: "'a::len word"
  assumes "x AND y = 0"
  shows "unat (x OR y) = unat x + unat y"
proof -
  have "unat x AND unat y = unat (x AND y)" by (simp only: unsigned_and_eq)
  also have "\<dots> = 0" by (simp add: assms)
  finally have "unat x OR unat y = unat x + unat y" by (simp add: disjunctive_add_eq_or)
  then show ?thesis by (simp only: unsigned_or_eq)
qed

lemma and_push_bit_zero:
  fixes x :: "'a::len word"
  assumes "unat x < 2 ^ n"
  shows "x AND push_bit n y = 0"
  by (rule bit_word_eqI) (use unat_less_exp_bit [OF assms] in \<open>auto simp: bit_simps\<close>)

lemma unat_or_push_bit:
  fixes x :: "'a::len word"
  assumes "unat x < 2 ^ n"
  shows "unat (x OR push_bit n y) = unat x + unat (push_bit n y)"
  by (rule unat_or_disjoint) (rule and_push_bit_zero [OF assms])

lemma unat_xor_bit:
  fixes x :: uptr
  assumes "k < 64"
  shows "unat (x XOR 2 ^ k) = (if bit x k then unat x - 2 ^ k else unat x + 2 ^ k)"
proof -
  have "(2::nat) ^ k < 2 ^ 64" using assms by (rule power_strict_increasing) simp
  then have "unat (word_of_nat (2 ^ k) :: uptr) = 2 ^ k"
    by (simp only: unat_of_nat) simp
  then have p: "unat (2 ^ k :: uptr) = 2 ^ k" by simp
  show ?thesis
  proof (cases "bit x k")
    case True
    have "(x XOR 2 ^ k) AND 2 ^ k = 0"
      by (rule bit_word_eqI) (use True in \<open>auto simp: bit_simps\<close>)
    moreover have "(x XOR 2 ^ k) OR 2 ^ k = x"
      by (rule bit_word_eqI) (use True in \<open>auto simp: bit_simps\<close>)
    ultimately have "unat x = unat (x XOR 2 ^ k) + 2 ^ k"
      using unat_or_disjoint [of "x XOR 2 ^ k" "2 ^ k"] p by simp
    with True show ?thesis by simp
  next
    case False
    have "x AND 2 ^ k = 0"
      by (rule bit_word_eqI) (use False in \<open>auto simp: bit_simps\<close>)
    moreover have "x XOR 2 ^ k = x OR 2 ^ k"
      by (rule bit_word_eqI) (use False in \<open>auto simp: bit_simps\<close>)
    ultimately show ?thesis
      using unat_or_disjoint [of x "2 ^ k"] p False by simp
  qed
qed

lemma bit_odd_div:
  fixes x :: "'a::len word"
  shows "bit x k \<longleftrightarrow> odd (unat x div 2 ^ k)"
proof -
  have "bit (unat x) k \<longleftrightarrow> bit x k" by (auto simp: bit_unsigned_iff bit_imp_le_length)
  then show ?thesis by (simp add: bit_iff_odd)
qed

lemma xor_cancel [simp]:
  fixes a b c :: "'a::len word"
  shows "a XOR c = b XOR c \<longleftrightarrow> a = b"
  by (metis xor.assoc xor_self_eq xor.right_neutral)

lemma uint_add_small:
  fixes a b :: u64
  assumes "uint a + uint b < 2 ^ 64"
  shows "uint (a + b) = uint a + uint b"
proof -
  have "uint (a + b) = (uint a + uint b) mod 2 ^ LENGTH(64)" by (rule uint_word_ariths(1))
  moreover have "(uint a + uint b) mod 2 ^ LENGTH(64) = uint a + uint b"
    by (rule mod_pos_pos_trivial) (use assms in simp_all)
  ultimately show ?thesis by simp
qed

end
