(* ===== verification/Mem_Mapping.thy ===== *)
theory Mem_Mapping
  imports XPrelude
begin

unbundle bit_operations_syntax

text \<open>
  The address-space layout that lets ASan, MSan and TSan share one process:
  the generated tables \<open>src/src/include/platforms/xsan_platform_*_48.h\<close>,
  \<open>IsAppMem\<close> of \<open>runtime/lib/xsan/xsan_platform.h\<close>, TSan's shadow and meta
  mapping of \<open>runtime/lib/xsan/tsan/tsan_platform.h\<close>, MSan's of
  \<open>msan/msan_interface_xsan.h\<close> and ASan's of \<open>asan/asan_mapping.h\<close>.
  A mapping struct of static constants is a record; a function templated over
  the struct takes the record as its first argument.
\<close>

section \<open>Mapping tables\<close>

datatype RegionType = App | Shadow | Gap

record MemRegion =
  beg :: uptr
  rend :: uptr
  rtype :: RegionType
  desc :: string

record mapping =
  kHeapMemBeg :: uptr
  kHeapMemEnd :: uptr
  kLoAppMemBeg :: uptr
  kLoAppMemEnd :: uptr
  kMidAppMemBeg :: uptr
  kMidAppMemEnd :: uptr
  kHiAppMemBeg :: uptr
  kHiAppMemEnd :: uptr
  kVdsoBeg :: uptr
  kTsanShadowXor :: uptr
  kTsanShadowAdd :: uptr
  kTsanShadowMsk :: uptr
  kTsanMetaShadowBeg :: uptr
  kTsanMetaShadowEnd :: uptr
  kTsanShadowBeg :: uptr
  kTsanShadowEnd :: uptr

record mapping48 = mapping +
  kAsanLoAppMemEnd :: uptr
  kAsanShadowOffset :: uptr
  kAsanShadowScale :: nat
  kMSanShadowXor :: uptr
  kMSanShadowAdd :: uptr
  kRegions :: "MemRegion list"

definition region :: "uptr \<Rightarrow> uptr \<Rightarrow> RegionType \<Rightarrow> string \<Rightarrow> MemRegion" where
  "region b e t d = \<lparr>beg = b, rend = e, rtype = t, desc = d\<rparr>"

definition MappingX64_48 :: mapping48 where
  "MappingX64_48 = \<lparr>
    kHeapMemBeg = 0x620000000000, kHeapMemEnd = 0x640000000000,
    kLoAppMemBeg = 0x000000000000, kLoAppMemEnd = 0x010000000000,
    kMidAppMemBeg = 0x550000000000, kMidAppMemEnd = 0x5a0000000000,
    kHiAppMemBeg = 0x7a0000000000, kHiAppMemEnd = 0x800000000000,
    kVdsoBeg = 0xf000000000000000,
    kTsanShadowXor = 0x000000000000, kTsanShadowAdd = 0x1a0000000000,
    kTsanShadowMsk = 0x700000000000,
    kTsanMetaShadowBeg = 0x700000000000, kTsanMetaShadowEnd = 0x780000000000,
    kTsanShadowBeg = 0x1a0000000000, kTsanShadowEnd = 0x3a0000000000,
    kAsanLoAppMemEnd = 0x00007fff7000,
    kAsanShadowOffset = 0x00007fff8000, kAsanShadowScale = 3,
    kMSanShadowXor = 0x400000000000, kMSanShadowAdd = 0x2f0000000000,
    kRegions = [
      region 0x000000000000 0x00007fff7000 App ''LoApp (for ASan)'',
      region 0x00007fff8000 0x00008fff7000 Shadow ''ASan Shadow (LoApp)'',
      region 0x000000000000 0x010000000000 App ''LoApp'',
      region 0x02008fff7000 0x10007fff8000 Shadow ''ASan Shadow (Rest)'',
      region 0x150000000000 0x1a0000000000 Shadow ''MSan Shadow (MidApp)'',
      region 0x1a0000000000 0x1c0000000000 Shadow ''TSan Shadow (LoApp)'',
      region 0x1e0000000000 0x220000000000 Shadow ''TSan Shadow (Heap)'',
      region 0x220000000000 0x240000000000 Shadow ''MSan Shadow (Heap)'',
      region 0x240000000000 0x2e0000000000 Shadow ''TSan Shadow (MidApp)'',
      region 0x2e0000000000 0x3a0000000000 Shadow ''TSan Shadow (HiApp)'',
      region 0x3a0000000000 0x400000000000 Shadow ''MSan Shadow (HiApp)'',
      region 0x400000000000 0x410000000000 Shadow ''MSan Shadow (LoApp)'',
      region 0x440000000000 0x490000000000 Shadow ''MSan Origin (MidApp)'',
      region 0x510000000000 0x530000000000 Shadow ''MSan Origin (Heap)'',
      region 0x550000000000 0x5a0000000000 App ''MidApp'',
      region 0x620000000000 0x640000000000 App ''Heap'',
      region 0x690000000000 0x6f0000000000 Shadow ''MSan Origin (HiApp)'',
      region 0x6f0000000000 0x700000000000 Shadow ''MSan Origin (LoApp)'',
      region 0x700000000000 0x708000000000 Shadow ''TSan Meta (LoApp)'',
      region 0x710000000000 0x720000000000 Shadow ''TSan Meta (Heap)'',
      region 0x728000000000 0x750000000000 Shadow ''TSan Meta (MidApp)'',
      region 0x750000000000 0x780000000000 Shadow ''TSan Meta (HiApp)'',
      region 0x7a0000000000 0x800000000000 App ''HiApp'']\<rparr>"

definition MappingAarch64_48 :: mapping48 where
  "MappingAarch64_48 = \<lparr>
    kHeapMemBeg = 0xd80000000000, kHeapMemEnd = 0xda0000000000,
    kLoAppMemBeg = 0x000000000000, kLoAppMemEnd = 0x010000000000,
    kMidAppMemBeg = 0xaaaa00000000, kMidAppMemEnd = 0xac0000000000,
    kHiAppMemBeg = 0xfc0000000000, kHiAppMemEnd = 0x1000000000000,
    kVdsoBeg = 0xffff000000000,
    kTsanShadowXor = 0x000000000000, kTsanShadowAdd = 0xaf0000000000,
    kTsanShadowMsk = 0xf00000000000,
    kTsanMetaShadowBeg = 0xd00000000000, kTsanMetaShadowEnd = 0xd80000000000,
    kTsanShadowBeg = 0xaf0000000000, kTsanShadowEnd = 0xcf0000000000,
    kAsanLoAppMemEnd = 0x000ffffff000,
    kAsanShadowOffset = 0x001000000000, kAsanShadowScale = 3,
    kMSanShadowXor = 0x900000000000, kMSanShadowAdd = 0x2c0000000000,
    kRegions = [
      region 0x000000000000 0x000ffffff000 App ''LoApp (for ASan)'',
      region 0x001000000000 0x001200000000 Shadow ''ASan Shadow (LoApp)'',
      region 0x000000000000 0x010000000000 App ''LoApp'',
      region 0x041200000000 0x201000000000 Shadow ''ASan Shadow (Rest)'',
      region 0x3aaa00000000 0x3c0000000000 Shadow ''MSan Shadow (MidApp)'',
      region 0x480000000000 0x4a0000000000 Shadow ''MSan Shadow (Heap)'',
      region 0x66aa00000000 0x680000000000 Shadow ''MSan Origin (MidApp)'',
      region 0x6c0000000000 0x700000000000 Shadow ''MSan Shadow (HiApp)'',
      region 0x740000000000 0x760000000000 Shadow ''MSan Origin (Heap)'',
      region 0x900000000000 0x910000000000 Shadow ''MSan Shadow (LoApp)'',
      region 0x980000000000 0x9c0000000000 Shadow ''MSan Origin (HiApp)'',
      region 0xaaaa00000000 0xac0000000000 App ''MidApp'',
      region 0xaf0000000000 0xb10000000000 Shadow ''TSan Shadow (LoApp)'',
      region 0xbc0000000000 0xbd0000000000 Shadow ''MSan Origin (LoApp)'',
      region 0xbf0000000000 0xc30000000000 Shadow ''TSan Shadow (Heap)'',
      region 0xc45400000000 0xc70000000000 Shadow ''TSan Shadow (MidApp)'',
      region 0xc70000000000 0xcf0000000000 Shadow ''TSan Shadow (HiApp)'',
      region 0xd00000000000 0xd08000000000 Shadow ''TSan Meta (LoApp)'',
      region 0xd40000000000 0xd50000000000 Shadow ''TSan Meta (Heap)'',
      region 0xd55500000000 0xd60000000000 Shadow ''TSan Meta (MidApp)'',
      region 0xd60000000000 0xd80000000000 Shadow ''TSan Meta (HiApp)'',
      region 0xd80000000000 0xda0000000000 App ''Heap'',
      region 0xfc0000000000 0x1000000000000 App ''HiApp'']\<rparr>"

text \<open>\<open>XsanMapping\<close> is chosen by the target architecture at compile time.\<close>

datatype arch = x86_64 | aarch64

fun XsanMapping :: "arch \<Rightarrow> mapping48" where
  "XsanMapping x86_64 = MappingX64_48"
| "XsanMapping aarch64 = MappingAarch64_48"

definition IsAppMem :: "'a mapping_scheme \<Rightarrow> uptr \<Rightarrow> bool" where
  "IsAppMem m mem \<longleftrightarrow>
     (mem \<ge> kHeapMemBeg m \<and> mem < kHeapMemEnd m) \<or>
     (mem \<ge> kMidAppMemBeg m \<and> mem < kMidAppMemEnd m) \<or>
     (mem \<ge> kLoAppMemBeg m \<and> mem < kLoAppMemEnd m) \<or>
     (mem \<ge> kHiAppMemBeg m \<and> mem < kHiAppMemEnd m)"

end
