(* ===== verification/Tsan_Mapping.thy ===== *)
theory Tsan_Mapping
  imports Mem_Mapping
begin

unbundle bit_operations_syntax

text \<open>
  TSan's address mappings of \<open>runtime/lib/xsan/tsan/tsan_platform.h\<close>: application
  address to shadow cell and meta cell, shadow cell back to application
  address (the upstream version and the specialization XSan uses on its two
  platforms), and the compression of addresses to 44 bits with its inverse.
\<close>

section \<open>Operations\<close>

definition kShadowCnt :: uptr where "kShadowCnt = 4"
definition kShadowCell :: uptr where "kShadowCell = 8"
definition kShadowSize :: uptr where "kShadowSize = 4"
definition kShadowMultiplier :: uptr where
  "kShadowMultiplier = kShadowSize * kShadowCnt div kShadowCell"
definition kMetaShadowCell :: uptr where "kMetaShadowCell = 8"
definition kMetaShadowSize :: uptr where "kMetaShadowSize = 4"
definition kCompressedAddrBits :: nat where "kCompressedAddrBits = 44"

lemmas tsan_consts [mapping_simps] =
  kShadowCnt_def kShadowCell_def kShadowSize_def kShadowMultiplier_def
  kMetaShadowCell_def kMetaShadowSize_def kCompressedAddrBits_def

definition IsShadowMem :: "'a mapping_scheme \<Rightarrow> uptr \<Rightarrow> bool" where
  "IsShadowMem m mem \<longleftrightarrow> mem \<ge> kTsanShadowBeg m \<and> mem < kTsanShadowEnd m"

definition IsMetaMem :: "'a mapping_scheme \<Rightarrow> uptr \<Rightarrow> bool" where
  "IsMetaMem m mem \<longleftrightarrow> mem \<ge> kTsanMetaShadowBeg m \<and> mem < kTsanMetaShadowEnd m"

definition MemToShadow :: "'a mapping_scheme \<Rightarrow> uptr \<Rightarrow> uptr" where
  "MemToShadow m x =
     ((x AND NOT (kTsanShadowMsk m OR (kShadowCell - 1))) XOR kTsanShadowXor m)
       * kShadowMultiplier + kTsanShadowAdd m"

definition MemToMeta :: "'a mapping_scheme \<Rightarrow> uptr \<Rightarrow> uptr" where
  "MemToMeta m x =
     ((x AND NOT (kTsanShadowMsk m OR (kMetaShadowCell - 1)))
        div kMetaShadowCell * kMetaShadowSize) OR kTsanMetaShadowBeg m"

text \<open>The default \<open>ShadowToMemImpl::Apply\<close>.\<close>

definition ShadowToMem_default :: "'a mapping_scheme \<Rightarrow> uptr \<Rightarrow> uptr" where
  "ShadowToMem_default m sp =
     (if \<not> IsShadowMem m sp then 0
      else let p = ((sp - kTsanShadowAdd m) div kShadowMultiplier) XOR kTsanShadowXor m in
        if p \<ge> kLoAppMemBeg m \<and> p < kLoAppMemEnd m \<and> MemToShadow m p = sp then p
        else let p_mid = p + (kMidAppMemBeg m AND kTsanShadowMsk m) in
          if kMidAppMemBeg m \<noteq> 0 \<and> p_mid \<ge> kMidAppMemBeg m \<and> p_mid < kMidAppMemEnd m
             \<and> MemToShadow m p_mid = sp then p_mid
          else p OR kTsanShadowMsk m)"

text \<open>\<open>ShadowToMemImpl::ApplySpecialization\<close>, used for both XSan platforms.\<close>

definition ShadowToMem :: "'a mapping_scheme \<Rightarrow> uptr \<Rightarrow> uptr" where
  "ShadowToMem m shadow =
     (if \<not> IsShadowMem m shadow then 0
      else
        let msk = kTsanShadowMsk m;
            MidBeg = kMidAppMemBeg m AND NOT msk;
            MidEnd = kMidAppMemEnd m AND NOT msk;
            HiBeg = kHiAppMemBeg m AND NOT msk;
            HiEnd = kHiAppMemEnd m AND NOT msk;
            HeapBeg = kHeapMemBeg m AND NOT msk;
            HeapEnd = kHeapMemEnd m AND NOT msk;
            MidOr = kMidAppMemBeg m AND msk;
            HiOr = kHiAppMemBeg m AND msk;
            HeapOr = kHeapMemBeg m AND msk;
            p = ((shadow - kTsanShadowAdd m) div kShadowMultiplier) XOR kTsanShadowXor m
        in if p \<ge> MidBeg \<and> p < MidEnd then p OR MidOr
           else if p \<ge> HiBeg \<and> p < HiEnd then p OR HiOr
           else if p \<ge> HeapBeg \<and> p < HeapEnd then p OR HeapOr
           else p)"

definition CompressAddr :: "uptr \<Rightarrow> uptr" where
  "CompressAddr addr = addr AND (push_bit kCompressedAddrBits 1 - 1)"

definition RoundDown :: "uptr \<Rightarrow> uptr \<Rightarrow> uptr" where
  "RoundDown p align = p AND NOT (align - 1)"

text \<open>
  \<open>__builtin_ctzl\<close>, whose argument the caller checks to be non-zero.
\<close>

definition LeastSignificantSetBitIndex :: "uptr \<Rightarrow> nat" where
  "LeastSignificantSetBitIndex x = length (takeWhile (\<lambda>n. \<not> bit x n) [0..<64])"

definition indicator_bits :: uptr where "indicator_bits = 0x0e0000000000"
definition ind_lsb :: uptr where
  "ind_lsb = push_bit (LeastSignificantSetBitIndex indicator_bits) 1"

text \<open>
  The inner loop of \<open>RestoreAddrImpl::Apply\<close>.  \<open>Some (Some a)\<close> is a return of
  \<open>a\<close>, \<open>Some None\<close> the loop running out, \<open>None\<close> a loop that never ends (the
  step could wrap around for a range that ends close to \<open>2 ^ 64\<close>).
\<close>

partial_function (option) restore_loop :: "uptr \<Rightarrow> uptr \<Rightarrow> uptr \<Rightarrow> uptr option option" where
  "restore_loop addr p end =
     (if p < end then
        if addr AND indicator_bits = p AND indicator_bits
        then Some (Some (addr OR (p AND NOT (ind_lsb - 1))))
        else restore_loop addr (RoundDown (p + ind_lsb) ind_lsb) end
      else Some None)"

fun restore_ranges :: "uptr \<Rightarrow> (uptr \<times> uptr) list \<Rightarrow> uptr option option" where
  "restore_ranges addr [] = Some None"
| "restore_ranges addr ((b, e) # rs) =
     (if b = e then restore_ranges addr rs
      else case restore_loop addr b e of
             None \<Rightarrow> None
           | Some (Some a) \<Rightarrow> Some (Some a)
           | Some None \<Rightarrow> restore_ranges addr rs)"

text \<open>\<open>RestoreAddr\<close>: \<open>Some None\<close> is the \<open>Die()\<close> after no range matched.\<close>

definition RestoreAddr :: "'a mapping_scheme \<Rightarrow> uptr \<Rightarrow> uptr option option" where
  "RestoreAddr m addr =
     restore_ranges addr
       [(kLoAppMemBeg m, kLoAppMemEnd m), (kMidAppMemBeg m, kMidAppMemEnd m),
        (kHiAppMemBeg m, kHiAppMemEnd m), (kHeapMemBeg m, kHeapMemEnd m)]"

section \<open>The contract of a TSan layout\<close>

text \<open>
  What TSan's mapping needs of a table: the mask is a field of bits starting at
  bit 44, the xor is unused, each application range lies inside one 16 TB page
  (number \<open>qmid\<close>, \<open>qhi\<close>, \<open>qheap\<close>), and the offsets of the ranges inside
  their pages, \<open>[0, lo_e)\<close>, \<open>[heap_b, heap_e)\<close>, \<open>[mid_b, mid_e)\<close>, \<open>[hi_b, hi_e)\<close>,
  follow one another.  \<open>ShadowToMem\<close> reads the offsets off the masked bounds; the
  masked end of the last range may exceed its offset.
\<close>

locale tsan_layout =
  fixes m :: "'a mapping_scheme" and k qmid qhi qheap :: nat
    and lo_e heap_b heap_e mid_b mid_e hi_b hi_e :: nat and metafield :: uptr
  assumes width: "44 + k \<le> 48"
    and msk: "kTsanShadowMsk m = push_bit 44 (mask k)"
    and xor0: "kTsanShadowXor m = 0"
    and pages: "qmid < 2 ^ k" "qhi < 2 ^ k" "qheap < 2 ^ k"
    and bounds:
      "kLoAppMemBeg m = 0" "unat (kLoAppMemEnd m) = lo_e"
      "unat (kMidAppMemBeg m) = qmid * 2 ^ 44 + mid_b" "unat (kMidAppMemEnd m) = qmid * 2 ^ 44 + mid_e"
      "unat (kHiAppMemBeg m) = qhi * 2 ^ 44 + hi_b" "unat (kHiAppMemEnd m) = qhi * 2 ^ 44 + hi_e"
      "unat (kHeapMemBeg m) = qheap * 2 ^ 44 + heap_b" "unat (kHeapMemEnd m) = qheap * 2 ^ 44 + heap_e"
    and order: "lo_e \<le> heap_b" "heap_b \<le> heap_e" "heap_e \<le> mid_b" "mid_b \<le> mid_e"
      "mid_e \<le> hi_b" "hi_b \<le> hi_e" "hi_e \<le> 2 ^ 44"
    and aligned: "8 dvd heap_b" "8 dvd mid_b" "8 dvd hi_b"
    and masked_beg:
      "unat (kMidAppMemBeg m AND NOT (kTsanShadowMsk m)) = mid_b"
      "unat (kHiAppMemBeg m AND NOT (kTsanShadowMsk m)) = hi_b"
      "unat (kHeapMemBeg m AND NOT (kTsanShadowMsk m)) = heap_b"
    and masked_end:
      "unat (kMidAppMemEnd m AND NOT (kTsanShadowMsk m)) = mid_e"
      "hi_e \<le> unat (kHiAppMemEnd m AND NOT (kTsanShadowMsk m))"
      "unat (kHeapMemEnd m AND NOT (kTsanShadowMsk m)) = heap_e"
    and page_bits:
      "kMidAppMemBeg m AND kTsanShadowMsk m = push_bit 44 (word_of_nat qmid)"
      "kHiAppMemBeg m AND kTsanShadowMsk m = push_bit 44 (word_of_nat qhi)"
      "kHeapMemBeg m AND kTsanShadowMsk m = push_bit 44 (word_of_nat qheap)"
    and shadow_fit: "unat (kTsanShadowAdd m) + 2 ^ 45 \<le> 2 ^ 64"
      "kTsanShadowBeg m = kTsanShadowAdd m"
      "unat (kTsanShadowEnd m) = unat (kTsanShadowAdd m) + 2 ^ 45"
    and meta_fit: "kTsanMetaShadowBeg m = push_bit 44 metafield"
      "unat (kTsanMetaShadowBeg m) + 2 ^ 43 \<le> 2 ^ 64"
      "unat (kTsanMetaShadowEnd m) = unat (kTsanMetaShadowBeg m) + 2 ^ 43"
begin

text \<open>An application address is a page number and an offset below 16 TB.\<close>

lemma app_cases:
  assumes "IsAppMem m x"
  obtains (lo) "unat x < lo_e"
    | (mid) r where "unat x = qmid * 2 ^ 44 + r" "mid_b \<le> r" "r < mid_e"
    | (hi) r where "unat x = qhi * 2 ^ 44 + r" "hi_b \<le> r" "r < hi_e"
    | (heap) r where "unat x = qheap * 2 ^ 44 + r" "heap_b \<le> r" "r < heap_e"
proof -
  have split: "\<exists>r. unat x = q * 2 ^ 44 + r \<and> b \<le> r \<and> r < e"
    if "q * 2 ^ 44 + b \<le> unat x" "unat x < q * 2 ^ 44 + e" for q b e
    using that by (intro exI [of _ "unat x - q * 2 ^ 44"]) linarith
  from assms show ?thesis
    unfolding IsAppMem_def word_le_nat_alt word_less_nat_alt bounds
    using split that by blast
qed

lemma page_offset:
  fixes q r :: nat
  assumes "q < 2 ^ k" and "r < 2 ^ 44"
  shows "(q * 2 ^ 44 + r) mod 2 ^ 44 = r" "q * 2 ^ 44 + r < 2 ^ (44 + k)"
proof -
  show "(q * 2 ^ 44 + r) mod 2 ^ 44 = r" using assms(2) by simp
  have "q * 2 ^ 44 + r < Suc q * 2 ^ 44" using assms(2) by simp
  also have "\<dots> \<le> 2 ^ k * 2 ^ 44" by (rule mult_le_mono1) (use assms(1) in simp)
  finally show "q * 2 ^ 44 + r < 2 ^ (44 + k)" by (simp only: power_add mult.commute)
qed

lemma app_page:
  assumes "IsAppMem m x"
  obtains q r where "unat x = q * 2 ^ 44 + r" "q < 2 ^ k" "r < 2 ^ 44"
  using assms
proof (cases rule: app_cases)
  case lo
  then show ?thesis using that [of 0 "unat x"] order by simp
next
  case (mid r)
  then show ?thesis using that [of qmid r] pages order by linarith
next
  case (hi r)
  then show ?thesis using that [of qhi r] pages order by linarith
next
  case (heap r)
  then show ?thesis using that [of qheap r] pages order by linarith
qed

lemma app_bound: "IsAppMem m x \<Longrightarrow> unat x < 2 ^ (44 + k)"
  by (erule app_page) (simp only: page_offset(2))

lemma unat_cell_offset:
  assumes "IsAppMem m x"
  shows "unat (x AND NOT (kTsanShadowMsk m OR 7)) = unat x mod 2 ^ 44 div 8 * 8"
  using unat_clear_top_and_cell [OF app_bound [OF assms], of 3]
  by (simp add: msk mask_eq_exp_minus_1)

lemma cell_less: "n mod 2 ^ 44 div 8 * 8 < (2::nat) ^ 44"
  by (rule le_less_trans [OF div_times_less_eq_dividend]) simp

lemma unat_MemToShadow:
  assumes "IsAppMem m x"
  shows "unat (MemToShadow m x) = unat (kTsanShadowAdd m) + 2 * (unat x mod 2 ^ 44 div 8 * 8)"
proof -
  let ?o = "unat x mod 2 ^ 44 div 8 * 8"
  have "unat (MemToShadow m x) = (?o * 2 mod 2 ^ 64 + unat (kTsanShadowAdd m)) mod 2 ^ 64"
    using unat_cell_offset [OF assms]
    by (simp add: MemToShadow_def xor0 mapping_simps unat_word_ariths)
  with cell_less [of "unat x"] shadow_fit(1) show ?thesis by simp
qed

lemma MemToShadow_in_range:
  assumes "IsAppMem m x"
  shows "IsShadowMem m (MemToShadow m x)"
  using unat_MemToShadow [OF assms] cell_less [of "unat x"] shadow_fit
  by (simp add: IsShadowMem_def word_le_nat_alt word_less_nat_alt)

text \<open>Undoing the scaling recovers the offset inside the page.\<close>

lemma shadow_offset:
  assumes "IsAppMem m x"
  shows "unat ((MemToShadow m x - kTsanShadowAdd m) div kShadowMultiplier) =
         unat x mod 2 ^ 44 div 8 * 8"
proof -
  have "unat (MemToShadow m x - kTsanShadowAdd m) = 2 * (unat x mod 2 ^ 44 div 8 * 8)"
    using unat_MemToShadow [OF assms] by (simp add: unat_sub word_le_nat_alt)
  then show ?thesis by (simp add: unat_div mapping_simps)
qed

lemma page_word:
  assumes "q < 2 ^ k"
  shows "unat (push_bit 44 (word_of_nat q) :: uptr) = q * 2 ^ 44"
proof -
  have "q * 2 ^ 44 < (2::nat) ^ (44 + k)" using page_offset(2) [OF assms, of 0] by simp
  also have "(2::nat) ^ (44 + k) \<le> 2 ^ 48" by (rule power_increasing) (use width in simp_all)
  finally have q: "q * 2 ^ 44 < 2 ^ 64" by simp
  have "push_bit 44 (word_of_nat q) = (word_of_nat (q * 2 ^ 44) :: uptr)"
    by (simp add: push_bit_eq_mult)
  then show ?thesis by (simp only: unat_of_nat) (use q in simp)
qed

lemma round_add_page: "(q * 2 ^ 44 + r) div 8 * 8 = q * 2 ^ 44 + r div 8 * (8::nat)"
proof -
  have "(q * 2 ^ 44 + r) div 8 = q * 2 ^ 41 + r div 8"
    by (subst div_plus_div_distrib_dvd_left) simp_all
  then show ?thesis by simp
qed

lemma or_page:
  fixes p :: uptr
  assumes "unat p = r div 8 * 8" and "r < 2 ^ 44" and "q < 2 ^ k"
  shows "unat (p OR push_bit 44 (word_of_nat q)) = (q * 2 ^ 44 + r) div 8 * 8"
proof -
  have "unat p < 2 ^ 44"
    unfolding assms(1) by (rule le_less_trans [OF div_times_less_eq_dividend assms(2)])
  then have "unat (p OR push_bit 44 (word_of_nat q)) = unat p + q * 2 ^ 44"
    by (simp only: unat_or_push_bit page_word [OF assms(3)])
  also have "\<dots> = (q * 2 ^ 44 + r) div 8 * 8"
    unfolding round_add_page assms(1) by (rule add.commute)
  finally show ?thesis .
qed

lemma round_down_ge:
  fixes b r :: nat
  assumes "8 dvd b" "b \<le> r"
  shows "b \<le> r div 8 * 8"
proof -
  have "b = b div 8 * 8" using assms(1) by simp
  also have "\<dots> \<le> r div 8 * 8" by (rule mult_le_mono1, rule div_le_mono, rule assms(2))
  finally show ?thesis .
qed

text \<open>
  The range checks of \<open>ShadowToMem\<close> put the offset back into its own page, so
  mapping to shadow and back is rounding down to the shadow cell.
\<close>

lemma ShadowToMem_eval:
  assumes "IsShadowMem m sp"
    and p: "p = (sp - kTsanShadowAdd m) div kShadowMultiplier"
  shows "ShadowToMem m sp =
      (if mid_b \<le> unat p \<and> unat p < mid_e then p OR push_bit 44 (word_of_nat qmid)
       else if hi_b \<le> unat p \<and> unat p < unat (kHiAppMemEnd m AND NOT (kTsanShadowMsk m))
       then p OR push_bit 44 (word_of_nat qhi)
       else if heap_b \<le> unat p \<and> unat p < heap_e then p OR push_bit 44 (word_of_nat qheap)
       else p)"
  unfolding ShadowToMem_def Let_def xor0 page_bits word_le_nat_alt word_less_nat_alt
    masked_beg masked_end(1,3) p
  by (simp add: assms(1))

lemma shadow_to_mem_roundtrip:
  assumes x: "IsAppMem m x"
  shows "unat (ShadowToMem m (MemToShadow m x)) = unat x div 8 * 8"
proof -
  define p where "p = (MemToShadow m x - kTsanShadowAdd m) div kShadowMultiplier"
  note eval = ShadowToMem_eval [OF MemToShadow_in_range [OF x] p_def]
  have p: "unat p = unat x mod 2 ^ 44 div 8 * 8"
    unfolding p_def by (rule shadow_offset [OF x])
  have le: "unat p \<le> unat x mod 2 ^ 44" by (simp only: p div_times_less_eq_dividend)
  from x show ?thesis
  proof (cases rule: app_cases)
    case lo
    then have "unat x mod 2 ^ 44 = unat x" using order by simp
    moreover from this have "\<not> mid_b \<le> unat p" "\<not> hi_b \<le> unat p" "\<not> heap_b \<le> unat p"
      using lo le order by simp_all
    ultimately show ?thesis using p eval by simp
  next
    case (mid r)
    then have r: "r < 2 ^ 44" and o: "unat x mod 2 ^ 44 = r"
      using order page_offset(1) [OF pages(1)] by simp_all
    have "mid_b \<le> unat p" unfolding p o by (rule round_down_ge [OF aligned(2) mid(2)])
    moreover have "unat p < mid_e" using le o mid by simp
    ultimately show ?thesis using or_page [OF p [unfolded o] r pages(1)] mid eval by simp
  next
    case (hi r)
    then have r: "r < 2 ^ 44" and o: "unat x mod 2 ^ 44 = r"
      using order page_offset(1) [OF pages(2)] by simp_all
    have "hi_b \<le> unat p" unfolding p o by (rule round_down_ge [OF aligned(3) hi(2)])
    moreover have "unat p < unat (kHiAppMemEnd m AND NOT (kTsanShadowMsk m))"
      using le o hi masked_end(2) by linarith
    moreover have "\<not> unat p < mid_e" using \<open>hi_b \<le> unat p\<close> order by simp
    ultimately show ?thesis using or_page [OF p [unfolded o] r pages(2)] hi eval by simp
  next
    case (heap r)
    then have r: "r < 2 ^ 44" and o: "unat x mod 2 ^ 44 = r"
      using order page_offset(1) [OF pages(3)] by simp_all
    have "heap_b \<le> unat p" unfolding p o by (rule round_down_ge [OF aligned(1) heap(2)])
    moreover have "unat p < heap_e" using le o heap by simp
    moreover from this have "\<not> mid_b \<le> unat p" "\<not> hi_b \<le> unat p" using order by simp_all
    ultimately show ?thesis using or_page [OF p [unfolded o] r pages(3)] heap eval by simp
  qed
qed

lemma ShadowToMem_MemToShadow:
  assumes "IsAppMem m x"
  shows "ShadowToMem m (MemToShadow m x) = x AND NOT 7"
proof -
  have "unat (x AND NOT 7) = unat x div 8 * 8"
    using unat_and_not_mask [of x 3] by (simp add: mask_eq_exp_minus_1)
  with shadow_to_mem_roundtrip [OF assms] show ?thesis by (simp add: word_unat_eq_iff)
qed

text \<open>Two application addresses share a shadow cell only if they lie in one cell.\<close>

lemma MemToShadow_inj:
  assumes "IsAppMem m x" "IsAppMem m y" "MemToShadow m x = MemToShadow m y"
  shows "x AND NOT 7 = y AND NOT 7"
  using assms ShadowToMem_MemToShadow [of x] ShadowToMem_MemToShadow [of y] by simp

text \<open>Meta cells: the offset halved, joined with the bits of the meta region.\<close>

lemma unat_MemToMeta:
  assumes "IsAppMem m x"
  shows "unat (MemToMeta m x) = unat (kTsanMetaShadowBeg m) + unat x mod 2 ^ 44 div 8 * 4"
proof -
  let ?w = "x AND NOT (kTsanShadowMsk m OR 7)"
  have lt: "unat x mod 2 ^ 44 div 8 * 4 < 2 ^ 43" using cell_less [of "unat x"] by simp
  have "unat (?w div 8 * 4) = unat ?w div 8 * 4 mod 2 ^ 64"
    by (simp add: unat_word_ariths unat_div mod_mult_left_eq)
  also have "\<dots> = unat x mod 2 ^ 44 div 8 * 4"
    unfolding unat_cell_offset [OF assms] using lt by simp
  finally have w: "unat (?w div 8 * 4) = unat x mod 2 ^ 44 div 8 * 4" .
  have "unat (?w div 8 * 4) < 2 ^ 44" unfolding w using lt by simp
  then show ?thesis
    unfolding MemToMeta_def meta_fit(1) kMetaShadowCell_def kMetaShadowSize_def
    using w unat_or_push_bit [of "?w div 8 * 4" 44 metafield] by simp
qed

lemma MemToMeta_in_range:
  assumes "IsAppMem m x"
  shows "IsMetaMem m (MemToMeta m x)"
  using unat_MemToMeta [OF assms] cell_less [of "unat x"] meta_fit
  by (simp add: IsMetaMem_def word_le_nat_alt word_less_nat_alt)

lemma MemToMeta_inj:
  assumes "IsAppMem m x" "IsAppMem m y" "MemToMeta m x = MemToMeta m y"
  shows "x AND NOT 7 = y AND NOT 7"
proof -
  have "unat x mod 2 ^ 44 div 8 = unat y mod 2 ^ 44 div 8"
    using unat_MemToMeta [OF assms(1)] unat_MemToMeta [OF assms(2)] assms(3) by simp
  then have "MemToShadow m x = MemToShadow m y"
    using unat_MemToShadow [OF assms(1)] unat_MemToShadow [OF assms(2)]
    by (simp add: word_unat_eq_iff)
  then show ?thesis by (rule MemToShadow_inj [OF assms(1,2)])
qed

end

section \<open>The two XSan platforms satisfy the contract\<close>

interpretation x64: tsan_layout MappingX64_48 3 5 7 6
    "2 ^ 40" "0x020000000000" "0x040000000000" "0x050000000000" "0x0a0000000000"
    "0x0a0000000000" "0x100000000000" 7
  by unfold_locales (simp_all add: MappingX64_48_def mask_eq_exp_minus_1 push_bit_eq_mult)

interpretation a64: tsan_layout MappingAarch64_48 4 10 15 13
    "2 ^ 40" "0x080000000000" "0x0a0000000000" "0x0aaa00000000" "0x0c0000000000"
    "0x0c0000000000" "0x100000000000" 13
  by unfold_locales (simp_all add: MappingAarch64_48_def mask_eq_exp_minus_1 push_bit_eq_mult)

section \<open>Restoring compressed addresses\<close>

text \<open>
  \<open>RestoreAddr\<close> walks the application ranges in 2 TB chunks and compares bits
  41 to 43.  A range is searched correctly when it spans fewer than eight chunks,
  and passed over when none of its chunks has the low three bits of the address's.
\<close>

lemma ind_lsb_eq [mapping_simps]: "ind_lsb = push_bit 41 1"
proof -
  have "LeastSignificantSetBitIndex indicator_bits = 41"
    by (simp add: LeastSignificantSetBitIndex_def indicator_bits_def upt_rec)
  then show ?thesis by (simp add: ind_lsb_def)
qed

lemma CompressAddr_eq: "CompressAddr a = take_bit 44 a"
  by (simp add: CompressAddr_def kCompressedAddrBits_def take_bit_eq_mask mask_eq_exp_minus_1)

definition chunk :: "uptr \<Rightarrow> nat" where "chunk a = unat a div 2 ^ 41"

lemma chunk_drop_bit: "chunk a = unat (drop_bit 41 a)"
  by (simp only: chunk_def unat_drop_bit_eq) (simp add: drop_bit_eq_div)

lemma indicator_and: "x AND indicator_bits = push_bit 41 (take_bit 3 (drop_bit 41 x))"
proof (rule bit_word_eqI)
  fix n assume "n < LENGTH(64)"
  have ind: "indicator_bits = push_bit 41 (mask 3)"
    by (simp add: indicator_bits_def mask_eq_exp_minus_1 push_bit_eq_mult)
  show "bit (x AND indicator_bits) n \<longleftrightarrow> bit (push_bit 41 (take_bit 3 (drop_bit 41 x))) n"
    unfolding ind by (auto simp: bit_simps)
qed

lemma indicator_eq_iff:
  "(CompressAddr a AND indicator_bits = p AND indicator_bits) \<longleftrightarrow> chunk a mod 8 = chunk p mod 8"
proof -
  have inj: "push_bit 41 u = push_bit 41 v \<longleftrightarrow> u = v"
    if "unat u < 8" "unat v < 8" for u v :: uptr
    using that by (simp add: push_bit_eq_mult word_unat_eq_iff unat_word_ariths)
  have lt: "unat (take_bit 3 x) < 8" for x :: uptr by (simp add: unat_take_bit_mod)
  have "CompressAddr a AND indicator_bits = a AND indicator_bits"
    unfolding CompressAddr_eq indicator_and by (rule bit_word_eqI) (auto simp: bit_simps)
  then have "(CompressAddr a AND indicator_bits = p AND indicator_bits) \<longleftrightarrow>
      take_bit 3 (drop_bit 41 a) = take_bit 3 (drop_bit 41 p)"
    unfolding indicator_and by (simp only: inj [OF lt lt])
  also have "\<dots> \<longleftrightarrow> chunk a mod 8 = chunk p mod 8"
    by (simp add: word_unat_eq_iff unat_take_bit_mod chunk_drop_bit)
  finally show ?thesis .
qed

lemma restored_addr:
  assumes "chunk p = chunk a"
  shows "CompressAddr a OR (p AND NOT (ind_lsb - 1)) = a"
proof (rule bit_word_eqI)
  fix n assume "n < LENGTH(64)"
  have "drop_bit 41 p = drop_bit 41 a"
    using assms by (simp add: chunk_drop_bit word_unat_eq_iff)
  then have "bit (drop_bit 41 p) (n - 41) = bit (drop_bit 41 a) (n - 41)" by simp
  then have hi: "bit p n = bit a n" if "41 \<le> n" using that by (simp add: bit_simps)
  have m: "ind_lsb - 1 = mask 41" by (simp add: mapping_simps mask_eq_exp_minus_1 push_bit_eq_mult)
  show "bit (CompressAddr a OR (p AND NOT (ind_lsb - 1))) n \<longleftrightarrow> bit a n"
    unfolding m CompressAddr_eq using hi \<open>n < LENGTH(64)\<close>
    by (cases "41 \<le> n") (auto simp: bit_simps)
qed

lemma unat_next_chunk:
  assumes "unat p < 2 ^ 63"
  shows "unat (RoundDown (p + ind_lsb) ind_lsb) = Suc (chunk p) * 2 ^ 41"
proof -
  have m: "ind_lsb - 1 = mask 41" by (simp add: mapping_simps mask_eq_exp_minus_1 push_bit_eq_mult)
  have "unat (p + ind_lsb) = unat p + 2 ^ 41"
    using assms by (simp add: mapping_simps push_bit_eq_mult unat_word_ariths)
  then show ?thesis
    unfolding RoundDown_def m unat_and_not_mask chunk_def by (simp add: div_add_self2)
qed

lemma chunk_of_multiple: "unat p = c * 2 ^ 41 \<Longrightarrow> chunk p = c"
  by (simp add: chunk_def)

lemma near_mod_8: "(c::nat) < j \<Longrightarrow> j - c < 8 \<Longrightarrow> j mod 8 \<noteq> c mod 8"
proof
  assume "c < j" "j - c < 8" "j mod 8 = c mod 8"
  then have "8 dvd j - c" by (metis less_imp_le mod_eq_dvd_iff_nat)
  with \<open>c < j\<close> \<open>j - c < 8\<close> show False by (auto dest: dvd_imp_le)
qed

lemma restore_loop_hit:
  assumes "unat p \<le> unat a" "unat a < unat e" "unat e \<le> 2 ^ 63" "chunk a - chunk p < 8"
  shows "restore_loop (CompressAddr a) p e = Some (Some a)"
  using assms
proof (induction "chunk a - chunk p" arbitrary: p rule: less_induct)
  case less
  have le: "chunk p \<le> chunk a" unfolding chunk_def by (rule div_le_mono [OF less.prems(1)])
  have pe: "p < e" using less.prems by (simp add: word_less_nat_alt)
  show ?case
  proof (cases "chunk p = chunk a")
    case True
    with pe show ?thesis
      by (subst restore_loop.simps) (simp add: indicator_eq_iff restored_addr)
  next
    case False
    let ?p' = "RoundDown (p + ind_lsb) ind_lsb"
    have "chunk p < chunk a" using le False by simp
    then have neq: "chunk a mod 8 \<noteq> chunk p mod 8"
      using less.prems(4) by (rule near_mod_8)
    have up: "unat ?p' = Suc (chunk p) * 2 ^ 41"
      by (rule unat_next_chunk) (use less.prems in linarith)
    then have cp: "chunk ?p' = Suc (chunk p)" by (rule chunk_of_multiple)
    have "Suc (chunk p) * 2 ^ 41 \<le> chunk a * 2 ^ 41"
      by (rule mult_le_mono1) (use \<open>chunk p < chunk a\<close> in simp)
    also have "\<dots> \<le> unat a" by (simp only: chunk_def div_times_less_eq_dividend)
    finally have "unat ?p' \<le> unat a" by (simp only: up)
    then have "restore_loop (CompressAddr a) ?p' e = Some (Some a)"
      using less.hyps [of ?p'] less.prems cp \<open>chunk p < chunk a\<close> by simp
    with pe neq show ?thesis
      by (subst restore_loop.simps) (simp add: indicator_eq_iff)
  qed
qed

lemma restore_loop_miss:
  assumes "unat e \<le> 2 ^ 63"
    and "\<forall>c. chunk p \<le> c \<and> c * 2 ^ 41 < unat e \<longrightarrow> chunk a mod 8 \<noteq> c mod 8"
  shows "restore_loop (CompressAddr a) p e = Some None"
  using assms(2)
proof (induction "unat e - unat p" arbitrary: p rule: less_induct)
  case less
  let ?p' = "RoundDown (p + ind_lsb) ind_lsb"
  show ?case
  proof (cases "p < e")
    case False
    then show ?thesis by (subst restore_loop.simps) simp
  next
    case True
    then have lt: "unat p < unat e" by (simp add: word_less_nat_alt)
    have "chunk p * 2 ^ 41 \<le> unat p" by (simp only: chunk_def div_times_less_eq_dividend)
    with lt less.prems have neq: "chunk a mod 8 \<noteq> chunk p mod 8" by auto
    have up: "unat ?p' = Suc (chunk p) * 2 ^ 41"
      by (rule unat_next_chunk) (use lt assms(1) in linarith)
    then have cp: "chunk ?p' = Suc (chunk p)" by (rule chunk_of_multiple)
    have "unat p < unat ?p'" unfolding up chunk_def
      using div_mult_mod_eq [of "unat p" "2 ^ 41"] mod_less_divisor [of "2 ^ 41" "unat p"] by simp
    then have "restore_loop (CompressAddr a) ?p' e = Some None"
      using less.hyps [of ?p'] less.prems lt cp by simp
    with True neq show ?thesis
      by (subst restore_loop.simps) (simp add: indicator_eq_iff)
  qed
qed

text \<open>
  A table of ranges is searched in order: ranges before the one that holds the
  address must not own a chunk with the same low three bits.
\<close>

definition foreign_chunks :: "uptr \<Rightarrow> uptr \<times> uptr \<Rightarrow> bool" where
  "foreign_chunks a r \<longleftrightarrow> unat (snd r) \<le> 2 ^ 63 \<and>
     (\<forall>c. chunk (fst r) \<le> c \<and> c * 2 ^ 41 < unat (snd r) \<longrightarrow> chunk a mod 8 \<noteq> c mod 8)"

lemma restore_ranges_hit:
  assumes "\<forall>r \<in> set rs. foreign_chunks a r"
    and "unat b \<le> unat a" "unat a < unat e" "unat e \<le> 2 ^ 63" "chunk a - chunk b < 8"
  shows "restore_ranges (CompressAddr a) (rs @ (b, e) # rs') = Some (Some a)"
  using assms(1)
proof (induction rs)
  case Nil
  have "b \<noteq> e" using assms by auto
  with restore_loop_hit [OF assms(2-5)] show ?case by simp
next
  case (Cons r rs)
  obtain b' e' where r: "r = (b', e')" by (cases r)
  from Cons.prems have "restore_loop (CompressAddr a) b' e' = Some None"
    by (intro restore_loop_miss) (simp_all add: foreign_chunks_def r)
  with Cons show ?case by (simp add: r)
qed

text \<open>Chunk numbers of a constant range form a short list, so the test above is a computation.\<close>

lemma foreign_chunksI:
  assumes "unat e \<le> 2 ^ 63" and "chunk b = cb" and "unat e \<le> n * 2 ^ 41"
    and "\<forall>c \<in> set [cb..<n]. chunk a mod 8 \<noteq> c mod 8"
  shows "foreign_chunks a (b, e)"
  unfolding foreign_chunks_def fst_conv snd_conv
proof (intro conjI allI impI)
  fix c assume "chunk b \<le> c \<and> c * 2 ^ 41 < unat e"
  with assms(2,3) have "cb \<le> c" "c * 2 ^ 41 < n * 2 ^ 41" by linarith+
  then have "c \<in> set [cb..<n]" by simp
  with assms(4) show "chunk a mod 8 \<noteq> c mod 8" by blast
qed (rule assms(1))

lemma chunk_range:
  assumes "cb * 2 ^ 41 \<le> unat a" "unat a < n * 2 ^ 41"
  shows "chunk a \<in> set [cb..<n]"
proof -
  have "cb \<le> chunk a" unfolding chunk_def using assms(1) by (simp add: less_eq_div_iff_mult_less_eq)
  moreover have "chunk a < n" unfolding chunk_def using assms(2) by (simp add: less_mult_imp_div_less)
  ultimately show ?thesis by simp
qed

text \<open>
  The chunk numbers of the four ranges (low, middle, high application memory and
  the heap) have different low three bits on each platform.
\<close>

lemma restore_x64:
  assumes "IsAppMem MappingX64_48 a"
  shows "RestoreAddr MappingX64_48 (CompressAddr a) = Some (Some a)"
proof -
  let ?lo = "(0x000000000000, 0x010000000000) :: uptr \<times> uptr"
  let ?mid = "(0x550000000000, 0x5a0000000000) :: uptr \<times> uptr"
  let ?hi = "(0x7a0000000000, 0x800000000000) :: uptr \<times> uptr"
  let ?heap = "(0x620000000000, 0x640000000000) :: uptr \<times> uptr"
  have eq: "RestoreAddr MappingX64_48 x = restore_ranges x [?lo, ?mid, ?hi, ?heap]" for x
    by (simp add: RestoreAddr_def MappingX64_48_def)
  have f: "foreign_chunks a ?lo" if "chunk a mod 8 \<noteq> 0"
    using that by (intro foreign_chunksI [where cb = 0 and n = 1]) (simp_all add: chunk_def)
  have g: "foreign_chunks a ?mid" if "chunk a mod 8 \<notin> {2, 3, 4}"
    using that by (intro foreign_chunksI [where cb = 42 and n = 45]) (simp_all add: chunk_def)
  have h: "foreign_chunks a ?hi" if "chunk a mod 8 \<notin> {5, 6, 7}"
    using that by (intro foreign_chunksI [where cb = 61 and n = 64]) (simp_all add: chunk_def)
  from assms show ?thesis
  proof (cases rule: x64.app_cases)
    case lo
    then have "restore_ranges (CompressAddr a) ([] @ ?lo # [?mid, ?hi, ?heap]) = Some (Some a)"
      by (intro restore_ranges_hit) (simp_all add: chunk_def)
    then show ?thesis by (simp only: eq append.simps)
  next
    case (mid r)
    then have "chunk a \<in> set [42..<45]" by (intro chunk_range) simp_all
    then have c: "chunk a \<in> {42, 43, 44}" by auto
    then have "foreign_chunks a ?lo" by (intro f) auto
    then have "restore_ranges (CompressAddr a) ([?lo] @ ?mid # [?hi, ?heap]) = Some (Some a)"
      using mid c by (intro restore_ranges_hit) (auto simp: chunk_def)
    then show ?thesis by (simp only: eq append.simps)
  next
    case (hi r)
    then have "chunk a \<in> set [61..<64]" by (intro chunk_range) simp_all
    then have c: "chunk a \<in> {61, 62, 63}" by auto
    then have "foreign_chunks a ?lo" "foreign_chunks a ?mid" by (intro f g; auto)+
    then have "restore_ranges (CompressAddr a) ([?lo, ?mid] @ ?hi # [?heap]) = Some (Some a)"
      using hi c by (intro restore_ranges_hit) (auto simp: chunk_def)
    then show ?thesis by (simp only: eq append.simps)
  next
    case (heap r)
    then have "chunk a \<in> set [49..<50]" by (intro chunk_range) simp_all
    then have c: "chunk a = 49" by auto
    then have "foreign_chunks a ?lo" "foreign_chunks a ?mid" "foreign_chunks a ?hi"
      by (intro f g h; simp)+
    then have "restore_ranges (CompressAddr a) ([?lo, ?mid, ?hi] @ ?heap # []) = Some (Some a)"
      using heap c by (intro restore_ranges_hit) (auto simp: chunk_def)
    then show ?thesis by (simp only: eq append.simps)
  qed
qed

lemma restore_a64:
  assumes "IsAppMem MappingAarch64_48 a"
  shows "RestoreAddr MappingAarch64_48 (CompressAddr a) = Some (Some a)"
proof -
  let ?lo = "(0x000000000000, 0x010000000000) :: uptr \<times> uptr"
  let ?mid = "(0xaaaa00000000, 0xac0000000000) :: uptr \<times> uptr"
  let ?hi = "(0xfc0000000000, 0x1000000000000) :: uptr \<times> uptr"
  let ?heap = "(0xd80000000000, 0xda0000000000) :: uptr \<times> uptr"
  have eq: "RestoreAddr MappingAarch64_48 x = restore_ranges x [?lo, ?mid, ?hi, ?heap]" for x
    by (simp add: RestoreAddr_def MappingAarch64_48_def)
  have f: "foreign_chunks a ?lo" if "chunk a mod 8 \<noteq> 0"
    using that by (intro foreign_chunksI [where cb = 0 and n = 1]) (simp_all add: chunk_def)
  have g: "foreign_chunks a ?mid" if "chunk a mod 8 \<noteq> 5"
    using that by (intro foreign_chunksI [where cb = 85 and n = 86]) (simp_all add: chunk_def)
  have h: "foreign_chunks a ?hi" if "chunk a mod 8 \<notin> {6, 7}"
    using that by (intro foreign_chunksI [where cb = 126 and n = 128]) (simp_all add: chunk_def)
  from assms show ?thesis
  proof (cases rule: a64.app_cases)
    case lo
    then have "restore_ranges (CompressAddr a) ([] @ ?lo # [?mid, ?hi, ?heap]) = Some (Some a)"
      by (intro restore_ranges_hit) (simp_all add: chunk_def)
    then show ?thesis by (simp only: eq append.simps)
  next
    case (mid r)
    then have "chunk a \<in> set [85..<86]" by (intro chunk_range) simp_all
    then have c: "chunk a = 85" by auto
    then have "foreign_chunks a ?lo" by (intro f) auto
    then have "restore_ranges (CompressAddr a) ([?lo] @ ?mid # [?hi, ?heap]) = Some (Some a)"
      using mid c by (intro restore_ranges_hit) (auto simp: chunk_def)
    then show ?thesis by (simp only: eq append.simps)
  next
    case (hi r)
    then have "chunk a \<in> set [126..<128]" by (intro chunk_range) simp_all
    then have c: "chunk a \<in> {126, 127}" by auto
    then have "foreign_chunks a ?lo" "foreign_chunks a ?mid" by (intro f g; auto)+
    then have "restore_ranges (CompressAddr a) ([?lo, ?mid] @ ?hi # [?heap]) = Some (Some a)"
      using hi c by (intro restore_ranges_hit) (auto simp: chunk_def)
    then show ?thesis by (simp only: eq append.simps)
  next
    case (heap r)
    then have "chunk a \<in> set [108..<109]" by (intro chunk_range) simp_all
    then have c: "chunk a = 108" by auto
    then have "foreign_chunks a ?lo" "foreign_chunks a ?mid" "foreign_chunks a ?hi"
      by (intro f g h; simp)+
    then have "restore_ranges (CompressAddr a) ([?lo, ?mid, ?hi] @ ?heap # []) = Some (Some a)"
      using heap c by (intro restore_ranges_hit) (auto simp: chunk_def)
    then show ?thesis by (simp only: eq append.simps)
  qed
qed

section \<open>Properties\<close>

text \<open>C27: On both platforms, mapping an application address to its shadow cell and back
  with the specialised ShadowToMem yields the address rounded down to its shadow
  granule of eight bytes.\<close>
theorem shadow_roundtrip:
  assumes "IsAppMem (XsanMapping p) x"
  shows "IsShadowMem (XsanMapping p) (MemToShadow (XsanMapping p) x) \<and>
         ShadowToMem (XsanMapping p) (MemToShadow (XsanMapping p) x) = x AND NOT 7"
  using assms by (cases p) (simp_all add: x64.ShadowToMem_MemToShadow a64.ShadowToMem_MemToShadow
    x64.MemToShadow_in_range a64.MemToShadow_in_range)

lemma shadow_roundtrip_witness:
  "ShadowToMem (XsanMapping x86_64) (MemToShadow (XsanMapping x86_64) 0x55000000000f) = 0x550000000008"
proof -
  have "IsAppMem (XsanMapping x86_64) 0x55000000000f" by code_simp
  from shadow_roundtrip [OF this] show ?thesis by simp
qed

text \<open>The upstream ShadowToMem is wrong for heap addresses of the x86-64 table: the
  shadow of a heap address is taken back to an address outside application
  memory, which is why the code specialises it.\<close>
theorem upstream_ShadowToMem_fails_on_heap:
  "IsAppMem MappingX64_48 0x620000000000 \<and>
   ShadowToMem_default MappingX64_48 (MemToShadow MappingX64_48 0x620000000000) = 0x720000000000 \<and>
   \<not> IsAppMem MappingX64_48 0x720000000000"
  by code_simp

text \<open>Compressing an application address to 44 bits and restoring it returns the
  address, on both platforms; the search neither dies nor runs forever.\<close>
theorem restore_compress:
  assumes "IsAppMem (XsanMapping p) a"
  shows "RestoreAddr (XsanMapping p) (CompressAddr a) = Some (Some a)"
  using assms by (cases p) (simp_all add: restore_x64 restore_a64)

lemma restore_compress_witness:
  "RestoreAddr (XsanMapping aarch64) (CompressAddr 0xd80000001234) = Some (Some 0xd80000001234)"
  by (rule restore_compress) code_simp

text \<open>Application addresses share a meta cell only when they share the eight-byte
  granule, and the meta cell lies in the meta region.\<close>
theorem meta_cell_injective:
  assumes "IsAppMem (XsanMapping p) x" "IsAppMem (XsanMapping p) y"
  shows "IsMetaMem (XsanMapping p) (MemToMeta (XsanMapping p) x) \<and>
         (MemToMeta (XsanMapping p) x = MemToMeta (XsanMapping p) y \<longrightarrow> x AND NOT 7 = y AND NOT 7)"
  using assms by (cases p) (auto simp: x64.MemToMeta_in_range a64.MemToMeta_in_range
    dest: x64.MemToMeta_inj a64.MemToMeta_inj)

lemma meta_cell_injective_witness:
  "IsMetaMem (XsanMapping x86_64) (MemToMeta (XsanMapping x86_64) 0x620000000010)"
proof -
  have "IsAppMem (XsanMapping x86_64) 0x620000000010" by code_simp
  from meta_cell_injective [OF this this] show ?thesis by simp
qed

end
