(* ===== verification/Shadow_Layout.thy ===== *)
theory Shadow_Layout
  imports Tsan_Mapping
begin

unbundle bit_operations_syntax

text \<open>
  MSan's and ASan's address mappings (\<open>msan/msan_interface_xsan.h\<close>,
  \<open>asan/asan_mapping.h\<close>) and the coexistence of the three sanitizers: which bytes
  of the process each of them uses as metadata for an application address, that
  these bytes lie in the region the generated table \<open>kRegions\<close> names for them, and
  that metadata of different kinds never overlaps.
\<close>

section \<open>MSan\<close>

definition MSAN_MEM_TO_SHADOW :: "mapping48 \<Rightarrow> uptr \<Rightarrow> uptr" where
  "MSAN_MEM_TO_SHADOW m p = p XOR kMSanShadowXor m"

definition MSAN_SHADOW_TO_ORIGIN :: "mapping48 \<Rightarrow> uptr \<Rightarrow> uptr" where
  "MSAN_SHADOW_TO_ORIGIN m p = p + kMSanShadowAdd m"

definition MSAN_MEM_TO_ORIGIN :: "mapping48 \<Rightarrow> uptr \<Rightarrow> uptr" where
  "MSAN_MEM_TO_ORIGIN m p = MSAN_SHADOW_TO_ORIGIN m (MSAN_MEM_TO_SHADOW m p)"

text \<open>\<open>MSAN_MAP_BEG\<close> and \<open>MSAN_MAP_END\<close>: the mapped bounds of an application range.\<close>

definition msan_map_beg :: "(uptr \<Rightarrow> uptr) \<Rightarrow> uptr \<Rightarrow> uptr" where
  "msan_map_beg f field = f field"

definition msan_map_end :: "(uptr \<Rightarrow> uptr) \<Rightarrow> uptr \<Rightarrow> uptr" where
  "msan_map_end f field = f (field - 1) + 1"

section \<open>ASan\<close>

text \<open>
  The macros of \<open>asan_mapping.h\<close> over the shadow offset and the bounds of
  application memory found at start-up (\<open>kMidMemBeg = 0\<close> without a middle region).
\<close>

record asan_layout =
  ASAN_SHADOW_OFFSET :: uptr
  kHighMemEnd :: uptr
  kMidMemBeg :: uptr
  kMidMemEnd :: uptr
  protect_shadow_gap :: bool

definition ASAN_SHADOW_SCALE :: nat where "ASAN_SHADOW_SCALE = 3"
definition ASAN_SHADOW_GRANULARITY :: uptr where
  "ASAN_SHADOW_GRANULARITY = push_bit ASAN_SHADOW_SCALE 1"

definition MEM_TO_SHADOW :: "uptr \<Rightarrow> uptr \<Rightarrow> uptr" where
  "MEM_TO_SHADOW off mem = drop_bit ASAN_SHADOW_SCALE mem + off"

definition SHADOW_TO_MEM :: "uptr \<Rightarrow> uptr \<Rightarrow> uptr" where
  "SHADOW_TO_MEM off mem = push_bit ASAN_SHADOW_SCALE (mem - off)"

definition kLowMemEnd :: "asan_layout \<Rightarrow> uptr" where
  "kLowMemEnd l = (if ASAN_SHADOW_OFFSET l \<noteq> 0 then ASAN_SHADOW_OFFSET l - 1 else 0)"
definition kLowShadowBeg :: "asan_layout \<Rightarrow> uptr" where
  "kLowShadowBeg l = ASAN_SHADOW_OFFSET l"
definition kLowShadowEnd :: "asan_layout \<Rightarrow> uptr" where
  "kLowShadowEnd l = MEM_TO_SHADOW (ASAN_SHADOW_OFFSET l) (kLowMemEnd l)"
definition kHighMemBeg :: "asan_layout \<Rightarrow> uptr" where
  "kHighMemBeg l = MEM_TO_SHADOW (ASAN_SHADOW_OFFSET l) (kHighMemEnd l) + 1"
definition kHighShadowBeg :: "asan_layout \<Rightarrow> uptr" where
  "kHighShadowBeg l = MEM_TO_SHADOW (ASAN_SHADOW_OFFSET l) (kHighMemBeg l)"
definition kHighShadowEnd :: "asan_layout \<Rightarrow> uptr" where
  "kHighShadowEnd l = MEM_TO_SHADOW (ASAN_SHADOW_OFFSET l) (kHighMemEnd l)"
definition kMidShadowBeg :: "asan_layout \<Rightarrow> uptr" where
  "kMidShadowBeg l = MEM_TO_SHADOW (ASAN_SHADOW_OFFSET l) (kMidMemBeg l)"
definition kMidShadowEnd :: "asan_layout \<Rightarrow> uptr" where
  "kMidShadowEnd l = MEM_TO_SHADOW (ASAN_SHADOW_OFFSET l) (kMidMemEnd l)"
definition kShadowGapBeg :: "asan_layout \<Rightarrow> uptr" where
  "kShadowGapBeg l = (if kLowShadowEnd l \<noteq> 0 then kLowShadowEnd l + 1 else 0)"
definition kShadowGapEnd :: "asan_layout \<Rightarrow> uptr" where
  "kShadowGapEnd l = (if kMidMemBeg l \<noteq> 0 then kMidShadowBeg l else kHighShadowBeg l) - 1"
definition kShadowGap2Beg :: "asan_layout \<Rightarrow> uptr" where
  "kShadowGap2Beg l = (if kMidMemBeg l \<noteq> 0 then kMidShadowEnd l + 1 else 0)"
definition kShadowGap2End :: "asan_layout \<Rightarrow> uptr" where
  "kShadowGap2End l = (if kMidMemBeg l \<noteq> 0 then kMidMemBeg l - 1 else 0)"
definition kShadowGap3Beg :: "asan_layout \<Rightarrow> uptr" where
  "kShadowGap3Beg l = (if kMidMemBeg l \<noteq> 0 then kMidMemEnd l + 1 else 0)"
definition kShadowGap3End :: "asan_layout \<Rightarrow> uptr" where
  "kShadowGap3End l = (if kMidMemBeg l \<noteq> 0 then kHighShadowBeg l - 1 else 0)"

definition AddrIsInLowMem :: "asan_layout \<Rightarrow> uptr \<Rightarrow> bool" where
  "AddrIsInLowMem l a \<longleftrightarrow> a \<le> kLowMemEnd l"
definition AddrIsInLowShadow :: "asan_layout \<Rightarrow> uptr \<Rightarrow> bool" where
  "AddrIsInLowShadow l a \<longleftrightarrow> a \<ge> kLowShadowBeg l \<and> a \<le> kLowShadowEnd l"
definition AddrIsInMidMem :: "asan_layout \<Rightarrow> uptr \<Rightarrow> bool" where
  "AddrIsInMidMem l a \<longleftrightarrow> kMidMemBeg l \<noteq> 0 \<and> a \<ge> kMidMemBeg l \<and> a \<le> kMidMemEnd l"
definition AddrIsInMidShadow :: "asan_layout \<Rightarrow> uptr \<Rightarrow> bool" where
  "AddrIsInMidShadow l a \<longleftrightarrow> kMidMemBeg l \<noteq> 0 \<and> a \<ge> kMidShadowBeg l \<and> a \<le> kMidShadowEnd l"
definition AddrIsInHighMem :: "asan_layout \<Rightarrow> uptr \<Rightarrow> bool" where
  "AddrIsInHighMem l a \<longleftrightarrow> kHighMemBeg l \<noteq> 0 \<and> a \<ge> kHighMemBeg l \<and> a \<le> kHighMemEnd l"
definition AddrIsInHighShadow :: "asan_layout \<Rightarrow> uptr \<Rightarrow> bool" where
  "AddrIsInHighShadow l a \<longleftrightarrow>
     kHighMemBeg l \<noteq> 0 \<and> a \<ge> kHighShadowBeg l \<and> a \<le> kHighShadowEnd l"
definition AddrIsInShadowGap :: "asan_layout \<Rightarrow> uptr \<Rightarrow> bool" where
  "AddrIsInShadowGap l a \<longleftrightarrow>
     (if kMidMemBeg l \<noteq> 0 then
        if a \<le> kShadowGapEnd l then ASAN_SHADOW_OFFSET l = 0 \<or> a \<ge> kShadowGapBeg l
        else (a \<ge> kShadowGap2Beg l \<and> a \<le> kShadowGap2End l) \<or>
             (a \<ge> kShadowGap3Beg l \<and> a \<le> kShadowGap3End l)
      else if ASAN_SHADOW_OFFSET l = 0 then a \<le> kShadowGapEnd l
      else a \<ge> kShadowGapBeg l \<and> a \<le> kShadowGapEnd l)"

definition AddrIsInMem :: "asan_layout \<Rightarrow> uptr \<Rightarrow> bool" where
  "AddrIsInMem l a \<longleftrightarrow> AddrIsInLowMem l a \<or> AddrIsInMidMem l a \<or> AddrIsInHighMem l a \<or>
     (\<not> protect_shadow_gap l \<and> AddrIsInShadowGap l a)"
definition AddrIsInShadow :: "asan_layout \<Rightarrow> uptr \<Rightarrow> bool" where
  "AddrIsInShadow l a \<longleftrightarrow>
     AddrIsInLowShadow l a \<or> AddrIsInMidShadow l a \<or> AddrIsInHighShadow l a"
definition MemToShadowSize :: "uptr \<Rightarrow> uptr" where
  "MemToShadowSize sz = drop_bit ASAN_SHADOW_SCALE sz"
definition AddrIsAlignedByGranularity :: "uptr \<Rightarrow> bool" where
  "AddrIsAlignedByGranularity a \<longleftrightarrow> a AND (ASAN_SHADOW_GRANULARITY - 1) = 0"

lemmas asan_mem_simps [mapping_simps] =
  ASAN_SHADOW_SCALE_def ASAN_SHADOW_GRANULARITY_def
lemmas asan_bound_defs =
  kLowMemEnd_def kLowShadowBeg_def kLowShadowEnd_def kHighMemBeg_def kHighShadowBeg_def
  kHighShadowEnd_def kMidShadowBeg_def kMidShadowEnd_def kShadowGapBeg_def kShadowGapEnd_def
  kShadowGap2Beg_def kShadowGap2End_def kShadowGap3Beg_def kShadowGap3End_def
lemmas asan_addr_defs =
  AddrIsInLowMem_def AddrIsInLowShadow_def AddrIsInMidMem_def AddrIsInMidShadow_def
  AddrIsInHighMem_def AddrIsInHighShadow_def AddrIsInShadowGap_def

lemma unat_MEM_TO_SHADOW:
  assumes "unat mem div 8 + unat off < 2 ^ 64"
  shows "unat (MEM_TO_SHADOW off mem) = unat mem div 8 + unat off"
proof -
  have "unat (drop_bit 3 mem) = unat mem div 8"
    by (simp only: unat_drop_bit_eq) (simp add: drop_bit_eq_div)
  with assms show ?thesis by (simp add: MEM_TO_SHADOW_def mapping_simps unat_word_ariths)
qed

lemma SHADOW_TO_MEM_MEM_TO_SHADOW:
  "SHADOW_TO_MEM off (MEM_TO_SHADOW off mem) = mem AND NOT 7"
proof -
  have "push_bit 3 (drop_bit 3 mem) = mem AND NOT (mask 3)"
    by (rule and_not_mask_push_drop [symmetric])
  then show ?thesis
    by (simp add: SHADOW_TO_MEM_def MEM_TO_SHADOW_def mapping_simps mask_eq_exp_minus_1)
qed

text \<open>
  The contract of an ASan layout without a middle region: a non-zero offset that
  leaves the low shadow below the high shadow, and high memory above it.
\<close>

locale asan_two_regions =
  fixes l :: asan_layout and off high :: nat
  assumes no_mid: "kMidMemBeg l = 0"
    and off: "unat (ASAN_SHADOW_OFFSET l) = off" "0 < off"
    and high: "unat (kHighMemEnd l) = high" "high div 8 + off < high"
    and gap: "off + (off - 1) div 8 < Suc (high div 8 + off) div 8 + off"
begin

lemma high_bound: "high < 2 ^ 64"
proof -
  have "unat (kHighMemEnd l) < 2 ^ LENGTH(64)" by (rule unsigned_less)
  then show ?thesis by (simp add: high(1))
qed

lemma offset_nonzero: "ASAN_SHADOW_OFFSET l \<noteq> 0" using off by auto

lemma unat_to_shadow:
  "unat a \<le> high \<Longrightarrow> unat (MEM_TO_SHADOW (ASAN_SHADOW_OFFSET l) a) = unat a div 8 + off"
  using high high_bound off(1) div_le_mono [of "unat a" high 8]
  by (subst unat_MEM_TO_SHADOW) linarith+

lemma unat_LowMemEnd: "unat (kLowMemEnd l) = off - 1"
proof -
  have "1 \<le> ASAN_SHADOW_OFFSET l" using off by (simp add: word_le_nat_alt)
  then show ?thesis using offset_nonzero off by (simp add: kLowMemEnd_def unat_sub)
qed

lemma off_less_high: "off < high" using high by linarith

lemma unat_LowShadowEnd: "unat (kLowShadowEnd l) = (off - 1) div 8 + off"
  using unat_to_shadow [of "kLowMemEnd l"] unat_LowMemEnd off_less_high
  by (simp add: kLowShadowEnd_def)

lemma unat_HighShadowEnd: "unat (kHighShadowEnd l) = high div 8 + off"
  using unat_to_shadow [of "kHighMemEnd l"] high by (simp add: kHighShadowEnd_def)

lemma unat_HighMemBeg: "unat (kHighMemBeg l) = Suc (high div 8 + off)"
  using unat_HighShadowEnd high high_bound
  by (simp add: kHighMemBeg_def kHighShadowEnd_def unat_word_ariths)

lemma unat_HighShadowBeg: "unat (kHighShadowBeg l) = Suc (high div 8 + off) div 8 + off"
  using unat_to_shadow [of "kHighMemBeg l"] unat_HighMemBeg high by (simp add: kHighShadowBeg_def)

lemma unat_GapBeg: "unat (kShadowGapBeg l) = Suc ((off - 1) div 8 + off)"
proof -
  have "kLowShadowEnd l \<noteq> 0" using unat_LowShadowEnd off by (auto simp: unat_eq_0 [symmetric])
  moreover have "Suc ((off - 1) div 8 + off) < 2 ^ 64"
    using gap high high_bound off_less_high by linarith
  ultimately show ?thesis
    using unat_LowShadowEnd by (simp add: kShadowGapBeg_def unat_word_ariths)
qed

lemma unat_GapEnd: "unat (kShadowGapEnd l) = Suc (high div 8 + off) div 8 + off - 1"
proof -
  have "1 \<le> kHighShadowBeg l" using unat_HighShadowBeg off by (simp add: word_le_nat_alt)
  then show ?thesis using unat_HighShadowBeg no_mid by (simp add: kShadowGapEnd_def unat_sub)
qed

lemmas region_bounds =
  off(1) unat_LowMemEnd unat_LowShadowEnd unat_HighShadowEnd unat_HighMemBeg unat_HighShadowBeg
  unat_GapBeg unat_GapEnd high

lemma high_beg_nonzero: "kHighMemBeg l \<noteq> 0"
  using unat_HighMemBeg by (auto simp: unat_eq_0 [symmetric])

lemma in_regions:
  "AddrIsInLowMem l a \<longleftrightarrow> unat a < off"
  "AddrIsInLowShadow l a \<longleftrightarrow> off \<le> unat a \<and> unat a \<le> (off - 1) div 8 + off"
  "AddrIsInShadowGap l a \<longleftrightarrow>
     (off - 1) div 8 + off < unat a \<and> unat a < Suc (high div 8 + off) div 8 + off"
  "AddrIsInHighShadow l a \<longleftrightarrow>
     Suc (high div 8 + off) div 8 + off \<le> unat a \<and> unat a \<le> high div 8 + off"
  "AddrIsInHighMem l a \<longleftrightarrow> high div 8 + off < unat a \<and> unat a \<le> high"
  "\<not> AddrIsInMidMem l a" "\<not> AddrIsInMidShadow l a"
  using off_less_high offset_nonzero high_beg_nonzero no_mid off(2)
  by (auto simp add: asan_addr_defs word_le_nat_alt region_bounds kLowShadowBeg_def)

text \<open>Every address up to the top of memory is in exactly one of the five regions.\<close>

lemma partition:
  assumes "unat a \<le> high"
  shows "length (filter id [AddrIsInLowMem l a, AddrIsInLowShadow l a, AddrIsInShadowGap l a,
           AddrIsInHighShadow l a, AddrIsInHighMem l a]) = 1"
  using assms gap high off unfolding in_regions by auto

lemma mem_to_shadow_regions:
  "AddrIsInLowMem l a \<Longrightarrow> AddrIsInLowShadow l (MEM_TO_SHADOW (ASAN_SHADOW_OFFSET l) a)"
  "AddrIsInHighMem l a \<Longrightarrow> AddrIsInHighShadow l (MEM_TO_SHADOW (ASAN_SHADOW_OFFSET l) a)"
proof -
  show "AddrIsInLowShadow l (MEM_TO_SHADOW (ASAN_SHADOW_OFFSET l) a)" if "AddrIsInLowMem l a"
  proof -
    have a: "unat a \<le> off - 1" using that by (simp add: in_regions)
    then have "unat a \<le> high" using off_less_high by linarith
    then show ?thesis using div_le_mono [OF a, of 8] by (simp add: in_regions unat_to_shadow)
  qed
  show "AddrIsInHighShadow l (MEM_TO_SHADOW (ASAN_SHADOW_OFFSET l) a)" if "AddrIsInHighMem l a"
  proof -
    have a: "Suc (high div 8 + off) \<le> unat a" "unat a \<le> high"
      using that by (simp_all add: in_regions)
    then show ?thesis using div_le_mono [OF a(1), of 8] div_le_mono [OF a(2), of 8]
      by (simp add: in_regions unat_to_shadow)
  qed
qed

end

text \<open>
  \<open>ASAN_SHADOW_OFFSET_CONST\<close>: the preprocessor's choice over the target it is
  compiled for; \<open>None\<close> is \<open>ASAN_SHADOW_OFFSET_DYNAMIC\<close>.
\<close>

datatype target_os = Linux | Android | Fuchsia | FreeBSD | NetBSD | Windows | IOS | Apple
datatype target_cpu = X86 | Arm | Mips | RiscV | PowerPC | S390x | Sparc | LoongArch

definition ASAN_SHADOW_OFFSET_CONST :: "target_os \<Rightarrow> target_cpu \<Rightarrow> nat \<Rightarrow> uptr option" where
  "ASAN_SHADOW_OFFSET_CONST os cpu wordsize =
     (if os = Fuchsia then Some 0
      else if wordsize = 32 then
        if os = Android then None
        else if cpu = Mips then Some 0x0aaa0000
        else if os = FreeBSD then Some 0x40000000
        else if os = NetBSD then Some 0x40000000
        else if os = Windows then Some 0x30000000
        else if os = IOS then None
        else Some 0x20000000
      else
        if os = IOS then None
        else if os = Apple \<and> cpu = Arm then None
        else if os = FreeBSD \<and> cpu = Arm then Some 0x0000800000000000
        else if cpu = RiscV then None
        else if cpu = Arm then Some 0x0000001000000000
        else if cpu = PowerPC then Some 0x0000100000000000
        else if cpu = S390x then Some 0x0010000000000000
        else if os = FreeBSD then Some 0x0000400000000000
        else if os = NetBSD then Some 0x0000400000000000
        else if os = Apple then Some 0x0000100000000000
        else if cpu = Mips then Some 0x0000002000000000
        else if cpu = Sparc then Some 0x0000080000000000
        else if cpu = LoongArch then Some 0x0000400000000000
        else if os = Windows then None
        else Some 0x000000007fff8000)"

fun target_of :: "arch \<Rightarrow> target_cpu" where
  "target_of x86_64 = X86"
| "target_of aarch64 = Arm"

text \<open>
  The layout XSan runs with on Linux, \<open>high\<close> being \<open>kHighMemEnd\<close> as
  \<open>GetMaxUserVirtualAddress\<close> returns it for 47 and 48 bits of address space.
\<close>

definition asan_layout_of :: "arch \<Rightarrow> asan_layout" where
  "asan_layout_of p =
     \<lparr>ASAN_SHADOW_OFFSET = the (ASAN_SHADOW_OFFSET_CONST Linux (target_of p) 64),
      kHighMemEnd = (case p of x86_64 \<Rightarrow> 0x7fffffffffff | aarch64 \<Rightarrow> 0xffffffffffff),
      kMidMemBeg = 0, kMidMemEnd = 0, protect_shadow_gap = True\<rparr>"

lemma asan_offset_eq [mapping_simps]:
  "ASAN_SHADOW_OFFSET (asan_layout_of x86_64) = 0x7fff8000"
  "ASAN_SHADOW_OFFSET (asan_layout_of aarch64) = 0x1000000000"
  by (simp_all add: asan_layout_of_def ASAN_SHADOW_OFFSET_CONST_def)

interpretation asan_x64: asan_two_regions "asan_layout_of x86_64" "0x7fff8000" "0x7fffffffffff"
  by unfold_locales (simp_all add: asan_offset_eq, simp_all add: asan_layout_of_def)

interpretation asan_a64: asan_two_regions "asan_layout_of aarch64" "0x1000000000" "0xffffffffffff"
  by unfold_locales (simp_all add: asan_offset_eq, simp_all add: asan_layout_of_def)

section \<open>Coexistence of the three sanitizers\<close>

text \<open>
  The metadata the sanitizers keep for the byte at an application address: the
  first byte of it and its length.  TSan keeps four shadow cells and one meta
  cell for a granule of eight bytes.
\<close>

datatype meta_kind = AsanShadow | MsanShadow | MsanOrigin | TsanShadow | TsanMeta

fun meta_addr :: "arch \<Rightarrow> meta_kind \<Rightarrow> uptr \<Rightarrow> uptr" where
  "meta_addr p AsanShadow a = MEM_TO_SHADOW (kAsanShadowOffset (XsanMapping p)) a"
| "meta_addr p MsanShadow a = MSAN_MEM_TO_SHADOW (XsanMapping p) a"
| "meta_addr p MsanOrigin a = MSAN_MEM_TO_ORIGIN (XsanMapping p) a"
| "meta_addr p TsanShadow a = MemToShadow (XsanMapping p) a"
| "meta_addr p TsanMeta a = MemToMeta (XsanMapping p) a"

text \<open>
  The metadata of one byte of the program: all the shadow cells of its TSan granule, and for ASan and
  MSan the byte at the address computed for it.  MSan's origins are kept in cells of four bytes, of
  which this is the byte at the same offset; a granule of ASan shadow is one byte.
\<close>

fun meta_size :: "meta_kind \<Rightarrow> nat" where
  "meta_size TsanShadow = unat (kShadowCnt * kShadowSize)"
| "meta_size TsanMeta = unat kMetaShadowSize"
| "meta_size _ = 1"

text \<open>
  Memory the program may use under all three: the low range stops where ASan's
  low shadow begins.
\<close>

definition user_mem :: "arch \<Rightarrow> uptr \<Rightarrow> bool" where
  "user_mem p a \<longleftrightarrow> IsAppMem (XsanMapping p) a \<and>
     (a < kLoAppMemEnd (XsanMapping p) \<longrightarrow> a < kAsanLoAppMemEnd (XsanMapping p))"

definition app_range :: "arch \<Rightarrow> uptr \<Rightarrow> string" where
  "app_range p a = (let m = XsanMapping p in
     if a < kLoAppMemEnd m then ''LoApp''
     else if kMidAppMemBeg m \<le> a \<and> a < kMidAppMemEnd m then ''MidApp''
     else if kHiAppMemBeg m \<le> a \<and> a < kHiAppMemEnd m then ''HiApp''
     else ''Heap'')"

fun meta_desc :: "meta_kind \<Rightarrow> string \<Rightarrow> string" where
  "meta_desc AsanShadow rng =
     (if rng = ''LoApp'' then ''ASan Shadow (LoApp)'' else ''ASan Shadow (Rest)'')"
| "meta_desc MsanShadow rng = ''MSan Shadow ('' @ rng @ '')''"
| "meta_desc MsanOrigin rng = ''MSan Origin ('' @ rng @ '')''"
| "meta_desc TsanShadow rng = ''TSan Shadow ('' @ rng @ '')''"
| "meta_desc TsanMeta rng = ''TSan Meta ('' @ rng @ '')''"

definition region_named :: "arch \<Rightarrow> string \<Rightarrow> MemRegion option" where
  "region_named p d = find (\<lambda>r. desc r = d) (kRegions (XsanMapping p))"

definition in_region :: "MemRegion \<Rightarrow> nat \<Rightarrow> bool" where
  "in_region r n \<longleftrightarrow> unat (beg r) \<le> n \<and> n < unat (rend r)"

text \<open>Exchanging the page number of an address by xor with a multiple of 16 TB.\<close>

lemma xor_page_nat:
  fixes q r c :: nat
  assumes "r < 2 ^ n"
  shows "(q * 2 ^ n + r) XOR (c * 2 ^ n) = (q XOR c) * 2 ^ n + r"
proof -
  let ?x = "q * 2 ^ n + r" and ?y = "c * 2 ^ n"
  have "drop_bit n (?x XOR ?y) = q XOR c"
    using assms by (simp only: drop_bit_xor) (simp add: drop_bit_eq_div)
  moreover have "take_bit n (?x XOR ?y) = r"
    using assms by (simp only: take_bit_xor) (simp add: take_bit_eq_mod)
  ultimately show ?thesis
    using div_mult_mod_eq [of "?x XOR ?y" "2 ^ n"] by (simp add: drop_bit_eq_div take_bit_eq_mod)
qed

lemma unat_xor_page:
  fixes a x :: uptr
  assumes "unat a = q * 2 ^ 44 + r" and "r < 2 ^ 44" and "unat x = c * 2 ^ 44"
  shows "unat (a XOR x) = (q XOR c) * 2 ^ 44 + r"
  by (simp only: unsigned_xor_eq assms(1,3) xor_page_nat [OF assms(2)])

text \<open>
  Numeric value of each piece of metadata for an address with page number \<open>q\<close> and
  offset \<open>r\<close>, on each platform.
\<close>

lemma meta_values_x64:
  assumes app: "IsAppMem MappingX64_48 a"
    and a: "unat a = q * 2 ^ 44 + r" "r < 2 ^ 44" "q < 8"
  shows "unat (meta_addr x86_64 AsanShadow a) = (q * 2 ^ 44 + r) div 8 + 0x7fff8000"
    and "unat (meta_addr x86_64 MsanShadow a) = (q XOR 4) * 2 ^ 44 + r"
    and "unat (meta_addr x86_64 MsanOrigin a) =
         ((q XOR 4) * 2 ^ 44 + r + 0x2f0000000000) mod 2 ^ 64"
    and "unat (meta_addr x86_64 TsanShadow a) = 0x1a0000000000 + 2 * (r div 8 * 8)"
    and "unat (meta_addr x86_64 TsanMeta a) = 0x700000000000 + r div 8 * 4"
proof -
  have mod: "unat a mod 2 ^ 44 = r" using a by simp
  show "unat (meta_addr x86_64 AsanShadow a) = (q * 2 ^ 44 + r) div 8 + 0x7fff8000"
    using a by (simp add: unat_MEM_TO_SHADOW MappingX64_48_def)
  show sh: "unat (meta_addr x86_64 MsanShadow a) = (q XOR 4) * 2 ^ 44 + r"
    unfolding meta_addr.simps XsanMapping.simps MSAN_MEM_TO_SHADOW_def
    by (rule unat_xor_page [OF a(1,2)]) (simp add: MappingX64_48_def)
  show "unat (meta_addr x86_64 MsanOrigin a) = ((q XOR 4) * 2 ^ 44 + r + 0x2f0000000000) mod 2 ^ 64"
    using sh by (simp add: MSAN_MEM_TO_ORIGIN_def MSAN_SHADOW_TO_ORIGIN_def unat_word_ariths
      MappingX64_48_def)
  show "unat (meta_addr x86_64 TsanShadow a) = 0x1a0000000000 + 2 * (r div 8 * 8)"
    using x64.unat_MemToShadow [OF app] mod by (simp add: MappingX64_48_def)
  show "unat (meta_addr x86_64 TsanMeta a) = 0x700000000000 + r div 8 * 4"
    using x64.unat_MemToMeta [OF app] mod by (simp add: MappingX64_48_def)
qed

lemma meta_values_a64:
  assumes app: "IsAppMem MappingAarch64_48 a"
    and a: "unat a = q * 2 ^ 44 + r" "r < 2 ^ 44" "q < 16"
  shows "unat (meta_addr aarch64 AsanShadow a) = (q * 2 ^ 44 + r) div 8 + 0x1000000000"
    and "unat (meta_addr aarch64 MsanShadow a) = (q XOR 9) * 2 ^ 44 + r"
    and "unat (meta_addr aarch64 MsanOrigin a) =
         ((q XOR 9) * 2 ^ 44 + r + 0x2c0000000000) mod 2 ^ 64"
    and "unat (meta_addr aarch64 TsanShadow a) = 0xaf0000000000 + 2 * (r div 8 * 8)"
    and "unat (meta_addr aarch64 TsanMeta a) = 0xd00000000000 + r div 8 * 4"
proof -
  have mod: "unat a mod 2 ^ 44 = r" using a by simp
  show "unat (meta_addr aarch64 AsanShadow a) = (q * 2 ^ 44 + r) div 8 + 0x1000000000"
    using a by (simp add: unat_MEM_TO_SHADOW MappingAarch64_48_def)
  show sh: "unat (meta_addr aarch64 MsanShadow a) = (q XOR 9) * 2 ^ 44 + r"
    unfolding meta_addr.simps XsanMapping.simps MSAN_MEM_TO_SHADOW_def
    by (rule unat_xor_page [OF a(1,2)]) (simp add: MappingAarch64_48_def)
  show "unat (meta_addr aarch64 MsanOrigin a) = ((q XOR 9) * 2 ^ 44 + r + 0x2c0000000000) mod 2 ^ 64"
    using sh by (simp add: MSAN_MEM_TO_ORIGIN_def MSAN_SHADOW_TO_ORIGIN_def unat_word_ariths
      MappingAarch64_48_def)
  show "unat (meta_addr aarch64 TsanShadow a) = 0xaf0000000000 + 2 * (r div 8 * 8)"
    using a64.unat_MemToShadow [OF app] mod by (simp add: MappingAarch64_48_def)
  show "unat (meta_addr aarch64 TsanMeta a) = 0xd00000000000 + r div 8 * 4"
    using a64.unat_MemToMeta [OF app] mod by (simp add: MappingAarch64_48_def)
qed

text \<open>The regions the table names, looked up once.\<close>

lemma regions_x64:
  "region_named x86_64 ''ASan Shadow (LoApp)'' =
     Some (region 0x00007fff8000 0x00008fff7000 Shadow ''ASan Shadow (LoApp)'')"
  "region_named x86_64 ''ASan Shadow (Rest)'' =
     Some (region 0x02008fff7000 0x10007fff8000 Shadow ''ASan Shadow (Rest)'')"
  "region_named x86_64 ''MSan Shadow (LoApp)'' =
     Some (region 0x400000000000 0x410000000000 Shadow ''MSan Shadow (LoApp)'')"
  "region_named x86_64 ''MSan Shadow (MidApp)'' =
     Some (region 0x150000000000 0x1a0000000000 Shadow ''MSan Shadow (MidApp)'')"
  "region_named x86_64 ''MSan Shadow (HiApp)'' =
     Some (region 0x3a0000000000 0x400000000000 Shadow ''MSan Shadow (HiApp)'')"
  "region_named x86_64 ''MSan Shadow (Heap)'' =
     Some (region 0x220000000000 0x240000000000 Shadow ''MSan Shadow (Heap)'')"
  "region_named x86_64 ''MSan Origin (LoApp)'' =
     Some (region 0x6f0000000000 0x700000000000 Shadow ''MSan Origin (LoApp)'')"
  "region_named x86_64 ''MSan Origin (MidApp)'' =
     Some (region 0x440000000000 0x490000000000 Shadow ''MSan Origin (MidApp)'')"
  "region_named x86_64 ''MSan Origin (HiApp)'' =
     Some (region 0x690000000000 0x6f0000000000 Shadow ''MSan Origin (HiApp)'')"
  "region_named x86_64 ''MSan Origin (Heap)'' =
     Some (region 0x510000000000 0x530000000000 Shadow ''MSan Origin (Heap)'')"
  "region_named x86_64 ''TSan Shadow (LoApp)'' =
     Some (region 0x1a0000000000 0x1c0000000000 Shadow ''TSan Shadow (LoApp)'')"
  "region_named x86_64 ''TSan Shadow (MidApp)'' =
     Some (region 0x240000000000 0x2e0000000000 Shadow ''TSan Shadow (MidApp)'')"
  "region_named x86_64 ''TSan Shadow (HiApp)'' =
     Some (region 0x2e0000000000 0x3a0000000000 Shadow ''TSan Shadow (HiApp)'')"
  "region_named x86_64 ''TSan Shadow (Heap)'' =
     Some (region 0x1e0000000000 0x220000000000 Shadow ''TSan Shadow (Heap)'')"
  "region_named x86_64 ''TSan Meta (LoApp)'' =
     Some (region 0x700000000000 0x708000000000 Shadow ''TSan Meta (LoApp)'')"
  "region_named x86_64 ''TSan Meta (MidApp)'' =
     Some (region 0x728000000000 0x750000000000 Shadow ''TSan Meta (MidApp)'')"
  "region_named x86_64 ''TSan Meta (HiApp)'' =
     Some (region 0x750000000000 0x780000000000 Shadow ''TSan Meta (HiApp)'')"
  "region_named x86_64 ''TSan Meta (Heap)'' =
     Some (region 0x710000000000 0x720000000000 Shadow ''TSan Meta (Heap)'')"
  by (simp_all add: region_named_def MappingX64_48_def region_def)

lemma regions_a64:
  "region_named aarch64 ''ASan Shadow (LoApp)'' =
     Some (region 0x001000000000 0x001200000000 Shadow ''ASan Shadow (LoApp)'')"
  "region_named aarch64 ''ASan Shadow (Rest)'' =
     Some (region 0x041200000000 0x201000000000 Shadow ''ASan Shadow (Rest)'')"
  "region_named aarch64 ''MSan Shadow (LoApp)'' =
     Some (region 0x900000000000 0x910000000000 Shadow ''MSan Shadow (LoApp)'')"
  "region_named aarch64 ''MSan Shadow (MidApp)'' =
     Some (region 0x3aaa00000000 0x3c0000000000 Shadow ''MSan Shadow (MidApp)'')"
  "region_named aarch64 ''MSan Shadow (HiApp)'' =
     Some (region 0x6c0000000000 0x700000000000 Shadow ''MSan Shadow (HiApp)'')"
  "region_named aarch64 ''MSan Shadow (Heap)'' =
     Some (region 0x480000000000 0x4a0000000000 Shadow ''MSan Shadow (Heap)'')"
  "region_named aarch64 ''MSan Origin (LoApp)'' =
     Some (region 0xbc0000000000 0xbd0000000000 Shadow ''MSan Origin (LoApp)'')"
  "region_named aarch64 ''MSan Origin (MidApp)'' =
     Some (region 0x66aa00000000 0x680000000000 Shadow ''MSan Origin (MidApp)'')"
  "region_named aarch64 ''MSan Origin (HiApp)'' =
     Some (region 0x980000000000 0x9c0000000000 Shadow ''MSan Origin (HiApp)'')"
  "region_named aarch64 ''MSan Origin (Heap)'' =
     Some (region 0x740000000000 0x760000000000 Shadow ''MSan Origin (Heap)'')"
  "region_named aarch64 ''TSan Shadow (LoApp)'' =
     Some (region 0xaf0000000000 0xb10000000000 Shadow ''TSan Shadow (LoApp)'')"
  "region_named aarch64 ''TSan Shadow (MidApp)'' =
     Some (region 0xc45400000000 0xc70000000000 Shadow ''TSan Shadow (MidApp)'')"
  "region_named aarch64 ''TSan Shadow (HiApp)'' =
     Some (region 0xc70000000000 0xcf0000000000 Shadow ''TSan Shadow (HiApp)'')"
  "region_named aarch64 ''TSan Shadow (Heap)'' =
     Some (region 0xbf0000000000 0xc30000000000 Shadow ''TSan Shadow (Heap)'')"
  "region_named aarch64 ''TSan Meta (LoApp)'' =
     Some (region 0xd00000000000 0xd08000000000 Shadow ''TSan Meta (LoApp)'')"
  "region_named aarch64 ''TSan Meta (MidApp)'' =
     Some (region 0xd55500000000 0xd60000000000 Shadow ''TSan Meta (MidApp)'')"
  "region_named aarch64 ''TSan Meta (HiApp)'' =
     Some (region 0xd60000000000 0xd80000000000 Shadow ''TSan Meta (HiApp)'')"
  "region_named aarch64 ''TSan Meta (Heap)'' =
     Some (region 0xd40000000000 0xd50000000000 Shadow ''TSan Meta (Heap)'')"
  by (simp_all add: region_named_def MappingAarch64_48_def region_def)

definition meta_ok :: "arch \<Rightarrow> meta_kind \<Rightarrow> uptr \<Rightarrow> bool" where
  "meta_ok p k a \<longleftrightarrow>
     (case region_named p (meta_desc k (app_range p a)) of
        None \<Rightarrow> False
      | Some r \<Rightarrow> rtype r = Shadow \<and> in_region r (unat (meta_addr p k a)) \<and>
                  in_region r (unat (meta_addr p k a) + meta_size k - 1))"

lemma meta_okI:
  assumes "region_named p (meta_desc k (app_range p a)) = Some r" and "rtype r = Shadow"
    and "unat (beg r) \<le> unat (meta_addr p k a)"
    and "unat (meta_addr p k a) + meta_size k \<le> unat (rend r)" and "0 < meta_size k"
  shows "meta_ok p k a"
  using assms unfolding meta_ok_def in_region_def by simp linarith

lemma asan_descs:
  "meta_desc AsanShadow ''LoApp'' = ''ASan Shadow (LoApp)''"
  "meta_desc AsanShadow ''MidApp'' = ''ASan Shadow (Rest)''"
  "meta_desc AsanShadow ''HiApp'' = ''ASan Shadow (Rest)''"
  "meta_desc AsanShadow ''Heap'' = ''ASan Shadow (Rest)''"
  by simp_all

lemma meta_ok_x64:
  assumes "user_mem x86_64 a"
  shows "meta_ok x86_64 k a"
proof -
  from assms have app: "IsAppMem MappingX64_48 a" by (simp add: user_mem_def)
  note vals = meta_values_x64 [OF app]
  show ?thesis using app
  proof (cases rule: x64.app_cases)
    case lo
    with assms have lt: "unat a < 0x7fff7000"
      by (simp add: user_mem_def MappingX64_48_def word_less_nat_alt)
    with lo have rng: "app_range x86_64 a = ''LoApp''"
      by (simp add: app_range_def MappingX64_48_def word_less_nat_alt)
    have "unat a = 0 * 2 ^ 44 + unat a" "unat a < 2 ^ 44" "(0::nat) < 8" using lt by simp_all
    note v = vals [OF this, unfolded meta_addr.simps XsanMapping.simps]
    show ?thesis
      by (cases k; rule meta_okI; (simp only: rng asan_descs meta_desc.simps(2-5) append.simps regions_x64)?;
        (use lt in \<open>simp add: region_def v mapping_simps\<close>)?; (use lt in linarith)?)
  next
    case (mid r)
    then have rng: "app_range x86_64 a = ''MidApp''"
      by (simp add: app_range_def MappingX64_48_def word_less_nat_alt word_le_nat_alt Let_def)
    have "r < 2 ^ 44" "(5::nat) < 8" using mid by simp_all
    note v = vals [OF mid(1) this, unfolded meta_addr.simps XsanMapping.simps]
    show ?thesis
      by (cases k; rule meta_okI; (simp only: rng asan_descs meta_desc.simps(2-5) append.simps regions_x64)?;
        (use mid in \<open>simp add: region_def v mapping_simps\<close>)?; (use mid(2,3) in linarith)?)
  next
    case (hi r)
    then have rng: "app_range x86_64 a = ''HiApp''"
      by (simp add: app_range_def MappingX64_48_def word_less_nat_alt word_le_nat_alt Let_def)
    have "r < 2 ^ 44" "(7::nat) < 8" using hi by simp_all
    note v = vals [OF hi(1) this, unfolded meta_addr.simps XsanMapping.simps]
    show ?thesis
      by (cases k; rule meta_okI; (simp only: rng asan_descs meta_desc.simps(2-5) append.simps regions_x64)?;
        (use hi in \<open>simp add: region_def v mapping_simps\<close>)?; (use hi(2,3) in linarith)?)
  next
    case (heap r)
    then have rng: "app_range x86_64 a = ''Heap''"
      by (simp add: app_range_def MappingX64_48_def word_less_nat_alt word_le_nat_alt Let_def)
    have "r < 2 ^ 44" "(6::nat) < 8" using heap by simp_all
    note v = vals [OF heap(1) this, unfolded meta_addr.simps XsanMapping.simps]
    show ?thesis
      by (cases k; rule meta_okI; (simp only: rng asan_descs meta_desc.simps(2-5) append.simps regions_x64)?;
        (use heap in \<open>simp add: region_def v mapping_simps\<close>)?; (use heap(2,3) in linarith)?)
  qed
qed

lemma meta_ok_a64:
  assumes "user_mem aarch64 a"
  shows "meta_ok aarch64 k a"
proof -
  from assms have app: "IsAppMem MappingAarch64_48 a" by (simp add: user_mem_def)
  note vals = meta_values_a64 [OF app]
  show ?thesis using app
  proof (cases rule: a64.app_cases)
    case lo
    with assms have lt: "unat a < 0xffffff000"
      by (simp add: user_mem_def MappingAarch64_48_def word_less_nat_alt)
    with lo have rng: "app_range aarch64 a = ''LoApp''"
      by (simp add: app_range_def MappingAarch64_48_def word_less_nat_alt)
    have "unat a = 0 * 2 ^ 44 + unat a" "unat a < 2 ^ 44" "(0::nat) < 16" using lt by simp_all
    note v = vals [OF this, unfolded meta_addr.simps XsanMapping.simps]
    show ?thesis
      by (cases k; rule meta_okI; (simp only: rng asan_descs meta_desc.simps(2-5) append.simps regions_a64)?;
        (use lt in \<open>simp add: region_def v mapping_simps\<close>)?; (use lt in linarith)?)
  next
    case (mid r)
    then have rng: "app_range aarch64 a = ''MidApp''"
      by (simp add: app_range_def MappingAarch64_48_def word_less_nat_alt word_le_nat_alt Let_def)
    have "r < 2 ^ 44" "(10::nat) < 16" using mid by simp_all
    note v = vals [OF mid(1) this, unfolded meta_addr.simps XsanMapping.simps]
    show ?thesis
      by (cases k; rule meta_okI; (simp only: rng asan_descs meta_desc.simps(2-5) append.simps regions_a64)?;
        (use mid in \<open>simp add: region_def v mapping_simps\<close>)?; (use mid(2,3) in linarith)?)
  next
    case (hi r)
    then have rng: "app_range aarch64 a = ''HiApp''"
      by (simp add: app_range_def MappingAarch64_48_def word_less_nat_alt word_le_nat_alt Let_def)
    have "r < 2 ^ 44" "(15::nat) < 16" using hi by simp_all
    note v = vals [OF hi(1) this, unfolded meta_addr.simps XsanMapping.simps]
    show ?thesis
      by (cases k; rule meta_okI; (simp only: rng asan_descs meta_desc.simps(2-5) append.simps regions_a64)?;
        (use hi in \<open>simp add: region_def v mapping_simps\<close>)?; (use hi(2,3) in linarith)?)
  next
    case (heap r)
    then have rng: "app_range aarch64 a = ''Heap''"
      by (simp add: app_range_def MappingAarch64_48_def word_less_nat_alt word_le_nat_alt Let_def)
    have "r < 2 ^ 44" "(13::nat) < 16" using heap by simp_all
    note v = vals [OF heap(1) this, unfolded meta_addr.simps XsanMapping.simps]
    show ?thesis
      by (cases k; rule meta_okI; (simp only: rng asan_descs meta_desc.simps(2-5) append.simps regions_a64)?;
        (use heap in \<open>simp add: region_def v mapping_simps\<close>)?; (use heap(2,3) in linarith)?)
  qed
qed

text \<open>
  The shadow regions are pairwise disjoint and disjoint from application memory
  (the full low range apart, which the row \<open>LoApp (for ASan)\<close> replaces).
\<close>

fun pairwise :: "('a \<Rightarrow> 'a \<Rightarrow> bool) \<Rightarrow> 'a list \<Rightarrow> bool" where
  "pairwise P [] = True"
| "pairwise P (x # xs) = (list_all (P x) xs \<and> pairwise P xs)"

definition regions_apart :: "MemRegion \<Rightarrow> MemRegion \<Rightarrow> bool" where
  "regions_apart r s \<longleftrightarrow> rend r \<le> beg s \<or> rend s \<le> beg r"

definition coexisting_regions :: "arch \<Rightarrow> MemRegion list" where
  "coexisting_regions p = filter (\<lambda>r. desc r \<noteq> ''LoApp'') (kRegions (XsanMapping p))"

lemma regions_disjoint_x64: "pairwise regions_apart (coexisting_regions x86_64)"
  by code_simp

lemma regions_disjoint_a64: "pairwise regions_apart (coexisting_regions aarch64)"
  by code_simp

lemma regions_disjoint: "pairwise regions_apart (coexisting_regions p)"
  by (cases p) (simp_all only: regions_disjoint_x64 regions_disjoint_a64)

lemma pairwise_member:
  assumes "pairwise P xs" and sym: "\<And>x y. P x y \<Longrightarrow> P y x"
  shows "x \<in> set xs \<Longrightarrow> y \<in> set xs \<Longrightarrow> x = y \<or> P x y"
  using assms(1) by (induction xs) (auto simp: list_all_iff intro: sym)

lemma regions_apartD:
  assumes "r \<in> set (coexisting_regions p)" "s \<in> set (coexisting_regions p)"
    and "in_region r n" "in_region s n"
  shows "r = s"
proof (rule ccontr)
  assume "r \<noteq> s"
  moreover have "r = s \<or> regions_apart r s"
    by (rule pairwise_member [OF regions_disjoint _ assms(1,2)]) (auto simp: regions_apart_def)
  ultimately show False
    using assms(3,4) by (auto simp: regions_apart_def in_region_def word_le_nat_alt)
qed

lemma region_namedD:
  assumes "region_named p d = Some r"
  shows "r \<in> set (kRegions (XsanMapping p))" "desc r = d"
  using assms by (auto simp: region_named_def find_Some_iff)

lemma meta_ok_region:
  assumes "meta_ok p k a" "n < meta_size k"
  obtains r where "r \<in> set (coexisting_regions p)" "desc r = meta_desc k (app_range p a)"
    "rtype r = Shadow" "in_region r (unat (meta_addr p k a) + n)"
proof -
  from assms(1) obtain r where r: "region_named p (meta_desc k (app_range p a)) = Some r"
    "rtype r = Shadow" "in_region r (unat (meta_addr p k a))"
    "in_region r (unat (meta_addr p k a) + meta_size k - 1)"
    by (auto simp: meta_ok_def split: option.splits)
  have "meta_desc k (app_range p a) \<noteq> ''LoApp''" by (cases k) auto
  with r(1) have "r \<in> set (coexisting_regions p)" "desc r = meta_desc k (app_range p a)"
    by (auto simp: coexisting_regions_def dest: region_namedD)
  moreover have "in_region r (unat (meta_addr p k a) + n)"
    using r(3,4) assms(2) unfolding in_region_def by linarith
  ultimately show ?thesis using that r(2) by blast
qed

lemma meta_desc_inj:
  "meta_desc k rng = meta_desc k' rng' \<Longrightarrow> k = k'"
  by (cases k; cases k') (auto split: if_splits)

lemma meta_ok_all: "user_mem p a \<Longrightarrow> meta_ok p k a"
  by (cases p) (auto intro: meta_ok_x64 meta_ok_a64)

lemma meta_kinds_apart:
  assumes "user_mem p a" "user_mem p b" "n < meta_size k" "n' < meta_size k'"
    and eq: "unat (meta_addr p k a) + n = unat (meta_addr p k' b) + n'"
  shows "k = k'"
proof -
  obtain r where r: "r \<in> set (coexisting_regions p)" "desc r = meta_desc k (app_range p a)"
    "in_region r (unat (meta_addr p k a) + n)"
    using meta_ok_all [OF assms(1)] assms(3) by (rule meta_ok_region)
  obtain s where s: "s \<in> set (coexisting_regions p)" "desc s = meta_desc k' (app_range p b)"
    "in_region s (unat (meta_addr p k' b) + n')"
    using meta_ok_all [OF assms(2)] assms(4) by (rule meta_ok_region)
  have "r = s" using regions_apartD [OF r(1) s(1) r(3)] s(3) eq by simp
  with r(2) s(2) have "meta_desc k (app_range p a) = meta_desc k' (app_range p b)" by simp
  then show ?thesis by (rule meta_desc_inj)
qed

text \<open>The application ranges themselves are rows of the table.\<close>

lemma user_mem_row:
  assumes "user_mem p a"
  obtains r where "r \<in> set (coexisting_regions p)" "rtype r = App" "in_region r (unat a)"
proof -
  have "\<exists>r \<in> set (coexisting_regions p). rtype r = App \<and> in_region r (unat a)"
    using assms
    by (cases p) (auto simp: user_mem_def IsAppMem_def coexisting_regions_def MappingX64_48_def
        MappingAarch64_48_def region_def in_region_def word_less_nat_alt word_le_nat_alt)
  then show ?thesis using that by blast
qed

lemma meta_not_user:
  assumes "user_mem p a" "n < meta_size k" "user_mem p b"
  shows "unat (meta_addr p k a) + n \<noteq> unat b"
proof
  assume eq: "unat (meta_addr p k a) + n = unat b"
  obtain r where r: "r \<in> set (coexisting_regions p)" "rtype r = Shadow"
    "in_region r (unat (meta_addr p k a) + n)"
    using meta_ok_all [OF assms(1)] assms(2) by (rule meta_ok_region)
  obtain s where s: "s \<in> set (coexisting_regions p)" "rtype s = App" "in_region s (unat b)"
    using assms(3) by (rule user_mem_row)
  have "r = s" using regions_apartD [OF r(1) s(1) r(3)] s(3) eq by simp
  with r(2) s(2) show False by simp
qed

section \<open>Granules\<close>

text \<open>How many application bytes share one piece of metadata.\<close>

fun granule :: "meta_kind \<Rightarrow> uptr \<Rightarrow> nat" where
  "granule AsanShadow a = unat a div 8"
| "granule MsanShadow a = unat a"
| "granule MsanOrigin a = unat a"
| "granule TsanShadow a = unat a div 8"
| "granule TsanMeta a = unat a div 8"

lemma granule_from_cell:
  fixes a b :: uptr
  assumes "a AND NOT 7 = b AND NOT 7"
  shows "unat a div 8 = unat b div 8"
proof -
  have "unat (a AND NOT (mask 3)) = unat (b AND NOT (mask 3))"
    using assms by (simp add: mask_eq_exp_minus_1)
  then show ?thesis by (simp add: unat_and_not_mask)
qed

lemma user_mem_bound: "user_mem p a \<Longrightarrow> unat a < 2 ^ 48"
  by (cases p) (auto simp: user_mem_def dest: x64.app_bound a64.app_bound)

lemma asan_cell_value:
  "user_mem p a \<Longrightarrow> unat (meta_addr p AsanShadow a) = unat a div 8 + unat (kAsanShadowOffset (XsanMapping p))"
  using user_mem_bound [of p a]
  by (cases p) (simp_all add: unat_MEM_TO_SHADOW MappingX64_48_def MappingAarch64_48_def)

lemma block_unique: "x * s + n = y * s + m \<Longrightarrow> n < s \<Longrightarrow> m < s \<Longrightarrow> x = (y::nat)"
  by (metis add.commute div_mult_self3 div_less add_0 mult.commute less_nat_zero_code)

lemma tsan_cell_value:
  assumes "user_mem p a"
  shows "\<exists>c. unat (meta_addr p TsanShadow a) = c * 16" "\<exists>c. unat (meta_addr p TsanMeta a) = c * 4"
proof -
  have x: "\<exists>c. 0x1a0000000000 + 2 * (v * 8) = c * 16" "\<exists>c. 0xaf0000000000 + 2 * (v * 8) = c * 16"
    "\<exists>c. 0x700000000000 + v * 4 = c * 4" "\<exists>c. 0xd00000000000 + v * 4 = c * 4" for v :: nat
    by presburger+
  show "\<exists>c. unat (meta_addr p TsanShadow a) = c * 16"
    using assms x by (cases p) (simp_all add: user_mem_def x64.unat_MemToShadow a64.unat_MemToShadow
      MappingX64_48_def [THEN arg_cong, of kTsanShadowAdd] MappingAarch64_48_def [THEN arg_cong, of kTsanShadowAdd])
  show "\<exists>c. unat (meta_addr p TsanMeta a) = c * 4"
    using assms x by (cases p) (simp_all add: user_mem_def x64.unat_MemToMeta a64.unat_MemToMeta
      MappingX64_48_def [THEN arg_cong, of kTsanMetaShadowBeg] MappingAarch64_48_def [THEN arg_cong, of kTsanMetaShadowBeg])
qed

lemma tsan_same_granule:
  assumes "user_mem p a" "user_mem p b"
  shows "meta_addr p TsanShadow a = meta_addr p TsanShadow b \<Longrightarrow> unat a div 8 = unat b div 8"
    and "meta_addr p TsanMeta a = meta_addr p TsanMeta b \<Longrightarrow> unat a div 8 = unat b div 8"
  using assms by (cases p; auto simp: user_mem_def intro!: granule_from_cell
      intro: x64.MemToShadow_inj a64.MemToShadow_inj x64.MemToMeta_inj a64.MemToMeta_inj)+

lemma meta_same_granule:
  assumes u: "user_mem p a" "user_mem p b" and n: "n < meta_size k" "n' < meta_size k"
    and eq: "unat (meta_addr p k a) + n = unat (meta_addr p k b) + n'"
  shows "granule k a = granule k b"
proof (cases k)
  case AsanShadow
  then show ?thesis using eq n asan_cell_value [OF u(1)] asan_cell_value [OF u(2)] by simp
next
  case MsanShadow
  then have "meta_addr p MsanShadow a = meta_addr p MsanShadow b" using eq n by (simp add: word_unat_eq_iff)
  then show ?thesis using MsanShadow by (simp add: MSAN_MEM_TO_SHADOW_def)
next
  case MsanOrigin
  then have "meta_addr p MsanOrigin a = meta_addr p MsanOrigin b" using eq n by (simp add: word_unat_eq_iff)
  then show ?thesis using MsanOrigin
    by (simp add: MSAN_MEM_TO_ORIGIN_def MSAN_SHADOW_TO_ORIGIN_def MSAN_MEM_TO_SHADOW_def)
next
  case TsanShadow
  obtain c where c: "unat (meta_addr p k a) = c * 16" using tsan_cell_value(1) [OF u(1)] TsanShadow by blast
  obtain d where d: "unat (meta_addr p k b) = d * 16" using tsan_cell_value(1) [OF u(2)] TsanShadow by blast
  have "c = d" using eq n TsanShadow block_unique [of c 16 n d n'] unfolding c d by (simp add: mapping_simps)
  then have "meta_addr p k a = meta_addr p k b" using c d by (simp add: word_unat_eq_iff)
  then show ?thesis using TsanShadow tsan_same_granule(1) [OF u] by simp
next
  case TsanMeta
  obtain c where c: "unat (meta_addr p k a) = c * 4" using tsan_cell_value(2) [OF u(1)] TsanMeta by blast
  obtain d where d: "unat (meta_addr p k b) = d * 4" using tsan_cell_value(2) [OF u(2)] TsanMeta by blast
  have "c = d" using eq n TsanMeta block_unique [of c 4 n d n'] unfolding c d by (simp add: mapping_simps)
  then have "meta_addr p k a = meta_addr p k b" using c d by (simp add: word_unat_eq_iff)
  then show ?thesis using TsanMeta tsan_same_granule(2) [OF u] by simp
qed

section \<open>Properties\<close>

text \<open>C26: Two bytes of metadata that the three sanitizers keep for user memory
  coincide only when they are the same kind of metadata for the same granule of
  application memory: ASan shadow, MSan shadow and origin, TSan shadow and meta
  cells of one process never collide, on either platform.\<close>
theorem metadata_never_collides:
  assumes "user_mem p a" "user_mem p b" "n < meta_size k" "n' < meta_size k'"
    and "unat (meta_addr p k a) + n = unat (meta_addr p k' b) + n'"
  shows "k = k' \<and> granule k a = granule k b"
proof -
  have "k = k'" using assms by (rule meta_kinds_apart)
  then show ?thesis using meta_same_granule [of p a b n k n'] assms by simp
qed

lemma metadata_never_collides_witness:
  "TsanShadow = TsanShadow \<and> granule TsanShadow (0x550000001234 :: uptr) = granule TsanShadow 0x550000001230"
proof (rule metadata_never_collides [where p = x86_64 and n = 3 and n' = 3])
  show "user_mem x86_64 0x550000001234" "user_mem x86_64 0x550000001230" by code_simp+
  show "3 < meta_size TsanShadow" "3 < meta_size TsanShadow" by (simp_all add: mapping_simps)
  have "meta_addr x86_64 TsanShadow 0x550000001234 = meta_addr x86_64 TsanShadow 0x550000001230"
    by code_simp
  then show "unat (meta_addr x86_64 TsanShadow 0x550000001234) + 3 =
        unat (meta_addr x86_64 TsanShadow 0x550000001230) + 3" by simp
qed

text \<open>Every byte of metadata for user memory lies in the row of the generated
  table kRegions that is named after the sanitizer and the application range,
  and that row is a shadow region.\<close>
theorem metadata_in_named_region:
  assumes "user_mem p a" "n < meta_size k"
  shows "\<exists>r. region_named p (meta_desc k (app_range p a)) = Some r \<and> rtype r = Shadow \<and>
             in_region r (unat (meta_addr p k a) + n)"
proof -
  from meta_ok_all [OF assms(1), of k] obtain r
    where "region_named p (meta_desc k (app_range p a)) = Some r" "rtype r = Shadow"
      "in_region r (unat (meta_addr p k a))" "in_region r (unat (meta_addr p k a) + meta_size k - 1)"
    by (auto simp: meta_ok_def split: option.splits)
  with assms(2) show ?thesis unfolding in_region_def by (intro exI [of _ r]) linarith
qed

lemma metadata_in_named_region_witness:
  "\<exists>r. region_named aarch64 (meta_desc MsanOrigin (app_range aarch64 0xd80000000010)) = Some r \<and>
       rtype r = Shadow \<and> in_region r (unat (meta_addr aarch64 MsanOrigin 0xd80000000010) + 0)"
  by (rule metadata_in_named_region) code_simp+

text \<open>No byte of metadata is user memory.\<close>
theorem metadata_not_user_memory:
  assumes "user_mem p a" "n < meta_size k"
  shows "\<not> user_mem p (word_of_nat (unat (meta_addr p k a) + n))"
proof
  let ?b = "word_of_nat (unat (meta_addr p k a) + n) :: uptr"
  assume b: "user_mem p ?b"
  obtain r where "in_region r (unat (meta_addr p k a) + n)"
    using meta_ok_all [OF assms(1)] assms(2) by (rule meta_ok_region)
  then have "unat (meta_addr p k a) + n < 2 ^ LENGTH(64)"
    unfolding in_region_def using unsigned_less [of "rend r", where 'a = nat] by linarith
  then have "unat ?b = unat (meta_addr p k a) + n"
    by (simp only: unat_of_nat) (simp only: mod_less)
  with meta_not_user [OF assms b] show False by simp
qed

lemma metadata_not_user_memory_witness:
  "\<not> user_mem x86_64 (word_of_nat (unat (meta_addr x86_64 TsanMeta 0x620000000000) + 3))"
  by (rule metadata_not_user_memory) code_simp+

text \<open>ASan's five regions partition the address space up to the top of user memory
  on both platforms, and MEM_TO_SHADOW takes low memory into the low shadow and
  high memory into the high shadow, from where SHADOW_TO_MEM returns the first
  byte of the granule.\<close>
theorem asan_layout_partition:
  assumes "a \<le> kHighMemEnd (asan_layout_of p)"
  shows "length (filter id
           [AddrIsInLowMem (asan_layout_of p) a, AddrIsInLowShadow (asan_layout_of p) a,
            AddrIsInShadowGap (asan_layout_of p) a, AddrIsInHighShadow (asan_layout_of p) a,
            AddrIsInHighMem (asan_layout_of p) a]) = 1 \<and>
         (let s = MEM_TO_SHADOW (ASAN_SHADOW_OFFSET (asan_layout_of p)) a in
           (AddrIsInLowMem (asan_layout_of p) a \<longrightarrow> AddrIsInLowShadow (asan_layout_of p) s) \<and>
           (AddrIsInHighMem (asan_layout_of p) a \<longrightarrow> AddrIsInHighShadow (asan_layout_of p) s) \<and>
           SHADOW_TO_MEM (ASAN_SHADOW_OFFSET (asan_layout_of p)) s = a AND NOT 7)"
proof (cases p)
  case x86_64
  have "unat a \<le> 0x7fffffffffff"
    using assms x86_64 by (simp add: asan_layout_of_def word_le_nat_alt)
  from asan_x64.partition [OF this] show ?thesis
    unfolding x86_64 Let_def SHADOW_TO_MEM_MEM_TO_SHADOW
    using asan_x64.mem_to_shadow_regions by blast
next
  case aarch64
  have "unat a \<le> 0xffffffffffff"
    using assms aarch64 by (simp add: asan_layout_of_def word_le_nat_alt)
  from asan_a64.partition [OF this] show ?thesis
    unfolding aarch64 Let_def SHADOW_TO_MEM_MEM_TO_SHADOW
    using asan_a64.mem_to_shadow_regions by blast
qed

lemma asan_layout_partition_witness:
  "length (filter id
           [AddrIsInLowMem (asan_layout_of x86_64) 0x602000000010, AddrIsInLowShadow (asan_layout_of x86_64) 0x602000000010,
            AddrIsInShadowGap (asan_layout_of x86_64) 0x602000000010, AddrIsInHighShadow (asan_layout_of x86_64) 0x602000000010,
            AddrIsInHighMem (asan_layout_of x86_64) 0x602000000010]) = 1"
  using asan_layout_partition [where a = "0x602000000010" and p = x86_64] by (simp add: asan_layout_of_def del: filter.simps)

text \<open>The shadow offset the generated table assumes for ASan is the one ASan's own
  preprocessor chooses for the platform.\<close>
theorem asan_offset_agrees:
  "ASAN_SHADOW_OFFSET_CONST Linux (target_of p) 64 = Some (kAsanShadowOffset (XsanMapping p))"
  by (cases p) (simp_all add: ASAN_SHADOW_OFFSET_CONST_def MappingX64_48_def MappingAarch64_48_def)

end
