(* ===== verification/Heap_Sort.thy ===== *)
theory Heap_Sort
  imports XPrelude "HOL-Library.Multiset"
begin

text \<open>
  \<open>Sort\<close> of \<open>runtime/lib/sanitizer_common/sanitizer_common.h\<close>, a heap sort in place, which the
  start-up of the runtime uses to order memory ranges.  The array is a list, an index a
  \<open>nat\<close> (the child indices do not overflow for an array that fits in memory).
\<close>

section \<open>The algorithm\<close>

definition swap :: "nat \<Rightarrow> nat \<Rightarrow> 'a list \<Rightarrow> 'a list" where
  "swap i j v = v[i := v ! j, j := v ! i]"

function sift_up :: "('a \<Rightarrow> 'a \<Rightarrow> bool) \<Rightarrow> nat \<Rightarrow> 'a list \<Rightarrow> 'a list" where
  "sift_up lt j v =
     (if j > 0 then
        let p = (j - 1) div 2
        in if lt (v ! p) (v ! j) then sift_up lt p (swap j p v) else v
      else v)"
  by auto
termination by (relation "measure (\<lambda>(lt, j, v). j)") auto

definition build_heap :: "('a \<Rightarrow> 'a \<Rightarrow> bool) \<Rightarrow> nat \<Rightarrow> 'a list \<Rightarrow> 'a list" where
  "build_heap lt n v = fold (sift_up lt) [1..<n] v"

definition max_index :: "('a \<Rightarrow> 'a \<Rightarrow> bool) \<Rightarrow> nat \<Rightarrow> nat \<Rightarrow> 'a list \<Rightarrow> nat" where
  "max_index lt i j v =
     (let left = 2 * j + 1; right = 2 * j + 2; max_ind = j;
          max_ind = (if left < i \<and> lt (v ! max_ind) (v ! left) then left else max_ind)
      in if right < i \<and> lt (v ! max_ind) (v ! right) then right else max_ind)"

function sink :: "('a \<Rightarrow> 'a \<Rightarrow> bool) \<Rightarrow> nat \<Rightarrow> nat \<Rightarrow> 'a list \<Rightarrow> 'a list" where
  "sink lt i j v =
     (if j < i then
        let max_ind = max_index lt i j v
        in if max_ind \<noteq> j then sink lt i max_ind (swap j max_ind v) else v
      else v)"
  by auto
termination by (relation "measure (\<lambda>(lt, i, j, v). i - j)") (auto simp: max_index_def Let_def split: if_splits)

fun sort_down :: "('a \<Rightarrow> 'a \<Rightarrow> bool) \<Rightarrow> nat \<Rightarrow> 'a list \<Rightarrow> 'a list" where
  "sort_down lt 0 v = v"
| "sort_down lt (Suc i) v = sort_down lt i (sink lt (Suc i) 0 (swap 0 (Suc i) v))"

definition Sort :: "('a \<Rightarrow> 'a \<Rightarrow> bool) \<Rightarrow> nat \<Rightarrow> 'a list \<Rightarrow> 'a list" where
  "Sort lt n v = (if n < 2 then v else sort_down lt (n - 1) (build_heap lt n v))"

declare sift_up.simps [simp del] sink.simps [simp del]

section \<open>Exchanges\<close>

abbreviation parent :: "nat \<Rightarrow> nat" where
  "parent k \<equiv> (k - 1) div 2"

lemma parent_less: "0 < k \<Longrightarrow> parent k < k"
  by simp

lemma parent_child: "0 < k \<Longrightarrow> parent k = j \<longleftrightarrow> k = 2 * j + 1 \<or> k = 2 * j + 2"
  by auto

lemma length_swap [simp]: "length (swap i j v) = length v"
  by (simp add: swap_def)

lemma nth_swap:
  "i < length v \<Longrightarrow> j < length v \<Longrightarrow> swap i j v ! k = (if k = j then v ! i else if k = i then v ! j else v ! k)"
  by (auto simp: swap_def nth_list_update)

lemma mset_swap_eq: "i < length v \<Longrightarrow> j < length v \<Longrightarrow> mset (swap i j v) = mset v"
  unfolding swap_def by (rule mset_swap)

lemma max_index_bounds: "j < i \<Longrightarrow> j \<le> max_index lt i j v \<and> max_index lt i j v < i"
  by (auto simp: max_index_def Let_def)

lemma sift_up_frame:
  "j < n \<Longrightarrow> n \<le> length v \<Longrightarrow>
   length (sift_up lt j v) = length v \<and> mset (sift_up lt j v) = mset v \<and>
   (\<forall>k \<ge> n. sift_up lt j v ! k = v ! k)"
proof (induction lt j v rule: sift_up.induct)
  case (1 lt j v)
  show ?case
  proof (cases "0 < j \<and> lt (v ! parent j) (v ! j)")
    case True
    then have "sift_up lt j v = sift_up lt (parent j) (swap j (parent j) v)"
      by (simp add: sift_up.simps [of lt j] Let_def)
    moreover have "parent j < n" "j < length v" "parent j < length v" using True 1(2,3) parent_less [of j] by simp_all
    ultimately show ?thesis using 1(1) True 1(2,3) by (auto simp: mset_swap_eq nth_swap)
  next
    case False
    then have "sift_up lt j v = v" by (auto simp add: sift_up.simps [of lt j] Let_def)
    then show ?thesis by simp
  qed
qed

lemma sink_frame:
  "i \<le> length v \<Longrightarrow>
   length (sink lt i j v) = length v \<and> mset (sink lt i j v) = mset v \<and>
   (\<forall>k \<ge> i. sink lt i j v ! k = v ! k)"
proof (induction lt i j v rule: sink.induct)
  case (1 lt i j v)
  define m where "m = max_index lt i j v"
  show ?case
  proof (cases "j < i \<and> m \<noteq> j")
    case True
    then have "sink lt i j v = sink lt i m (swap j m v)"
      by (simp add: sink.simps [of lt i j] Let_def m_def)
    moreover have "m < i" using True max_index_bounds [of j i lt v] by (simp add: m_def)
    ultimately show ?thesis using 1(1) [of m] True 1(2) by (auto simp: mset_swap_eq nth_swap m_def)
  next
    case False
    then have "sink lt i j v = v" by (auto simp add: sink.simps [of lt i j] Let_def m_def)
    then show ?thesis by simp
  qed
qed

section \<open>Orders\<close>

text \<open>What a comparison has to promise: it is a strict weak order.\<close>

locale comparison =
  fixes lt :: "'a \<Rightarrow> 'a \<Rightarrow> bool"
  assumes asym: "lt a b \<Longrightarrow> \<not> lt b a"
    and negatively_transitive: "\<not> lt b a \<Longrightarrow> \<not> lt c b \<Longrightarrow> \<not> lt c a"
begin

definition le :: "'a \<Rightarrow> 'a \<Rightarrow> bool" where
  "le a b \<longleftrightarrow> \<not> lt b a"

lemma le_refl [simp]: "le a a"
  using asym [of a a] by (auto simp: le_def)

lemma le_trans: "le a b \<Longrightarrow> le b c \<Longrightarrow> le a c"
  unfolding le_def by (rule negatively_transitive)

lemma lt_le: "lt a b \<Longrightarrow> le a b"
  by (simp add: le_def asym)

definition heap :: "nat \<Rightarrow> 'a list \<Rightarrow> bool" where
  "heap n v \<longleftrightarrow> (\<forall>k<n. 0 < k \<longrightarrow> le (v ! k) (v ! parent k))"

text \<open>A heap but for the edge above, or the edges below, the position \<open>j\<close>.\<close>

definition heap_above :: "nat \<Rightarrow> nat \<Rightarrow> 'a list \<Rightarrow> bool" where
  "heap_above j n v \<longleftrightarrow>
     (\<forall>k<n. 0 < k \<longrightarrow> k \<noteq> j \<longrightarrow> le (v ! k) (v ! parent k)) \<and>
     (\<forall>k<n. 0 < k \<longrightarrow> 0 < j \<longrightarrow> parent k = j \<longrightarrow> le (v ! k) (v ! parent j))"

definition heap_below :: "nat \<Rightarrow> nat \<Rightarrow> 'a list \<Rightarrow> bool" where
  "heap_below j n v \<longleftrightarrow>
     (\<forall>k<n. 0 < k \<longrightarrow> parent k \<noteq> j \<longrightarrow> le (v ! k) (v ! parent k)) \<and>
     (\<forall>k<n. 0 < k \<longrightarrow> 0 < j \<longrightarrow> parent k = j \<longrightarrow> le (v ! k) (v ! parent j))"

lemma heap_above_step:
  assumes "heap_above j n v" "n \<le> length v" "j < n" "0 < j" "lt (v ! parent j) (v ! j)"
  shows "heap_above (parent j) n (swap j (parent j) v)"
proof -
  define p where "p = parent j"
  have p: "p < j" "p < length v" "j < length v" using assms(2-4) by (auto simp: p_def)
  note sw = nth_swap [OF p(3,2)]
  have edge: "le (v ! k) (v ! parent k)" if "k < n" "0 < k" "k \<noteq> j" for k
    using assms(1) that by (auto simp: heap_above_def)
  have skip: "le (v ! k) (v ! p)" if "k < n" "0 < k" "parent k = j" for k
    using assms(1,4) that by (auto simp: heap_above_def p_def)
  have pj: "le (v ! p) (v ! j)" using assms(5) lt_le by (simp add: p_def)
  have "le (swap j p v ! k) (swap j p v ! parent k)" if k: "k < n" "0 < k" "k \<noteq> p" for k
  proof -
    consider "k = j" | "k \<noteq> j" "parent k = j" | "k \<noteq> j" "parent k = p" | "k \<noteq> j" "parent k \<noteq> j" "parent k \<noteq> p" by blast
    then show ?thesis
    proof cases
      case 1
      then have "parent k = p" by (simp add: p_def)
      then show ?thesis unfolding sw using 1 pj p(1) by auto
    next
      case 2
      then show ?thesis unfolding sw using skip k p(1) by auto
    next
      case 3
      then have "le (v ! k) (v ! p)" using edge k by metis
      then have "le (v ! k) (v ! j)" using pj le_trans by blast
      then show ?thesis unfolding sw using 3 k by auto
    next
      case 4
      then show ?thesis unfolding sw using edge k by auto
    qed
  qed
  moreover have "le (swap j p v ! k) (swap j p v ! parent p)" if k: "k < n" "0 < k" "0 < p" "parent k = p" for k
  proof -
    have up: "le (v ! p) (v ! parent p)" using edge [of p] k(3) p(1) assms(3) by simp
    have "swap j p v ! parent p = v ! parent p" unfolding sw using k(3) p(1) by auto
    moreover have "le (swap j p v ! k) (v ! p)" unfolding sw using edge [of k] k p by auto
    ultimately show ?thesis using up le_trans by simp
  qed
  ultimately show ?thesis unfolding heap_above_def p_def by blast
qed

lemma sift_up_heap:
  "heap_above j n v \<Longrightarrow> n \<le> length v \<Longrightarrow> j < n \<Longrightarrow> heap n (sift_up lt j v)"
proof (induction j arbitrary: v rule: less_induct)
  case (less j)
  show ?case
  proof (cases "0 < j \<and> lt (v ! parent j) (v ! j)")
    case True
    then have "sift_up lt j v = sift_up lt (parent j) (swap j (parent j) v)"
      by (simp add: sift_up.simps [of lt j] Let_def)
    moreover have "parent j < j" using True parent_less by blast
    ultimately show ?thesis
      using less.IH [of "parent j" "swap j (parent j) v"] heap_above_step less.prems True by simp
  next
    case False
    then have "sift_up lt j v = v" by (auto simp add: sift_up.simps [of lt j] Let_def)
    moreover have "0 < j \<Longrightarrow> le (v ! j) (v ! parent j)" using False by (simp add: le_def)
    then have "heap n v" using less.prems(1) unfolding heap_def heap_above_def by metis
    ultimately show ?thesis by simp
  qed
qed

lemma build_heap_correct:
  assumes "n \<le> length v"
  shows "heap n (build_heap lt n v)" "mset (build_heap lt n v) = mset v"
    "length (build_heap lt n v) = length v" "\<And>k. n \<le> k \<Longrightarrow> build_heap lt n v ! k = v ! k"
proof -
  have "heap m (fold (sift_up lt) [1..<m] v) \<and> mset (fold (sift_up lt) [1..<m] v) = mset v \<and>
    length (fold (sift_up lt) [1..<m] v) = length v \<and> (\<forall>k \<ge> n. fold (sift_up lt) [1..<m] v ! k = v ! k)"
    if "m \<le> n" for m
    using that
  proof (induction m)
    case (Suc m)
    define w where "w = fold (sift_up lt) [1..<m] v"
    have w: "heap m w" "mset w = mset v" "length w = length v" "\<forall>k \<ge> n. w ! k = v ! k"
      using Suc by (simp_all add: w_def)
    show ?case
    proof (cases m)
      case 0
      then show ?thesis by (simp add: heap_def)
    next
      case (Suc m')
      then have step: "fold (sift_up lt) [1..<Suc m] v = sift_up lt m w" by (simp add: w_def)
      have "m < n" using Suc.prems by simp
      have "heap_above m (Suc m) w"
        using w(1) Suc parent_less unfolding heap_above_def heap_def
        by (metis less_Suc_eq not_less_iff_gr_or_eq)
      then have "heap (Suc m) (sift_up lt m w)"
        by (rule sift_up_heap) (use w(3) assms \<open>m < n\<close> in simp_all)
      then show ?thesis
        unfolding step using sift_up_frame [of m n w lt] w(2-4) assms \<open>m < n\<close> by auto
    qed
  qed (simp add: heap_def)
  from this [of n] show "heap n (build_heap lt n v)" "mset (build_heap lt n v) = mset v"
    "length (build_heap lt n v) = length v" "\<And>k. n \<le> k \<Longrightarrow> build_heap lt n v ! k = v ! k"
    by (simp_all add: build_heap_def)
qed

lemma max_index_child:
  assumes "0 < k" "k < i" "parent k = j"
  shows "le (v ! k) (v ! max_index lt i j v)"
proof -
  have k: "k = 2 * j + 1 \<or> k = 2 * j + 2" using assms(1,3) parent_child by blast
  define a where "a = (if 2 * j + 1 < i \<and> lt (v ! j) (v ! (2 * j + 1)) then 2 * j + 1 else j)"
  define b where "b = (if 2 * j + 2 < i \<and> lt (v ! a) (v ! (2 * j + 2)) then 2 * j + 2 else a)"
  have m: "max_index lt i j v = b" by (simp add: max_index_def Let_def a_def b_def)
  have ab: "le (v ! a) (v ! b)" by (simp add: b_def lt_le)
  show ?thesis
    using k
  proof
    assume "k = 2 * j + 1"
    then have "le (v ! k) (v ! a)" using assms(2) le_refl [unfolded le_def] by (auto simp: a_def le_def)
    then show ?thesis unfolding m using ab le_trans by blast
  next
    assume "k = 2 * j + 2"
    then show ?thesis unfolding m using assms(2) le_refl [unfolded le_def] by (auto simp: b_def le_def)
  qed
qed

lemma max_index_root: "le (v ! j) (v ! max_index lt i j v)"
proof -
  define a where "a = (if 2 * j + 1 < i \<and> lt (v ! j) (v ! (2 * j + 1)) then 2 * j + 1 else j)"
  have "max_index lt i j v = (if 2 * j + 2 < i \<and> lt (v ! a) (v ! (2 * j + 2)) then 2 * j + 2 else a)"
    by (simp add: max_index_def Let_def a_def)
  moreover have "le (v ! j) (v ! a)" by (simp add: a_def lt_le)
  ultimately show ?thesis using lt_le le_trans by auto
qed

lemma max_index_parent: "max_index lt i j v \<noteq> j \<Longrightarrow> parent (max_index lt i j v) = j"
  by (auto simp: max_index_def Let_def split: if_splits)

lemma heap_below_step:
  assumes "heap_below j i v" "i \<le> length v" "j < i" "m = max_index lt i j v" "m \<noteq> j"
  shows "heap_below m i (swap j m v)"
proof -
  have m: "j < m" "m < i" "parent m = j"
    using max_index_bounds [OF assms(3), of lt v] assms(4,5) max_index_parent by auto
  note sw = nth_swap [of j v m, OF less_le_trans [OF assms(3,2)] less_le_trans [OF m(2) assms(2)]]
  have edge: "le (v ! k) (v ! parent k)" if "k < i" "0 < k" "parent k \<noteq> j" for k
    using assms(1) that by (auto simp: heap_below_def)
  have skip: "le (v ! k) (v ! parent j)" if "k < i" "0 < k" "0 < j" "parent k = j" for k
    using assms(1) that by (auto simp: heap_below_def)
  have child: "le (v ! k) (v ! m)" if "k < i" "0 < k" "parent k = j" for k
    using max_index_child that assms(4) by blast
  have top: "le (v ! j) (v ! m)" using max_index_root assms(4) by blast
  have "le (swap j m v ! k) (swap j m v ! parent k)" if k: "k < i" "0 < k" "parent k \<noteq> m" for k
  proof -
    have "parent k < k" using k(2) by (rule parent_less)
    consider "k = m" | "k \<noteq> m" "parent k = j" | "k = j" | "k \<noteq> m" "k \<noteq> j" "parent k \<noteq> j" by blast
    then show ?thesis
    proof cases
      case 1
      then show ?thesis unfolding sw using top m by auto
    next
      case 2
      then show ?thesis unfolding sw using child k \<open>parent k < k\<close> by auto
    next
      case 3
      then have "swap j m v ! parent k = v ! parent j" unfolding sw using \<open>parent k < k\<close> k(3) by auto
      moreover have "swap j m v ! k = v ! m" unfolding sw using 3 m by auto
      ultimately show ?thesis using skip [of m] m k(2) 3 by simp
    next
      case 4
      then show ?thesis unfolding sw using edge k by auto
    qed
  qed
  moreover have "le (swap j m v ! k) (swap j m v ! parent m)" if k: "k < i" "0 < k" "parent k = m" for k
  proof -
    have "m < k" using parent_less k by blast
    then have "swap j m v ! k = v ! k" "swap j m v ! parent m = v ! m" unfolding sw using m by auto
    then show ?thesis using edge [of k] k m by auto
  qed
  ultimately show ?thesis unfolding heap_below_def by blast
qed

lemma sink_heap: "heap_below j i v \<Longrightarrow> i \<le> length v \<Longrightarrow> j < i \<Longrightarrow> heap i (sink lt i j v)"
proof (induction "i - j" arbitrary: j v rule: less_induct)
  case less
  define m where "m = max_index lt i j v"
  have m: "j \<le> m" "m < i" using max_index_bounds [OF less.prems(3), of lt v] by (simp_all add: m_def)
  show ?case
  proof (cases "m = j")
    case True
    have "le (v ! k) (v ! parent k)" if "k < i" "0 < k" for k
      using less.prems(1) that max_index_child [of k i j v] True
      unfolding heap_below_def m_def by (cases "parent k = j") auto
    then have "heap i v" by (simp add: heap_def)
    moreover have "sink lt i j v = v" using True by (simp add: sink.simps [of lt i j] Let_def m_def)
    ultimately show ?thesis by simp
  next
    case False
    then have "sink lt i j v = sink lt i m (swap j m v)"
      using less.prems(3) by (simp add: sink.simps [of lt i j] Let_def m_def)
    moreover have "heap i (sink lt i m (swap j m v))"
      using less.hyps [of m "swap j m v"] heap_below_step [OF less.prems m_def False] m False less.prems(2) by simp
    ultimately show ?thesis by simp
  qed
qed

lemma heap_max: "heap n v \<Longrightarrow> k < n \<Longrightarrow> le (v ! k) (v ! 0)"
proof (induction k rule: less_induct)
  case (less k)
  show ?case
  proof (cases "k = 0")
    case False
    then have "parent k < k" by (intro parent_less) simp
    then have "le (v ! parent k) (v ! 0)" using less by simp
    then show ?thesis using less.prems False le_trans unfolding heap_def by blast
  qed simp
qed

text \<open>The part from \<open>i\<close> on is sorted and above the rest.\<close>

definition suffix_sorted :: "nat \<Rightarrow> nat \<Rightarrow> 'a list \<Rightarrow> bool" where
  "suffix_sorted i n v \<longleftrightarrow> (\<forall>l. i \<le> l \<longrightarrow> l < n \<longrightarrow> (\<forall>k<l. le (v ! k) (v ! l)))"

lemma prefix_set:
  assumes "mset w = mset v" "\<forall>k \<ge> i. w ! k = v ! k" "i \<le> length v"
  shows "set (take i w) = set (take i v)"
proof -
  have l: "length w = length v" using assms(1) by (rule mset_eq_length)
  have "drop i w = drop i v" by (rule nth_equalityI) (use assms(2) l in simp_all)
  moreover have "mset (take i w) + mset (drop i w) = mset (take i v) + mset (drop i v)"
    using assms(1) by (simp flip: mset_append)
  ultimately have "mset (take i w) = mset (take i v)" by simp
  then show ?thesis by (rule mset_eq_setD)
qed

lemma extract_max:
  assumes "heap (Suc (Suc i)) v" "Suc (Suc i) \<le> n" "n \<le> length v" "suffix_sorted (Suc (Suc i)) n v"
    and w: "w = sink lt (Suc i) 0 (swap 0 (Suc i) v)"
  shows "heap (Suc i) w" "suffix_sorted (Suc i) n w" "mset w = mset v" "length w = length v"
    "\<forall>k \<ge> n. w ! k = v ! k"
proof -
  let ?s = "swap 0 (Suc i) v"
  have in_range: "0 < length v" "Suc i < length v" using assms(2,3) by linarith+
  note sw = nth_swap [OF in_range]
  have "heap_below 0 (Suc i) ?s"
    unfolding heap_below_def sw
  proof (intro conjI allI impI)
    fix k assume k: "k < Suc i" "0 < k" "parent k \<noteq> 0"
    then have "parent k < Suc i" using parent_less [of k] by simp
    then show "le (if k = Suc i then v ! 0 else if k = 0 then v ! Suc i else v ! k)
        (if parent k = Suc i then v ! 0 else if parent k = 0 then v ! Suc i else v ! parent k)"
      using assms(1) k unfolding heap_def by auto
  qed simp
  then show "heap (Suc i) w" unfolding w by (rule sink_heap) (use in_range in simp_all)
  have frame: "length w = length v" "mset w = mset ?s" "\<forall>k \<ge> Suc i. w ! k = ?s ! k"
    unfolding w using sink_frame [of "Suc i" ?s lt 0] in_range by simp_all
  show "length w = length v" by (rule frame(1))
  show same: "mset w = mset v" using frame(2) mset_swap_eq [OF in_range] by simp
  show "\<forall>k \<ge> n. w ! k = v ! k" using frame(3) assms(2) sw by auto
  have above: "w ! l = (if l = Suc i then v ! 0 else v ! l)" if "Suc i \<le> l" for l
    using frame(3) that sw by auto
  have "mset w = mset ?s" "\<forall>k \<ge> Suc i. w ! k = ?s ! k" "Suc i \<le> length ?s" using frame in_range by simp_all
  from prefix_set [OF this] have "set (take (Suc i) w) = set (take (Suc i) ?s)" .
  moreover have "set (take (Suc i) ?s) \<subseteq> set (take (Suc (Suc i)) v)"
  proof
    fix x assume "x \<in> set (take (Suc i) ?s)"
    then obtain k where "k < Suc i" "x = ?s ! k" using in_range by (auto simp: in_set_conv_nth)
    then have "x = v ! (if k = 0 then Suc i else k)" "(if k = 0 then Suc i else k) < Suc (Suc i)"
      unfolding sw by auto
    then show "x \<in> set (take (Suc (Suc i)) v)"
      using in_range by (auto simp: in_set_conv_nth simp del: take_Suc_Cons intro!: exI [of _ "if k = 0 then Suc i else k"])
  qed
  moreover have "\<exists>k' < Suc (Suc i). w ! k = v ! k'" if "k < Suc i" for k
  proof -
    have "w ! k \<in> set (take (Suc i) w)" using that in_range frame(1) by (auto simp: in_set_conv_nth)
    then have "w ! k \<in> set (take (Suc (Suc i)) v)" using calculation by blast
    then show ?thesis by (auto simp: in_set_conv_nth)
  qed
  note origin = this
  show "suffix_sorted (Suc i) n w"
    unfolding suffix_sorted_def
  proof (intro allI impI)
    fix l k assume l: "Suc i \<le> l" "l < n" "k < l"
    show "le (w ! k) (w ! l)"
    proof (cases "l = Suc i")
      case True
      then obtain k' where "k' < Suc (Suc i)" "w ! k = v ! k'" using origin l(3) by blast
      then show ?thesis using heap_max [OF assms(1)] above [of l] True by simp
    next
      case False
      then have l': "Suc (Suc i) \<le> l" "w ! l = v ! l" using l(1) above by simp_all
      obtain k' where "k' < l" "w ! k = v ! k'"
      proof (cases "k < Suc i")
        case True
        then show thesis using origin that l' by (meson less_le_trans)
      next
        case False
        then show thesis using above [of k] that l(3) l' by (cases "k = Suc i") auto
      qed
      then show ?thesis using assms(4) l' l(2) unfolding suffix_sorted_def by simp
    qed
  qed
qed

lemma sort_down_correct:
  "heap (Suc i) v \<Longrightarrow> Suc i \<le> n \<Longrightarrow> n \<le> length v \<Longrightarrow> suffix_sorted (Suc i) n v \<Longrightarrow>
   suffix_sorted 1 n (sort_down lt i v) \<and> mset (sort_down lt i v) = mset v \<and>
   (\<forall>k \<ge> n. sort_down lt i v ! k = v ! k)"
proof (induction i arbitrary: v)
  case (Suc i)
  note e = extract_max [OF Suc.prems refl]
  from Suc.IH [OF e(1) _ _ e(2)] Suc.prems e(3-5) show ?case by simp
qed simp

text \<open>The result is a permutation, sorted, and nothing behind the array is touched.\<close>

lemma Sort_correct:
  assumes "n \<le> length v"
  shows "mset (Sort lt n v) = mset v" "sorted_wrt le (take n (Sort lt n v))" "drop n (Sort lt n v) = drop n v"
proof -
  let ?w = "Sort lt n v"
  have "suffix_sorted 1 n ?w \<and> mset ?w = mset v \<and> (\<forall>k \<ge> n. ?w ! k = v ! k)"
  proof (cases "n < 2")
    case True
    then show ?thesis by (simp add: Sort_def suffix_sorted_def)
  next
    case False
    then have n: "Suc (n - 1) = n" by simp
    note b = build_heap_correct [OF assms]
    have "suffix_sorted n n (build_heap lt n v)" by (simp add: suffix_sorted_def)
    then show ?thesis
      using sort_down_correct [of "n - 1" "build_heap lt n v" n] n b assms False by (simp add: Sort_def)
  qed
  then have w: "suffix_sorted 1 n ?w" "mset ?w = mset v" "\<forall>k \<ge> n. ?w ! k = v ! k" by simp_all
  show "mset ?w = mset v" by (rule w(2))
  have l: "length ?w = length v" using w(2) by (rule mset_eq_length)
  show "drop n ?w = drop n v" by (rule nth_equalityI) (use w(3) l in simp_all)
  show "sorted_wrt le (take n ?w)"
    using w(1) l assms unfolding sorted_wrt_iff_nth_less suffix_sorted_def by auto
qed

end

end
