(* ===== verification/Layout_Check.thy ===== *)
theory Layout_Check
  imports Shadow_Layout Heap_Sort
begin

unbundle bit_operations_syntax

text \<open>
  The start-up of the runtime (\<open>runtime/lib/xsan/xsan_linux.cpp\<close>): \<open>CheckAndProtect\<close>
  compares the mappings of the process with the table of the platform and makes the gaps
  between the ranges the sanitizers need inaccessible; \<open>ReExecIfNeeded\<close> restarts the
  program with other limits or without address space randomisation when that may help.  The
  operating system is the record \<open>host\<close>, what \<open>execve\<close> carries over or chooses anew is the
  record \<open>process\<close>.
\<close>

section \<open>Results\<close>

text \<open>\<open>Die\<close> ends the process; \<open>None\<close> is a call that does not return.\<close>

datatype startup_error = Die

type_synonym 'a startup = "(startup_error + 'a) option"

definition ret :: "'a \<Rightarrow> 'a startup" where
  "ret x = Some (Inr x)"

definition fail :: "'a startup" where
  "fail = Some (Inl Die)"

definition bind_startup :: "'a startup \<Rightarrow> ('a \<Rightarrow> 'b startup) \<Rightarrow> 'b startup" where
  "bind_startup m f = (case m of None \<Rightarrow> None | Some (Inl e) \<Rightarrow> Some (Inl e) | Some (Inr x) \<Rightarrow> f x)"

section \<open>The ranges the sanitizers need\<close>

record NamedRange =
  range_beg :: uptr
  range_end :: uptr
  range_name :: string

record xsan_host =
  platform :: arch
  contains_asan :: bool
  contains_msan :: bool
  contains_tsan :: bool
  GetMmapGranularity :: uptr
  AdditionalSize :: uptr
  MmapFixedNoAccess :: "uptr \<Rightarrow> uptr \<Rightarrow> uptr"
  setrlimit_works :: bool
  personality_works :: bool

abbreviation table :: "'a xsan_host_scheme \<Rightarrow> mapping48" where
  "table H \<equiv> XsanMapping (platform H)"

definition named_range :: "uptr \<Rightarrow> uptr \<Rightarrow> string \<Rightarrow> NamedRange" where
  "named_range b e n = \<lparr>range_beg = b, range_end = e, range_name = n\<rparr>"

definition HeapEnd :: "'a xsan_host_scheme \<Rightarrow> uptr" where
  "HeapEnd H = kHeapMemEnd (table H) + AdditionalSize H"

definition asan_NeededMapRanges :: "'a xsan_host_scheme \<Rightarrow> NamedRange list" where
  "asan_NeededMapRanges H =
     (let shadow_begin = kAsanShadowOffset (table H) - GetMmapGranularity H;
          shadow_end = drop_bit (kAsanShadowScale (table H)) (kHiAppMemEnd (table H)) + kAsanShadowOffset (table H)
      in [named_range shadow_begin shadow_end ''asan shadow''])"

definition msan_NeededMapRanges :: "'a xsan_host_scheme \<Rightarrow> NamedRange list" where
  "msan_NeededMapRanges H =
     (let m = table H; shadow = MSAN_MEM_TO_SHADOW m; origin = MSAN_MEM_TO_ORIGIN m
      in [named_range (msan_map_beg shadow (kLoAppMemBeg m)) (msan_map_end shadow (kLoAppMemEnd m)) ''msan shadow low'',
          named_range (msan_map_beg shadow (kMidAppMemBeg m)) (msan_map_end shadow (kMidAppMemEnd m)) ''msan shadow mid'',
          named_range (msan_map_beg shadow (kHiAppMemBeg m)) (msan_map_end shadow (kHiAppMemEnd m)) ''msan shadow high'',
          named_range (msan_map_beg shadow (kHeapMemBeg m)) (msan_map_end shadow (kHeapMemEnd m)) ''msan shadow heap'',
          named_range (msan_map_beg origin (kLoAppMemBeg m)) (msan_map_end origin (kLoAppMemEnd m)) ''msan origin low'',
          named_range (msan_map_beg origin (kMidAppMemBeg m)) (msan_map_end origin (kMidAppMemEnd m)) ''msan origin mid'',
          named_range (msan_map_beg origin (kHiAppMemBeg m)) (msan_map_end origin (kHiAppMemEnd m)) ''msan origin high'',
          named_range (msan_map_beg origin (kHeapMemBeg m)) (msan_map_end origin (kHeapMemEnd m)) ''msan origin heap''])"

text \<open>The pointers into the shadow are of a four-byte type, so adding \<open>n\<close> moves by \<open>4 n\<close> bytes.\<close>

definition APP2SHADOW :: "mapping48 \<Rightarrow> uptr \<Rightarrow> uptr \<Rightarrow> string \<Rightarrow> NamedRange" where
  "APP2SHADOW m b e app =
     named_range (MemToShadow m b) (MemToShadow m (e - 1) + kShadowCnt * kShadowSize) (''TSan Shadow ('' @ app @ '')'')"

definition APP2META :: "mapping48 \<Rightarrow> uptr \<Rightarrow> uptr \<Rightarrow> string \<Rightarrow> NamedRange" where
  "APP2META m b e app =
     named_range (MemToMeta m b) (MemToMeta m (e - 1) + kMetaShadowSize) (''TSan Meta ('' @ app @ '')'')"

definition tsan_NeededMapRanges :: "'a xsan_host_scheme \<Rightarrow> NamedRange list" where
  "tsan_NeededMapRanges H =
     (let m = table H
      in [APP2SHADOW m (kLoAppMemBeg m) (kLoAppMemEnd m) ''LoApp'',
          APP2SHADOW m (kMidAppMemBeg m) (kMidAppMemEnd m) ''MidApp'',
          APP2SHADOW m (kHiAppMemBeg m) (kHiAppMemEnd m) ''HiApp'',
          APP2SHADOW m (kHeapMemBeg m) (kHeapMemEnd m) ''Heap'',
          APP2META m (kLoAppMemBeg m) (kLoAppMemEnd m) ''LoApp'',
          APP2META m (kMidAppMemBeg m) (kMidAppMemEnd m) ''MidApp'',
          APP2META m (kHiAppMemBeg m) (kHiAppMemEnd m) ''HiApp'',
          APP2META m (kHeapMemBeg m) (kHeapMemEnd m) ''Heap''])"

text \<open>\<open>SmallVector<NamedRange, 1024>\<close>: elements beyond its capacity are dropped.\<close>

definition small_vector_capacity :: nat where
  "small_vector_capacity = 1024 div 24"

definition push_back :: "NamedRange list \<Rightarrow> NamedRange \<Rightarrow> NamedRange list" where
  "push_back v x = (if length v < small_vector_capacity then v @ [x] else v)"

definition ReduceExtend :: "NamedRange list \<Rightarrow> NamedRange list \<Rightarrow> NamedRange list" where
  "ReduceExtend res a = foldl push_back res a"

definition NeededMapRanges :: "'a xsan_host_scheme \<Rightarrow> NamedRange list \<Rightarrow> NamedRange list" where
  "NeededMapRanges H res =
     (let res = (if contains_asan H then ReduceExtend res (asan_NeededMapRanges H) else res);
          res = (if contains_msan H then ReduceExtend res (msan_NeededMapRanges H) else res)
      in if contains_tsan H then ReduceExtend res (tsan_NeededMapRanges H) else res)"

definition map_ranges :: "'a xsan_host_scheme \<Rightarrow> NamedRange list" where
  "map_ranges H =
     (let m = table H;
          v = push_back [] (if contains_asan H
                then named_range (kLoAppMemBeg m) (kAsanLoAppMemEnd m) ''low app memory (for ASan)''
                else named_range (kLoAppMemBeg m) (kLoAppMemEnd m) ''low app memory'');
          v = push_back v (named_range (kMidAppMemBeg m) (kMidAppMemEnd m) ''mid app memory'');
          v = push_back v (named_range (kHeapMemBeg m) (kHeapMemEnd m) ''heap memory'');
          v = push_back v (named_range (kHiAppMemBeg m) (kHiAppMemEnd m) ''high app memory'')
      in NeededMapRanges H v)"

section \<open>Protecting the gaps\<close>

definition ZeroBaseShadowStart :: uptr where "ZeroBaseShadowStart = 0"
definition ZeroBaseMaxShadowStart :: uptr where "ZeroBaseMaxShadowStart = push_bit 18 1"

text \<open>A protected range is given by its address and size.\<close>

partial_function (option) protect_steps ::
  "'a xsan_host_scheme \<Rightarrow> uptr \<Rightarrow> uptr \<Rightarrow> (uptr \<times> uptr) list startup" where
  [code]: "protect_steps H addr sz =
     (if GetMmapGranularity H < sz \<and> addr < ZeroBaseMaxShadowStart then
        let addr = addr + GetMmapGranularity H; sz = sz - GetMmapGranularity H
        in if MmapFixedNoAccess H addr sz = addr then Some (Inr [(addr, sz)])
           else protect_steps H addr sz
      else Some (Inl Die))"

definition ProtectGap :: "'a xsan_host_scheme \<Rightarrow> uptr \<Rightarrow> uptr \<Rightarrow> (uptr \<times> uptr) list startup" where
  "ProtectGap H addr sz =
     (if sz = 0 then ret []
      else if MmapFixedNoAccess H addr sz = addr then ret [(addr, sz)]
      else if addr = ZeroBaseShadowStart then protect_steps H addr sz else fail)"

definition ProtectRange :: "'a xsan_host_scheme \<Rightarrow> uptr \<Rightarrow> uptr \<Rightarrow> (uptr \<times> uptr) list startup" where
  "ProtectRange H b e = (if b = e then ret [] else ProtectGap H b (e - b))"

fun protect_gaps :: "'a xsan_host_scheme \<Rightarrow> uptr \<Rightarrow> NamedRange list \<Rightarrow> (uptr \<times> uptr) list startup" where
  "protect_gaps H last_end [] = ret []"
| "protect_gaps H last_end (cur # rest) =
     (if range_beg cur < last_end then fail
      else bind_startup (ProtectRange H last_end (range_beg cur)) (\<lambda>g.
           bind_startup (protect_gaps H (range_end cur) rest) (\<lambda>gs. ret (g @ gs))))"

section \<open>Checking the mappings\<close>

record MemoryMappedSegment =
  start :: uptr
  send :: uptr
  protection :: uptr

fun check_segments :: "'a xsan_host_scheme \<Rightarrow> bool \<Rightarrow> MemoryMappedSegment list \<Rightarrow> bool" where
  "check_segments H ignore_heap [] = True"
| "check_segments H ignore_heap (seg # segs) =
     (if kHeapMemEnd (table H) \<le> start seg \<and> send seg \<le> HeapEnd H then
        (if ignore_heap then check_segments H ignore_heap segs else False)
      else if IsAppMem (table H) (start seg) then check_segments H ignore_heap segs
      else if kHeapMemEnd (table H) \<le> start seg \<and> start seg < HeapEnd H then check_segments H ignore_heap segs
      else if protection seg = 0 then check_segments H ignore_heap segs
      else if kVdsoBeg (table H) \<le> start seg then True
      else False)"

definition range_before :: "NamedRange \<Rightarrow> NamedRange \<Rightarrow> bool" where
  "range_before lh rh \<longleftrightarrow> range_beg lh < range_beg rh"

text \<open>The answer, and the ranges made inaccessible.\<close>

definition CheckAndProtect ::
  "'a xsan_host_scheme \<Rightarrow> bool \<Rightarrow> bool \<Rightarrow> MemoryMappedSegment list \<Rightarrow> (bool \<times> (uptr \<times> uptr) list) startup" where
  "CheckAndProtect H protect ignore_heap segs =
     (if \<not> check_segments H ignore_heap segs then ret (False, [])
      else if \<not> protect then ret (True, [])
      else let v = map_ranges H
           in bind_startup (protect_gaps H 0 (Sort range_before (length v) v)) (\<lambda>gs. ret (True, gs)))"

section \<open>Restarting the program\<close>

text \<open>
  The state \<open>execve\<close> keeps (limits and personality, \<open>None\<close> when the call is forbidden), and
  what the new image finds: the mappings before and after the interceptors were set up.
\<close>

record process =
  StackSizeIsUnlimited :: bool
  AddressSpaceIsUnlimited :: bool
  personality :: "u32 option"
  frame_address :: uptr
  early_segments :: "MemoryMappedSegment list"
  late_segments :: "MemoryMappedSegment list"

datatype startup_result = Continue "(uptr \<times> uptr) list" | ReExec process

definition ADDR_NO_RANDOMIZE :: u32 where "ADDR_NO_RANDOMIZE = 0x0040000"

definition aslr_on :: "process \<Rightarrow> bool" where
  "aslr_on p \<longleftrightarrow> (case personality p of None \<Rightarrow> False | Some old \<Rightarrow> old AND ADDR_NO_RANDOMIZE = 0)"

definition disable_aslr :: "process \<Rightarrow> process" where
  "disable_aslr p = p\<lparr>personality := map_option (\<lambda>old. old OR ADDR_NO_RANDOMIZE) (personality p)\<rparr>"

definition set_limits :: "process \<Rightarrow> process" where
  "set_limits p = p\<lparr>StackSizeIsUnlimited := False, AddressSpaceIsUnlimited := True\<rparr>"

definition ReExecIfNeeded ::
  "'a xsan_host_scheme \<Rightarrow> bool \<Rightarrow> MemoryMappedSegment list \<Rightarrow> process \<Rightarrow> startup_result startup" where
  "ReExecIfNeeded H ignore_heap segs p =
     (if StackSizeIsUnlimited p \<or> \<not> AddressSpaceIsUnlimited p
      then (if setrlimit_works H then ret (ReExec (set_limits p)) else fail)
      else bind_startup (CheckAndProtect H False ignore_heap segs) (\<lambda>(ok, _).
        if ok then ret (Continue [])
        else if aslr_on p then (if personality_works H then ret (ReExec (disable_aslr p)) else fail)
        else fail))"

definition MostSignificantSetBitIndex :: "uptr \<Rightarrow> nat startup" where
  "MostSignificantSetBitIndex x = (if x = 0 then fail else ret (last (filter (bit x) [0..<64])))"

definition supported_vma :: "arch \<Rightarrow> nat \<Rightarrow> bool" where
  "supported_vma p vmaSize \<longleftrightarrow> (case p of x86_64 \<Rightarrow> True | aarch64 \<Rightarrow> vmaSize \<in> {39, 42, 48})"

definition InitializePlatformEarly :: "'a xsan_host_scheme \<Rightarrow> process \<Rightarrow> startup_result startup" where
  "InitializePlatformEarly H p =
     bind_startup (MostSignificantSetBitIndex (frame_address p)) (\<lambda>i.
       let vmaSize = i + 1
       in if supported_vma (platform H) vmaSize then ReExecIfNeeded H False (early_segments p) p else fail)"

definition InitializePlatform :: "'a xsan_host_scheme \<Rightarrow> bool \<Rightarrow> process \<Rightarrow> startup_result startup" where
  "InitializePlatform H is_heap_init p =
     bind_startup (ReExecIfNeeded H (\<not> is_heap_init) (late_segments p) p) (\<lambda>r.
       case r of ReExec p \<Rightarrow> ret (ReExec p)
       | Continue _ \<Rightarrow>
           bind_startup (CheckAndProtect H True (\<not> is_heap_init) (late_segments p)) (\<lambda>(ok, gaps).
             if ok then ret (Continue gaps) else fail))"

text \<open>The two calls in \<open>XsanInitInternal\<close>; the heap is set up later, by ASan.\<close>

definition check_address_space :: "'a xsan_host_scheme \<Rightarrow> process \<Rightarrow> startup_result startup" where
  "check_address_space H p =
     bind_startup (InitializePlatformEarly H p) (\<lambda>r.
       case r of ReExec p \<Rightarrow> ret (ReExec p) | Continue _ \<Rightarrow> InitializePlatform H False p)"

end
