(* ===== verification/Layout_Props.thy ===== *)
theory Layout_Props
  imports Layout_Check
begin

unbundle bit_operations_syntax

text \<open>
  Properties of the start-up: the sort it uses, the address space it leaves to the program,
  that it settles after two restarts, and the page sizes and mappings it does not cope with.
\<close>

section \<open>Sequencing\<close>

lemma bind_startup_simps [simp]:
  "bind_startup fail f = fail" "bind_startup (ret x) f = f x" "ret x = ret y \<longleftrightarrow> x = y" "fail \<noteq> ret x"
  by (simp_all add: bind_startup_def fail_def ret_def)

definition returns :: "'a startup \<Rightarrow> bool" where
  "returns m \<longleftrightarrow> m \<noteq> None"

lemma returns_cases: "returns m \<Longrightarrow> m = fail \<or> (\<exists>x. m = ret x)"
proof -
  assume "returns m"
  then obtain r where "m = Some r" by (auto simp: returns_def)
  moreover have "(e :: startup_error) = Die" for e by (cases e)
  ultimately show ?thesis by (cases r) (auto simp: fail_def ret_def)
qed

lemma returns_simps [simp]: "returns fail" "returns (ret x)"
  by (simp_all add: returns_def fail_def ret_def)

lemma returns_bind: "returns m \<Longrightarrow> (\<And>x. returns (f x)) \<Longrightarrow> returns (bind_startup m f)"
  by (drule returns_cases) auto

section \<open>The sort\<close>

text \<open>C36: The heap sort of \<open>sanitizer_common.h\<close>, for a comparison that is a strict weak order,
  permutes the array, leaves what follows the first \<open>n\<close> elements alone, and sorts these.\<close>
theorem heap_sort_correct:
  assumes "\<And>a b. lt a b \<Longrightarrow> \<not> lt b a" "\<And>a b c. \<not> lt b a \<Longrightarrow> \<not> lt c b \<Longrightarrow> \<not> lt c a" "n \<le> length v"
  shows "mset (Sort lt n v) = mset v \<and> drop n (Sort lt n v) = drop n v \<and>
    sorted_wrt (\<lambda>a b. \<not> lt b a) (take n (Sort lt n v))"
proof -
  have "comparison lt" by unfold_locales (use assms(1,2) in blast)+
  note correct = comparison.Sort_correct [OF this assms(3)]
  show ?thesis using correct unfolding comparison.le_def [OF \<open>comparison lt\<close>] by simp
qed

lemma heap_sort_correct_witness:
  "Sort (<) 4 [3, 1, 2, 0 :: nat, 9] = [0, 1, 2, 3, 9] \<and> mset (Sort (<) 4 [3, 1, 2, 0 :: nat, 9]) = mset [3, 1, 2, 0, 9]"
proof (rule conjI)
  show "mset (Sort (<) 4 [3, 1, 2, 0 :: nat, 9]) = mset [3, 1, 2, 0, 9]"
    using heap_sort_correct [of "(<)" 4 "[3, 1, 2, 0 :: nat, 9]"] by simp
  show "Sort (<) 4 [3, 1, 2, 0 :: nat, 9] = [0, 1, 2, 3, 9]" by code_simp
qed

interpretation ranges: comparison range_before
  by unfold_locales (auto simp: range_before_def)

section \<open>The ranges\<close>

text \<open>The bounds of the ranges, evaluated once for each platform.\<close>

definition span :: "NamedRange \<Rightarrow> uptr \<times> uptr" where
  "span r = (range_beg r, range_end r)"

fun app_spans :: "arch \<Rightarrow> bool \<Rightarrow> (uptr \<times> uptr) list" where
  "app_spans x86_64 asan = [(0, if asan then 0x7fff7000 else 0x10000000000), (0x550000000000, 0x5a0000000000),
     (0x620000000000, 0x640000000000), (0x7a0000000000, 0x800000000000)]"
| "app_spans aarch64 asan = [(0, if asan then 0xffffff000 else 0x10000000000), (0xaaaa00000000, 0xac0000000000),
     (0xd80000000000, 0xda0000000000), (0xfc0000000000, 0x1000000000000)]"

fun asan_spans :: "arch \<Rightarrow> (uptr \<times> uptr) list" where
  "asan_spans x86_64 = [(0x7fff7000, 0x10007fff8000)]"
| "asan_spans aarch64 = [(0xffffff000, 0x201000000000)]"

fun msan_spans :: "arch \<Rightarrow> (uptr \<times> uptr) list" where
  "msan_spans x86_64 = [(0x400000000000, 0x410000000000), (0x150000000000, 0x1a0000000000),
     (0x3a0000000000, 0x400000000000), (0x220000000000, 0x240000000000), (0x6f0000000000, 0x700000000000),
     (0x440000000000, 0x490000000000), (0x690000000000, 0x6f0000000000), (0x510000000000, 0x530000000000)]"
| "msan_spans aarch64 = [(0x900000000000, 0x910000000000), (0x3aaa00000000, 0x3c0000000000),
     (0x6c0000000000, 0x700000000000), (0x480000000000, 0x4a0000000000), (0xbc0000000000, 0xbd0000000000),
     (0x66aa00000000, 0x680000000000), (0x980000000000, 0x9c0000000000), (0x740000000000, 0x760000000000)]"

fun tsan_spans :: "arch \<Rightarrow> (uptr \<times> uptr) list" where
  "tsan_spans x86_64 = [(0x1a0000000000, 0x1c0000000000), (0x240000000000, 0x2e0000000000),
     (0x2e0000000000, 0x3a0000000000), (0x1e0000000000, 0x220000000000), (0x700000000000, 0x708000000000),
     (0x728000000000, 0x750000000000), (0x750000000000, 0x780000000000), (0x710000000000, 0x720000000000)]"
| "tsan_spans aarch64 = [(0xaf0000000000, 0xb10000000000), (0xc45400000000, 0xc70000000000),
     (0xc70000000000, 0xcf0000000000), (0xbf0000000000, 0xc30000000000), (0xd00000000000, 0xd08000000000),
     (0xd55500000000, 0xd60000000000), (0xd60000000000, 0xd80000000000), (0xd40000000000, 0xd50000000000)]"

lemmas table_defs = MappingX64_48_def MappingAarch64_48_def named_range_def span_def Let_def

lemma asan_spans:
  "GetMmapGranularity H = 4096 \<Longrightarrow> map span (asan_NeededMapRanges H) = asan_spans (platform H)"
  by (cases "platform H") (simp_all add: asan_NeededMapRanges_def table_defs)

lemma msan_spans: "map span (msan_NeededMapRanges H) = msan_spans (platform H)"
  by (cases "platform H") (simp_all add: msan_NeededMapRanges_def table_defs MSAN_MEM_TO_SHADOW_def
      MSAN_MEM_TO_ORIGIN_def MSAN_SHADOW_TO_ORIGIN_def msan_map_beg_def msan_map_end_def)

lemma tsan_spans: "map span (tsan_NeededMapRanges H) = tsan_spans (platform H)"
  by (cases "platform H") (simp_all add: tsan_NeededMapRanges_def table_defs APP2SHADOW_def APP2META_def
      MemToShadow_def MemToMeta_def tsan_consts)

lemma push_all: "length v + length xs \<le> small_vector_capacity \<Longrightarrow> foldl push_back v xs = v @ xs"
  by (induction xs arbitrary: v) (simp_all add: push_back_def)

lemma needed_lengths:
  "length (asan_NeededMapRanges H) = 1" "length (msan_NeededMapRanges H) = 8" "length (tsan_NeededMapRanges H) = 8"
  by (simp_all add: asan_NeededMapRanges_def msan_NeededMapRanges_def tsan_NeededMapRanges_def Let_def)

text \<open>The vector on the stack is large enough for all ranges.\<close>

definition app_ranges :: "'a xsan_host_scheme \<Rightarrow> NamedRange list" where
  "app_ranges H = (let m = table H in
    [if contains_asan H then named_range (kLoAppMemBeg m) (kAsanLoAppMemEnd m) ''low app memory (for ASan)''
     else named_range (kLoAppMemBeg m) (kLoAppMemEnd m) ''low app memory'',
     named_range (kMidAppMemBeg m) (kMidAppMemEnd m) ''mid app memory'',
     named_range (kHeapMemBeg m) (kHeapMemEnd m) ''heap memory'',
     named_range (kHiAppMemBeg m) (kHiAppMemEnd m) ''high app memory''])"

lemma app_ranges_spans: "map span (app_ranges H) = app_spans (platform H) (contains_asan H)"
  by (cases "platform H"; simp add: app_ranges_def table_defs)

lemma map_ranges_eq:
  "map_ranges H = app_ranges H @ (if contains_asan H then asan_NeededMapRanges H else []) @
     (if contains_msan H then msan_NeededMapRanges H else []) @
     (if contains_tsan H then tsan_NeededMapRanges H else [])"
proof -
  have cap: "small_vector_capacity = 42" by (simp add: small_vector_capacity_def)
  have "length (app_ranges H) = 4" by (simp add: app_ranges_def Let_def)
  moreover have "map_ranges H = NeededMapRanges H (app_ranges H)"
    by (simp add: map_ranges_def app_ranges_def Let_def push_back_def cap)
  ultimately show ?thesis
    by (simp add: NeededMapRanges_def ReduceExtend_def push_all needed_lengths cap)
qed

lemma map_ranges_spans:
  assumes "GetMmapGranularity H = 4096"
  shows "map span (map_ranges H) = app_spans (platform H) (contains_asan H) @
     (if contains_asan H then asan_spans (platform H) else []) @
     (if contains_msan H then msan_spans (platform H) else []) @
     (if contains_tsan H then tsan_spans (platform H) else [])"
  by (simp add: map_ranges_eq app_ranges_spans asan_spans [OF assms] msan_spans tsan_spans)

definition spans_apart :: "uptr \<times> uptr \<Rightarrow> uptr \<times> uptr \<Rightarrow> bool" where
  "spans_apart r s \<longleftrightarrow> snd r \<le> fst s \<or> snd s \<le> fst r"

lemma pairwise_append:
  "pairwise P (xs @ ys) \<longleftrightarrow> pairwise P xs \<and> pairwise P ys \<and> (\<forall>x \<in> set xs. \<forall>y \<in> set ys. P x y)"
  by (induction xs) (auto simp: list_all_iff)

lemma spans_apart_x64:
  "pairwise spans_apart (app_spans x86_64 True @ asan_spans x86_64 @ msan_spans x86_64 @ tsan_spans x86_64)"
  "pairwise spans_apart (app_spans x86_64 False @ msan_spans x86_64 @ tsan_spans x86_64)"
  by code_simp+

lemma spans_apart_a64:
  "pairwise spans_apart (app_spans aarch64 True @ asan_spans aarch64 @ msan_spans aarch64 @ tsan_spans aarch64)"
  "pairwise spans_apart (app_spans aarch64 False @ msan_spans aarch64 @ tsan_spans aarch64)"
  by code_simp+

lemma all_spans_apart:
  "pairwise spans_apart (app_spans p True @ asan_spans p @ msan_spans p @ tsan_spans p)"
  "pairwise spans_apart (app_spans p False @ msan_spans p @ tsan_spans p)"
  by (cases p; simp only: spans_apart_x64 spans_apart_a64)+

definition span_proper :: "uptr \<Rightarrow> uptr \<times> uptr \<Rightarrow> bool" where
  "span_proper e r \<longleftrightarrow> fst r < snd r \<and> snd r \<le> e"

lemma spans_proper_x64:
  "list_all (span_proper 0x800000000000)
     (app_spans x86_64 True @ app_spans x86_64 False @ asan_spans x86_64 @ msan_spans x86_64 @ tsan_spans x86_64)"
  by code_simp

lemma spans_proper_a64:
  "list_all (span_proper 0x1000000000000)
     (app_spans aarch64 True @ app_spans aarch64 False @ asan_spans aarch64 @ msan_spans aarch64 @ tsan_spans aarch64)"
  by code_simp

lemma table_top: "kHiAppMemEnd (XsanMapping x86_64) = 0x800000000000" "kHiAppMemEnd (XsanMapping aarch64) = 0x1000000000000"
  by (simp_all add: MappingX64_48_def MappingAarch64_48_def)

lemma all_spans_proper:
  "list_all (span_proper (kHiAppMemEnd (XsanMapping p)))
     (app_spans p True @ app_spans p False @ asan_spans p @ msan_spans p @ tsan_spans p)"
  by (cases p; simp only: spans_proper_x64 spans_proper_a64 table_top)

lemma map_ranges_apart:
  assumes "GetMmapGranularity H = 4096"
  shows "pairwise spans_apart (map span (map_ranges H))"
  using all_spans_apart [of "platform H"]
  unfolding map_ranges_spans [OF assms] pairwise_append
  by (cases "contains_asan H"; cases "contains_msan H"; cases "contains_tsan H") (simp_all add: pairwise_append ball_Un)

lemma map_ranges_proper:
  assumes "GetMmapGranularity H = 4096" "r \<in> set (map_ranges H)"
  shows "range_beg r < range_end r" "range_end r \<le> kHiAppMemEnd (table H)"
proof -
  have "span r \<in> set (map span (map_ranges H))" using assms(2) by simp
  then have "span r \<in> set (app_spans (platform H) True @ app_spans (platform H) False @
      asan_spans (platform H) @ msan_spans (platform H) @ tsan_spans (platform H))"
    unfolding map_ranges_spans [OF assms(1)] by (cases "contains_asan H") (auto split: if_splits)
  from bspec [OF all_spans_proper [unfolded list_all_iff] this]
  show "range_beg r < range_end r" "range_end r \<le> kHiAppMemEnd (table H)"
    by (simp_all add: span_proper_def span_def)
qed

section \<open>The gaps\<close>

definition protected :: "(uptr \<times> uptr) list \<Rightarrow> uptr \<Rightarrow> bool" where
  "protected gs x \<longleftrightarrow> (\<exists>g \<in> set gs. fst g \<le> x \<and> x - fst g < snd g)"

definition in_range :: "NamedRange list \<Rightarrow> uptr \<Rightarrow> bool" where
  "in_range v x \<longleftrightarrow> (\<exists>r \<in> set v. range_beg r \<le> x \<and> x < range_end r)"

lemma gap_bounds:
  fixes b e x :: uptr
  assumes "b \<le> e"
  shows "b \<le> x \<and> x - b < e - b \<longleftrightarrow> b \<le> x \<and> x < e"
proof (cases "b \<le> x")
  case True
  then show ?thesis using assms by (simp add: word_less_nat_alt word_le_nat_alt unat_sub) linarith
qed simp

lemma ProtectRange_exact:
  assumes "\<And>addr sz. MmapFixedNoAccess H addr sz = addr" "b \<le> e"
  shows "\<exists>g. ProtectRange H b e = ret g \<and> (\<forall>x. protected g x \<longleftrightarrow> b \<le> x \<and> x < e)"
proof (cases "b = e")
  case True
  then show ?thesis by (auto simp: ProtectRange_def protected_def)
next
  case False
  then have "ProtectRange H b e = ret [(b, e - b)]" using assms(1) by (simp add: ProtectRange_def ProtectGap_def)
  then show ?thesis using gap_bounds [OF assms(2)] by (auto simp: protected_def)
qed

lemma protect_gaps_exact:
  assumes "\<And>addr sz. MmapFixedNoAccess H addr sz = addr"
  shows "sorted_wrt (\<lambda>r s. range_end r \<le> range_beg s) v \<Longrightarrow>
    \<forall>r \<in> set v. range_beg r < range_end r \<and> lo \<le> range_beg r \<Longrightarrow>
    \<exists>gs. protect_gaps H lo v = ret gs \<and>
      (\<forall>x. protected gs x \<longleftrightarrow> lo \<le> x \<and> (\<exists>r \<in> set v. x < range_end r) \<and> \<not> in_range v x)"
proof (induction v arbitrary: lo)
  case (Cons cur rest)
  have cur: "lo \<le> range_beg cur" "range_beg cur < range_end cur" using Cons.prems(2) by simp_all
  have later: "range_end cur \<le> range_beg r" "range_beg r < range_end r" if "r \<in> set rest" for r
    using Cons.prems that by auto
  obtain g where g: "ProtectRange H lo (range_beg cur) = ret g"
    "\<And>x. protected g x \<longleftrightarrow> lo \<le> x \<and> x < range_beg cur"
    using ProtectRange_exact [OF assms cur(1)] by blast
  have "sorted_wrt (\<lambda>r s. range_end r \<le> range_beg s) rest" using Cons.prems(1) by simp
  from Cons.IH [OF this, of "range_end cur"] later
  obtain gs where gs: "protect_gaps H (range_end cur) rest = ret gs"
    "\<And>x. protected gs x \<longleftrightarrow> range_end cur \<le> x \<and> (\<exists>r \<in> set rest. x < range_end r) \<and> \<not> in_range rest x"
    by blast
  have "protect_gaps H lo (cur # rest) = ret (g @ gs)"
    using cur(1) g(1) gs(1) by (simp add: not_less)
  moreover have "protected (g @ gs) x \<longleftrightarrow>
      lo \<le> x \<and> (\<exists>r \<in> set (cur # rest). x < range_end r) \<and> \<not> in_range (cur # rest) x" for x
  proof -
    have split: "protected (g @ gs) x \<longleftrightarrow> protected g x \<or> protected gs x" by (auto simp: protected_def)
    have cons: "in_range (cur # rest) x \<longleftrightarrow> range_beg cur \<le> x \<and> x < range_end cur \<or> in_range rest x"
      by (auto simp: in_range_def)
    have above: "in_range rest x \<Longrightarrow> range_end cur \<le> x" using later by (force simp: in_range_def)
    consider "x < range_beg cur" | "range_beg cur \<le> x" "x < range_end cur" | "range_end cur \<le> x" by force
    then show ?thesis
      unfolding split cons g(2) gs(2) using above cur by cases (auto simp: not_less not_le)
  qed
  ultimately show ?case by blast
qed (simp add: protected_def)

lemma apart_sorted:
  assumes "pairwise spans_apart (map span v)" "\<And>r. r \<in> set v \<Longrightarrow> range_beg r < range_end r"
    and "mset w = mset v" "sorted_wrt (\<lambda>r s. \<not> range_before s r) w"
  shows "sorted_wrt (\<lambda>r s. range_end r \<le> range_beg s) w"
proof -
  have members: "set w = set v" using assms(3) by (rule mset_eq_setD)
  have "distinct (map span v)"
    using assms(1,2)
  proof (induction v)
    case (Cons r v)
    have "span r \<notin> set (map span v)"
    proof
      assume "span r \<in> set (map span v)"
      then have "spans_apart (span r) (span r)" using Cons.prems(1) by (auto simp: list_all_iff)
      then show False using Cons.prems(2) [of r] by (simp add: spans_apart_def span_def)
    qed
    then show ?case using Cons by simp
  qed simp
  then have "distinct w" using assms(3) by (metis distinct_map mset_eq_imp_distinct_iff)
  show ?thesis
    unfolding sorted_wrt_iff_nth_less
  proof (intro allI impI)
    fix i j assume ij: "i < j" "j < length w"
    then have mem: "w ! i \<in> set v" "w ! j \<in> set v" using members by (metis less_trans nth_mem)+
    have le: "range_beg (w ! i) \<le> range_beg (w ! j)"
      using assms(4) ij by (auto simp: sorted_wrt_iff_nth_less range_before_def not_less)
    have "span (w ! i) \<noteq> span (w ! j)"
    proof
      assume same: "span (w ! i) = span (w ! j)"
      have "w ! i = w ! j"
        using \<open>distinct (map span v)\<close> mem same by (metis distinct_map inj_onD)
      then show False using \<open>distinct w\<close> ij by (simp add: nth_eq_iff_index_eq)
    qed
    then have "spans_apart (span (w ! i)) (span (w ! j))"
      using pairwise_member [OF assms(1), of "span (w ! i)" "span (w ! j)"] mem by (auto simp: spans_apart_def)
    then show "range_end (w ! i) \<le> range_beg (w ! j)"
      using le assms(2) [OF mem(2)] by (auto simp: spans_apart_def span_def)
  qed
qed

lemma gaps_of_ranges:
  assumes "GetMmapGranularity H = 4096" "\<And>addr sz. MmapFixedNoAccess H addr sz = addr"
  shows "\<exists>gs. protect_gaps H 0 (Sort range_before (length (map_ranges H)) (map_ranges H)) = ret gs \<and>
    (\<forall>x. protected gs x \<longleftrightarrow> x < kHiAppMemEnd (table H) \<and> \<not> in_range (map_ranges H) x)"
proof -
  let ?v = "map_ranges H"
  let ?w = "Sort range_before (length ?v) ?v"
  note sorted = ranges.Sort_correct [of "length ?v" ?v, OF order_refl]
  have len: "length ?w = length ?v" using sorted(1) by (rule mset_eq_length)
  have members: "set ?w = set ?v" using sorted(1) by (rule mset_eq_setD)
  have "sorted_wrt (\<lambda>r s. \<not> range_before s r) ?w"
    using sorted(2) len by (simp add: ranges.le_def [abs_def])
  then have "sorted_wrt (\<lambda>r s. range_end r \<le> range_beg s) ?w"
    using map_ranges_apart map_ranges_proper(1) assms(1) sorted(1) by (intro apart_sorted [of ?v])
  from protect_gaps_exact [OF assms(2) this, of 0] members map_ranges_proper(1) [OF assms(1)]
  obtain gs where gs: "protect_gaps H 0 ?w = ret gs"
    "\<And>x. protected gs x \<longleftrightarrow> (\<exists>r \<in> set ?v. x < range_end r) \<and> \<not> in_range ?w x" by auto
  have "\<exists>r \<in> set ?v. range_end r = kHiAppMemEnd (table H)"
  proof -
    have "kHiAppMemEnd (table H) \<in> snd ` set (map span ?v)"
      unfolding map_ranges_spans [OF assms(1)]
      by (cases "platform H") (simp_all add: MappingX64_48_def MappingAarch64_48_def)
    then show ?thesis by (auto simp: span_def)
  qed
  then have "(\<exists>r \<in> set ?v. x < range_end r) \<longleftrightarrow> x < kHiAppMemEnd (table H)" for x
    using map_ranges_proper(2) [OF assms(1)] by (metis less_le_trans)
  then show ?thesis using gs members by (auto simp: in_range_def)
qed


text \<open>A machine that grants every request, with pages of \<open>g\<close> bytes.\<close>

definition plain_host :: "arch \<Rightarrow> uptr \<Rightarrow> xsan_host" where
  "plain_host p g = \<lparr>platform = p, contains_asan = True, contains_msan = True, contains_tsan = True,
     GetMmapGranularity = g, AdditionalSize = 0x10000, MmapFixedNoAccess = (\<lambda>addr sz. addr),
     setrlimit_works = True, personality_works = True\<rparr>"

lemma plain_host_simps [simp]:
  "platform (plain_host p g) = p" "contains_asan (plain_host p g)" "contains_msan (plain_host p g)"
  "contains_tsan (plain_host p g)" "GetMmapGranularity (plain_host p g) = g"
  "MmapFixedNoAccess (plain_host p g) addr sz = addr" "AdditionalSize (plain_host p g) = 0x10000"
  "setrlimit_works (plain_host p g)" "personality_works (plain_host p g)"
  by (simp_all add: plain_host_def)

text \<open>C37: On pages of 4 KB, when the existing mappings are compatible and the kernel grants the
  requests, start-up succeeds and makes inaccessible exactly the addresses below the end of
  application memory that lie in none of the ranges the program and its sanitizers need.\<close>
theorem startup_protects_gaps:
  assumes "GetMmapGranularity H = 4096" "\<And>addr sz. MmapFixedNoAccess H addr sz = addr"
    and "check_segments H ih segs"
  shows "\<exists>gaps. CheckAndProtect H True ih segs = ret (True, gaps) \<and>
    (\<forall>x. protected gaps x \<longleftrightarrow> x < kHiAppMemEnd (table H) \<and> \<not> in_range (map_ranges H) x)"
  using gaps_of_ranges [OF assms(1,2)] assms(3) by (auto simp: CheckAndProtect_def)

lemma startup_protects_gaps_witness:
  "\<exists>gaps. CheckAndProtect (plain_host x86_64 4096) True True [] = ret (True, gaps) \<and>
    (\<forall>x. protected gaps x \<longleftrightarrow> x < kHiAppMemEnd MappingX64_48 \<and> \<not> in_range (map_ranges (plain_host x86_64 4096)) x)"
  using startup_protects_gaps [of "plain_host x86_64 4096" True "[]"] by simp

section \<open>What stays accessible\<close>

text \<open>Each row of the generated table lies in one of the ranges.\<close>

definition row_spans :: "arch \<Rightarrow> bool \<Rightarrow> MemRegion \<Rightarrow> (uptr \<times> uptr) list" where
  "row_spans p asan r = (if rtype r = App then app_spans p asan
     else if take 4 (desc r) = ''ASan'' then asan_spans p
     else if take 4 (desc r) = ''MSan'' then msan_spans p
     else if take 4 (desc r) = ''TSan'' then tsan_spans p else [])"

definition row_covered :: "arch \<Rightarrow> bool \<Rightarrow> MemRegion \<Rightarrow> bool" where
  "row_covered p asan r \<longleftrightarrow>
     rtype r = Gap \<or> list_ex (\<lambda>s. fst s \<le> beg r \<and> rend r \<le> snd s) (row_spans p asan r)"

lemma rows_covered_x64:
  "list_all (row_covered x86_64 True) (coexisting_regions x86_64)"
  "list_all (row_covered x86_64 False) (coexisting_regions x86_64)"
  by code_simp+

lemma rows_covered_a64:
  "list_all (row_covered aarch64 True) (coexisting_regions aarch64)"
  "list_all (row_covered aarch64 False) (coexisting_regions aarch64)"
  by code_simp+

lemma rows_covered: "list_all (row_covered p asan) (coexisting_regions p)"
  by (cases p; cases asan; simp only: rows_covered_x64 rows_covered_a64)

lemma covered_in_range:
  assumes "r \<in> set (coexisting_regions p)" "rtype r \<noteq> Gap" "in_region r (unat x)"
    and "set (row_spans p asan r) \<subseteq> span ` set v"
  shows "in_range v x"
proof -
  have "row_covered p asan r" using rows_covered assms(1) by (simp add: list_all_iff)
  then obtain s where "s \<in> set (row_spans p asan r)" "fst s \<le> beg r" "rend r \<le> snd s"
    using assms(2) by (auto simp: row_covered_def list_ex_iff)
  with assms(3,4) show ?thesis
    by (force simp: in_range_def span_def in_region_def word_le_nat_alt word_less_nat_alt)
qed

fun kind_enabled :: "'a xsan_host_scheme \<Rightarrow> meta_kind \<Rightarrow> bool" where
  "kind_enabled H AsanShadow = contains_asan H"
| "kind_enabled H MsanShadow = contains_msan H"
| "kind_enabled H MsanOrigin = contains_msan H"
| "kind_enabled H TsanShadow = contains_tsan H"
| "kind_enabled H TsanMeta = contains_tsan H"

lemma meta_row_spans:
  assumes "GetMmapGranularity H = 4096" "kind_enabled H k" "desc r = meta_desc k rng" "rtype r = Shadow"
  shows "set (row_spans (platform H) asan r) \<subseteq> span ` set (map_ranges H)"
proof -
  have "set (map span (map_ranges H)) = span ` set (map_ranges H)" by simp
  then show ?thesis
    unfolding map_ranges_spans [OF assms(1)] using assms(2-4) by (cases k) (auto simp: row_spans_def)
qed

lemma user_in_range:
  assumes "GetMmapGranularity H = 4096" "user_mem (platform H) a"
  shows "in_range (map_ranges H) a"
proof -
  obtain r where r: "r \<in> set (coexisting_regions (platform H))" "rtype r = App" "in_region r (unat a)"
    using assms(2) by (rule user_mem_row)
  have "set (map span (map_ranges H)) = span ` set (map_ranges H)" by simp
  then have "set (row_spans (platform H) (contains_asan H) r) \<subseteq> span ` set (map_ranges H)"
    unfolding map_ranges_spans [OF assms(1)] using r(2) by (auto simp: row_spans_def)
  then show ?thesis using covered_in_range [OF r(1) _ r(3)] r(2) by simp
qed

lemma meta_in_range:
  assumes "GetMmapGranularity H = 4096" "user_mem (platform H) a" "kind_enabled H k" "n < meta_size k"
  shows "in_range (map_ranges H) (meta_addr (platform H) k a + of_nat n)"
proof -
  obtain r where r: "r \<in> set (coexisting_regions (platform H))" "rtype r = Shadow"
    "desc r = meta_desc k (app_range (platform H) a)" "in_region r (unat (meta_addr (platform H) k a) + n)"
    using meta_ok_all [OF assms(2)] assms(4) by (rule meta_ok_region)
  have "unat (meta_addr (platform H) k a) + n < 2 ^ 64"
    using r(4) unsigned_less [of "rend r", where 'a = nat] unfolding in_region_def by simp
  then have "unat (meta_addr (platform H) k a + of_nat n) = unat (meta_addr (platform H) k a) + n"
    by (simp add: unat_word_ariths unat_of_nat)
  then show ?thesis
    using covered_in_range [OF r(1)] r(2-4) meta_row_spans [OF assms(1,3) r(3,2)] by simp
qed

text \<open>C38: After start-up the program can use all of its memory, and every byte of metadata that
  an enabled sanitizer keeps for it: none of them has been made inaccessible.\<close>
theorem startup_keeps_memory:
  assumes "GetMmapGranularity H = 4096" "\<And>addr sz. MmapFixedNoAccess H addr sz = addr"
    and "CheckAndProtect H True ih segs = ret (True, gaps)" "user_mem (platform H) a"
  shows "\<not> protected gaps a \<and>
    (\<forall>k n. kind_enabled H k \<longrightarrow> n < meta_size k \<longrightarrow> \<not> protected gaps (meta_addr (platform H) k a + of_nat n))"
proof -
  have "check_segments H ih segs" using assms(3) by (auto simp: CheckAndProtect_def split: if_splits)
  from gaps_of_ranges [OF assms(1,2)] obtain gs
    where gs: "protect_gaps H 0 (Sort range_before (length (map_ranges H)) (map_ranges H)) = ret gs"
      "\<And>x. protected gs x \<Longrightarrow> \<not> in_range (map_ranges H) x" by blast
  have "gs = gaps" using assms(3) \<open>check_segments H ih segs\<close> by (simp add: CheckAndProtect_def gs(1))
  with gs(2) have outside: "protected gaps x \<Longrightarrow> \<not> in_range (map_ranges H) x" for x by blast
  have "\<not> protected gaps a" using outside user_in_range [OF assms(1,4)] by blast
  moreover have "\<not> protected gaps (meta_addr (platform H) k a + of_nat n)"
    if "kind_enabled H k" "n < meta_size k" for k n
    using outside meta_in_range [OF assms(1,4) that] by blast
  ultimately show ?thesis by blast
qed

lemma startup_keeps_memory_witness:
  "\<exists>gaps. CheckAndProtect (plain_host x86_64 4096) True True [] = ret (True, gaps) \<and>
    \<not> protected gaps 0x7b0000000000 \<and>
    \<not> protected gaps (meta_addr x86_64 TsanShadow 0x7b0000000000 + of_nat 15)"
proof -
  let ?H = "plain_host x86_64 4096"
  obtain gaps where gaps: "CheckAndProtect ?H True True [] = ret (True, gaps)"
    using gaps_of_ranges [of ?H] by (auto simp: CheckAndProtect_def)
  have "user_mem (platform ?H) 0x7b0000000000"
    by (simp add: user_mem_def IsAppMem_def MappingX64_48_def)
  note keeps = startup_keeps_memory [OF _ _ gaps this]
  have "\<not> protected gaps 0x7b0000000000" using keeps by simp
  moreover have "kind_enabled ?H TsanShadow" "15 < meta_size TsanShadow" by (simp_all add: tsan_consts)
  then have "\<not> protected gaps (meta_addr x86_64 TsanShadow 0x7b0000000000 + of_nat 15)"
    using keeps by (metis plain_host_simps(1,5,6))
  ultimately show ?thesis using gaps by blast
qed


section \<open>Restarts\<close>

lemma protect_steps_returns:
  assumes "GetMmapGranularity H \<noteq> 0"
  shows "returns (protect_steps H addr sz)"
proof (induction "unat sz" arbitrary: addr sz rule: less_induct)
  case less
  show ?case
  proof (cases "GetMmapGranularity H < sz \<and> addr < ZeroBaseMaxShadowStart")
    case True
    then have "unat (sz - GetMmapGranularity H) < unat sz"
      using assms unat_gt_0 [of "GetMmapGranularity H"]
      by (simp add: word_less_nat_alt unat_sub word_le_nat_alt)
    then have "returns (protect_steps H (addr + GetMmapGranularity H) (sz - GetMmapGranularity H))"
      by (rule less)
    then show ?thesis by (subst protect_steps.simps) (auto simp: Let_def returns_def)
  next
    case False
    then show ?thesis by (subst protect_steps.simps) (auto simp: returns_def)
  qed
qed

lemma ProtectRange_returns: "GetMmapGranularity H \<noteq> 0 \<Longrightarrow> returns (ProtectRange H b e)"
  by (simp add: ProtectRange_def ProtectGap_def protect_steps_returns)

lemma protect_gaps_returns:
  assumes "GetMmapGranularity H \<noteq> 0"
  shows "returns (protect_gaps H lo v)"
  using assms by (induction v arbitrary: lo) (auto intro!: returns_bind ProtectRange_returns)

lemma CheckAndProtect_returns:
  "GetMmapGranularity H \<noteq> 0 \<Longrightarrow> returns (CheckAndProtect H protect ih segs)"
  by (auto simp: CheckAndProtect_def Let_def intro!: returns_bind protect_gaps_returns)

lemma ReExecIfNeeded_returns:
  "GetMmapGranularity H \<noteq> 0 \<Longrightarrow> returns (ReExecIfNeeded H ih segs p)"
  by (auto simp: ReExecIfNeeded_def intro!: returns_bind CheckAndProtect_returns)

lemma check_address_space_returns:
  assumes "GetMmapGranularity H \<noteq> 0"
  shows "returns (check_address_space H p)"
proof -
  have "returns (InitializePlatform H b p)" for b p
    using assms unfolding InitializePlatform_def
    by (auto intro!: returns_bind ReExecIfNeeded_returns CheckAndProtect_returns split: startup_result.splits)
  moreover have "returns (InitializePlatformEarly H p)"
    using assms by (simp add: InitializePlatformEarly_def MostSignificantSetBitIndex_def Let_def ReExecIfNeeded_returns)
  ultimately show ?thesis
    unfolding check_address_space_def by (auto intro!: returns_bind split: startup_result.splits)
qed

text \<open>The two reasons for a restart, and what the next image starts with.\<close>

definition bad_limits :: "process \<Rightarrow> bool" where
  "bad_limits p \<longleftrightarrow> StackSizeIsUnlimited p \<or> \<not> AddressSpaceIsUnlimited p"

definition restart :: "process \<Rightarrow> process \<Rightarrow> bool" where
  "restart p q \<longleftrightarrow> bad_limits p \<and> q = set_limits p \<or> \<not> bad_limits p \<and> aslr_on p \<and> q = disable_aslr p"

definition inherits :: "process \<Rightarrow> process \<Rightarrow> bool" where
  "inherits q p \<longleftrightarrow> StackSizeIsUnlimited p = StackSizeIsUnlimited q \<and>
     AddressSpaceIsUnlimited p = AddressSpaceIsUnlimited q \<and> personality p = personality q"

lemma ReExecIfNeeded_restart:
  assumes "GetMmapGranularity H \<noteq> 0" "ReExecIfNeeded H ih segs p = ret (ReExec q)"
  shows "restart p q"
proof (cases "bad_limits p")
  case True
  then show ?thesis
    using assms(2) by (auto simp: restart_def ReExecIfNeeded_def bad_limits_def split: if_splits)
next
  case False
  from returns_cases [OF CheckAndProtect_returns [OF assms(1), of False ih segs]]
  show ?thesis
    using assms(2) False by (auto simp: restart_def ReExecIfNeeded_def bad_limits_def split: if_splits)
qed

lemma check_address_space_restart:
  assumes "GetMmapGranularity H \<noteq> 0" "check_address_space H p = ret (ReExec q)"
  shows "restart p q"
proof -
  have late: "restart p q" if "InitializePlatform H False p = ret (ReExec q)"
    using that ReExecIfNeeded_restart [OF assms(1)]
      returns_cases [OF ReExecIfNeeded_returns [OF assms(1), of True "late_segments p" p]]
      returns_cases [OF CheckAndProtect_returns [OF assms(1), of True True "late_segments p"]]
    by (auto simp: InitializePlatform_def split: startup_result.splits if_splits)
  show ?thesis
    using assms(2) late ReExecIfNeeded_restart [OF assms(1)]
      returns_cases [OF ReExecIfNeeded_returns [OF assms(1), of False "early_segments p" p]]
    by (auto simp: check_address_space_def InitializePlatformEarly_def MostSignificantSetBitIndex_def Let_def
        split: startup_result.splits if_splits)
qed

lemma aslr_on_inherits: "inherits q p \<Longrightarrow> aslr_on p = aslr_on q"
  by (simp add: inherits_def aslr_on_def)

lemma bad_limits_inherits: "inherits q p \<Longrightarrow> bad_limits p = bad_limits q"
  by (simp add: inherits_def bad_limits_def)

lemma set_limits_good [simp]: "\<not> bad_limits (set_limits p)"
  by (simp add: bad_limits_def set_limits_def)

lemma disable_aslr_off [simp]: "\<not> aslr_on (disable_aslr p)"
proof -
  have "(old OR ADDR_NO_RANDOMIZE) AND ADDR_NO_RANDOMIZE = ADDR_NO_RANDOMIZE" for old
    by (rule bit_word_eqI) (auto simp: bit_simps)
  then show ?thesis by (simp add: aslr_on_def disable_aslr_def ADDR_NO_RANDOMIZE_def split: option.splits)
qed

lemma disable_aslr_limits [simp]: "bad_limits (disable_aslr p) = bad_limits p"
  by (simp add: bad_limits_def disable_aslr_def)

text \<open>C39: Start-up settles: however the mappings of each new image are chosen, if limits and
  personality are inherited then after at most two restarts the program either runs with its gaps
  protected or is stopped with a message.\<close>
theorem startup_settles:
  assumes "GetMmapGranularity H \<noteq> 0"
    and "\<And>n q. check_address_space H (f n) = ret (ReExec q) \<Longrightarrow> inherits q (f (Suc n))"
  shows "\<exists>n \<le> 2. check_address_space H (f n) = fail \<or> (\<exists>gaps. check_address_space H (f n) = ret (Continue gaps))"
proof (rule ccontr)
  assume never: "\<not> ?thesis"
  have "\<exists>q. restart (f n) q \<and> inherits q (f (Suc n))" if le: "n \<le> 2" for n
  proof -
    obtain r where r: "check_address_space H (f n) = ret r"
      using returns_cases [OF check_address_space_returns [OF assms(1), of "f n"]] never le by blast
    with never le obtain q where "r = ReExec q" by (cases r) blast+
    with r show ?thesis using check_address_space_restart [OF assms(1)] assms(2) by blast
  qed
  from this [of 0] this [of 1] this [of 2] obtain q0 q1 q2
    where q: "restart (f 0) q0" "inherits q0 (f 1)" "restart (f 1) q1" "inherits q1 (f 2)" "restart (f 2) q2"
    by (auto simp: numeral_2_eq_2)
  have "aslr_on (f 1) = aslr_on q0" "bad_limits (f 1) = bad_limits q0"
    "aslr_on (f 2) = aslr_on q1" "bad_limits (f 2) = bad_limits q1"
    using q(2,4) by (simp_all add: aslr_on_inherits bad_limits_inherits)
  with q(1,3,5) show False unfolding restart_def by auto
qed

lemma startup_settles_witness:
  "let H = plain_host x86_64 4096;
       p = \<lparr>StackSizeIsUnlimited = True, AddressSpaceIsUnlimited = True, personality = Some 0,
            frame_address = 0x7fffffffe000, early_segments = [], late_segments = []\<rparr>;
       f = (\<lambda>n::nat. if n = 0 then p else set_limits p)
   in check_address_space H (f 0) = ret (ReExec (f 1)) \<and>
      (\<exists>n \<le> 2. check_address_space H (f n) = fail \<or> (\<exists>gaps. check_address_space H (f n) = ret (Continue gaps)))"
proof -
  let ?H = "plain_host x86_64 4096"
  let ?p = "\<lparr>StackSizeIsUnlimited = True, AddressSpaceIsUnlimited = True, personality = Some 0,
            frame_address = 0x7fffffffe000, early_segments = [], late_segments = []\<rparr>"
  let ?f = "\<lambda>n::nat. if n = 0 then ?p else set_limits ?p"
  have first: "check_address_space ?H ?p = ret (ReExec (set_limits ?p))"
    by (simp add: check_address_space_def InitializePlatformEarly_def MostSignificantSetBitIndex_def
        supported_vma_def ReExecIfNeeded_def)
  define p1 where "p1 = set_limits ?p"
  have p1: "frame_address p1 = 0x7fffffffe000" "early_segments p1 = []" "late_segments p1 = []" "\<not> bad_limits p1"
    by (simp_all add: p1_def) (simp_all add: set_limits_def)
  have limits: "ReExecIfNeeded ?H ih [] p1 = ret (Continue [])" for ih
    using p1(4) by (simp add: ReExecIfNeeded_def bad_limits_def CheckAndProtect_def)
  obtain gaps where "CheckAndProtect ?H True True [] = ret (True, gaps)"
    using gaps_of_ranges [of ?H] by (auto simp: CheckAndProtect_def)
  then have second: "check_address_space ?H (set_limits ?p) = ret (Continue gaps)"
    unfolding p1_def [symmetric]
    by (simp add: check_address_space_def InitializePlatformEarly_def MostSignificantSetBitIndex_def
        supported_vma_def
        InitializePlatform_def p1 limits)
  have "inherits q (?f (Suc n))" if "check_address_space ?H (?f n) = ret (ReExec q)" for n q
    using that first second by (auto simp: inherits_def split: if_splits)
  from startup_settles [of ?H ?f, OF _ this] first show ?thesis by (simp add: Let_def)
qed


section \<open>What it does not cope with\<close>

text \<open>When the gaps are protected the ranges follow one another in some order.\<close>

lemma protect_gaps_sorted:
  "protect_gaps H lo v = ret gs \<Longrightarrow> returns (protect_gaps H lo v) \<Longrightarrow> GetMmapGranularity H \<noteq> 0 \<Longrightarrow>
    \<forall>r \<in> set v. range_beg r \<le> range_end r \<Longrightarrow>
    sorted_wrt (\<lambda>r s. range_end r \<le> range_beg s) v \<and> (\<forall>r \<in> set v. lo \<le> range_beg r)"
proof (induction v arbitrary: lo gs)
  case (Cons cur rest)
  have lo: "\<not> range_beg cur < lo" using Cons.prems(1) by (auto split: if_splits)
  obtain g where g: "ProtectRange H lo (range_beg cur) = ret g"
    using returns_cases [OF ProtectRange_returns [OF Cons.prems(3), of lo "range_beg cur"]] Cons.prems(1) lo
    by auto
  obtain gs' where gs': "protect_gaps H (range_end cur) rest = ret gs'"
    using returns_cases [OF protect_gaps_returns [OF Cons.prems(3), of "range_end cur" rest]] Cons.prems(1) lo g
    by auto
  from Cons.IH [OF gs'] Cons.prems(3,4) gs'
  have rest: "sorted_wrt (\<lambda>r s. range_end r \<le> range_beg s) rest" "\<forall>r \<in> set rest. range_end cur \<le> range_beg r"
    by simp_all
  moreover have "range_beg cur \<le> range_end cur" using Cons.prems(4) by simp
  ultimately show ?case using lo by (auto simp: not_less intro: order_trans)
qed simp

lemma overlap_fails:
  assumes "GetMmapGranularity H \<noteq> 0" "\<And>r. r \<in> set (map_ranges H) \<Longrightarrow> range_beg r \<le> range_end r"
    and "r \<in> set (map_ranges H)" "s \<in> set (map_ranges H)" "r \<noteq> s" "\<not> spans_apart (span r) (span s)"
  shows "protect_gaps H 0 (Sort range_before (length (map_ranges H)) (map_ranges H)) = fail"
proof (rule ccontr)
  let ?w = "Sort range_before (length (map_ranges H)) (map_ranges H)"
  have members: "set ?w = set (map_ranges H)"
    by (rule mset_eq_setD) (rule ranges.Sort_correct(1) [OF order_refl])
  assume "protect_gaps H 0 ?w \<noteq> fail"
  then obtain gs where "protect_gaps H 0 ?w = ret gs"
    using returns_cases [OF protect_gaps_returns [OF assms(1)]] by blast
  then have sorted: "sorted_wrt (\<lambda>r s. range_end r \<le> range_beg s) ?w"
    using protect_gaps_sorted assms(1,2) members by (metis protect_gaps_returns)
  from assms(3,4) members obtain i j where ij: "i < length ?w" "j < length ?w" "?w ! i = r" "?w ! j = s"
    by (metis in_set_conv_nth)
  with assms(5) have "i < j \<or> j < i" by (metis linorder_neqE_nat)
  with sorted ij have "range_end r \<le> range_beg s \<or> range_end s \<le> range_beg r"
    by (auto simp: sorted_wrt_iff_nth_less)
  with assms(6) show False by (simp add: spans_apart_def span_def)
qed


lemma spans_ordered:
  assumes "span s \<in> set (app_spans p True @ msan_spans p @ tsan_spans p)"
  shows "range_beg s \<le> range_end s"
proof -
  have "span s \<in> set (app_spans p True @ app_spans p False @ asan_spans p @ msan_spans p @ tsan_spans p)"
    using assms unfolding set_append by blast
  from bspec [OF all_spans_proper [unfolded list_all_iff] this] show ?thesis
    by (auto simp: span_proper_def span_def)
qed

lemma large_page_range:
  assumes "platform H = aarch64" "GetMmapGranularity H = 0x4000 \<or> GetMmapGranularity H = 0x10000"
  shows "\<exists>r. asan_NeededMapRanges H = [r] \<and> range_beg r < 0xffffff000 \<and> 0xffffff000 < range_end r"
  using assms by (auto simp: asan_NeededMapRanges_def table_defs)

text \<open>C40: On AArch64 with pages of 16 or 64 KB XSan never starts when it contains ASan: the page
  reserved below ASan's shadow reaches into the low application range, which ends 4 KB below it,
  and the overlap is fatal whatever the process has mapped.\<close>
theorem large_pages_die:
  assumes "platform H = aarch64" "contains_asan H"
    and "GetMmapGranularity H = 0x4000 \<or> GetMmapGranularity H = 0x10000"
    and "check_segments H ih segs"
  shows "CheckAndProtect H True ih segs = fail"
proof -
  obtain r where r: "asan_NeededMapRanges H = [r]" "range_beg r < 0xffffff000" "0xffffff000 < range_end r"
    using large_page_range [OF assms(1,3)] by blast
  have "(0, 0xffffff000) \<in> set (map span (app_ranges H))"
    unfolding app_ranges_spans using assms(1,2) by simp
  then obtain low where low: "low \<in> set (app_ranges H)" "span low = (0, 0xffffff000)" by auto
  have "range_beg s \<le> range_end s" if "s \<in> set (map_ranges H)" for s
  proof (cases "s = r")
    case True
    then show ?thesis using r(2,3) by simp
  next
    case False
    then have "span s \<in> span ` (set (app_ranges H) \<union> set (msan_NeededMapRanges H) \<union> set (tsan_NeededMapRanges H))"
      using that r(1) by (auto simp: map_ranges_eq split: if_splits)
    also have "\<dots> = set (app_spans aarch64 True @ msan_spans aarch64 @ tsan_spans aarch64)"
      unfolding image_Un set_map [symmetric] app_ranges_spans msan_spans tsan_spans assms(1)
      by (simp only: assms(2) set_append Un_assoc)
    finally show ?thesis by (rule spans_ordered)
  qed
  moreover have "low \<in> set (map_ranges H)" "r \<in> set (map_ranges H)"
    using low(1) r(1) assms(2) by (simp_all add: map_ranges_eq)
  moreover have "low \<noteq> r" using low(2) r(3) by (auto simp: span_def)
  moreover have "\<not> spans_apart (span low) (span r)"
    using low(2) r(2,3) by (auto simp: spans_apart_def span_def not_le)
  ultimately have "protect_gaps H 0 (Sort range_before (length (map_ranges H)) (map_ranges H)) = fail"
    using assms(3) by (intro overlap_fails) auto
  then show ?thesis using assms(4) by (simp add: CheckAndProtect_def Let_def)
qed

lemma large_pages_die_witness:
  "CheckAndProtect (plain_host aarch64 0x10000) True True [] = fail"
  using large_pages_die [of "plain_host aarch64 0x10000" True "[]"] by simp

text \<open>Only where a mapping starts is checked.  A mapping that begins in application memory and
  runs beyond it is accepted, and the part of it in a gap is made inaccessible.\<close>
theorem straddling_mapping_lost:
  assumes "GetMmapGranularity H = 4096" "\<And>addr sz. MmapFixedNoAccess H addr sz = addr"
    and "IsAppMem (table H) (start seg)" "start seg \<le> x" "x < send seg"
    and "x < kHiAppMemEnd (table H)" "\<not> in_range (map_ranges H) x"
  shows "\<exists>gaps. CheckAndProtect H True True [seg] = ret (True, gaps) \<and> protected gaps x"
proof -
  obtain gs
    where gs: "protect_gaps H 0 (Sort range_before (length (map_ranges H)) (map_ranges H)) = ret gs"
      "protected gs x" using gaps_of_ranges [OF assms(1,2)] assms(6,7) by blast
  have "check_segments H True [seg]" using assms(3) by simp
  then have "CheckAndProtect H True True [seg] = ret (True, gs)"
    by (simp only: CheckAndProtect_def Let_def gs(1)) simp
  then show ?thesis using gs(2) by blast
qed

lemma in_range_spans: "in_range v x \<longleftrightarrow> list_ex (\<lambda>s. fst s \<le> x \<and> x < snd s) (map span v)"
  by (simp add: in_range_def list_ex_iff span_def)

lemma outside_x64:
  "\<not> list_ex (\<lambda>s. fst s \<le> 0x5a0000000000 \<and> 0x5a0000000000 < snd s)
     (app_spans x86_64 True @ asan_spans x86_64 @ msan_spans x86_64 @ tsan_spans x86_64)"
  by code_simp

lemma straddling_mapping_lost_witness:
  "let seg = \<lparr>start = 0x59fffffff000, send = 0x5a0000001000, protection = 3\<rparr>
   in \<exists>gaps. CheckAndProtect (plain_host x86_64 4096) True True [seg] = ret (True, gaps) \<and>
        protected gaps 0x5a0000000000"
proof -
  let ?H = "plain_host x86_64 4096"
  have "map span (map_ranges ?H) = app_spans x86_64 True @ asan_spans x86_64 @ msan_spans x86_64 @ tsan_spans x86_64"
    using map_ranges_spans [of ?H] by (simp only: plain_host_simps if_True)
  then have "\<not> in_range (map_ranges ?H) 0x5a0000000000"
    by (simp only: in_range_spans outside_x64) simp
  moreover have "IsAppMem MappingX64_48 0x59fffffff000" by (simp add: IsAppMem_def MappingX64_48_def)
  ultimately show ?thesis
    using straddling_mapping_lost [of ?H "\<lparr>start = 0x59fffffff000, send = 0x5a0000001000, protection = 3\<rparr>"
        "0x5a0000000000"] by (simp add: MappingX64_48_def)
qed

end
