(* ===== verification/Active_Mop.thy ===== *)
theory Active_Mop
  imports XPrelude
begin

text \<open>
  \<open>instrumentation/Analysis/ActiveMopAnalysis.{h,cpp}\<close>: the dataflow analysis that
  decides whether a memory operation (MOP) is still active, that is, not followed by
  a clobbering call (or, for TSan, an acquire or release barrier), when another one
  is reached.  An LLVM function is a list of blocks, a block a list of instructions
  and the indices of its successors; an instruction is the record of what the LLVM
  API answers about it, and a \<open>const Instruction *\<close> is a pair of indices.
  \<open>None\<close> is a failed assertion or \<open>llvm_unreachable\<close>.
\<close>

section \<open>Functions, blocks and instructions\<close>

datatype AtomicOrdering = NotAtomic | Unordered | Monotonic | Acquire | Release
  | AcquireRelease | SequentiallyConsistent

text \<open>The values of the LLVM enumeration (3 is unused).\<close>

fun ordering_value :: "AtomicOrdering \<Rightarrow> nat" where
  "ordering_value NotAtomic = 0"
| "ordering_value Unordered = 1"
| "ordering_value Monotonic = 2"
| "ordering_value Acquire = 4"
| "ordering_value Release = 5"
| "ordering_value AcquireRelease = 6"
| "ordering_value SequentiallyConsistent = 7"

datatype Opcode = LoadInst AtomicOrdering | StoreInst AtomicOrdering
  | AtomicRMWInst AtomicOrdering | AtomicCmpXchgInst AtomicOrdering AtomicOrdering
  | FenceInst AtomicOrdering | CallBase | DbgInfoIntrinsic | PHINode | OtherInst

record Instruction =
  opcode :: Opcode
  MD_nosanitize :: bool
  mayWriteToMemory :: bool
  isAtomic :: bool
  AtomicSyncScopeID :: "u8 option"
  isPseudoProbe :: bool
  isLifetimeStartOrEnd :: bool

definition SingleThread :: u8 where "SingleThread = 0"

record BasicBlock =
  insts :: "Instruction list"
  succs :: "nat list"

type_synonym Func = "BasicBlock list"
type_synonym inst_ref = "nat \<times> nat"

definition block_succs :: "Func \<Rightarrow> nat \<Rightarrow> nat list" where
  "block_succs F b = (if b < length F then succs (F ! b) else [])"

definition block_insts :: "Func \<Rightarrow> nat \<Rightarrow> Instruction list" where
  "block_insts F b = (if b < length F then insts (F ! b) else [])"

definition preds :: "Func \<Rightarrow> nat \<Rightarrow> nat list" where
  "preds F b = filter (\<lambda>p. b \<in> set (block_succs F p)) [0..<length F]"

definition isa_CallBase :: "Instruction \<Rightarrow> bool" where
  "isa_CallBase I \<longleftrightarrow> opcode I = CallBase \<or> opcode I = DbgInfoIntrinsic"

fun isa_LoadInst :: "Opcode \<Rightarrow> bool" where
  "isa_LoadInst (LoadInst _) = True" | "isa_LoadInst _ = False"

fun isa_StoreInst :: "Opcode \<Rightarrow> bool" where
  "isa_StoreInst (StoreInst _) = True" | "isa_StoreInst _ = False"

definition isInterestingMop :: "bool \<Rightarrow> Instruction \<Rightarrow> bool" where
  "isInterestingMop IgnoreAtomic I =
     (if MD_nosanitize I then False
      else if IgnoreAtomic \<and> isAtomic I then False
      else isa_StoreInst (opcode I) \<or> isa_LoadInst (opcode I))"

definition isClobberingCall :: "bool \<Rightarrow> Instruction \<Rightarrow> bool" where
  "isClobberingCall IgnoreNoSanitized I =
     (if \<not> isa_CallBase I then False
      else if opcode I = DbgInfoIntrinsic then False
      else if IgnoreNoSanitized \<and> MD_nosanitize I then False
      else if \<not> mayWriteToMemory I then False
      else True)"

abbreviation "clobbers \<equiv> isClobberingCall True"
abbreviation "interesting \<equiv> isInterestingMop True"

definition getOrder :: "Instruction \<Rightarrow> AtomicOrdering" where
  "getOrder I =
     (case AtomicSyncScopeID I of
        None \<Rightarrow> NotAtomic
      | Some ssid \<Rightarrow>
          if (isa_LoadInst (opcode I) \<or> isa_StoreInst (opcode I)) \<and> ssid = SingleThread
          then NotAtomic
          else (case opcode I of
              LoadInst ord \<Rightarrow> ord
            | StoreInst ord \<Rightarrow> ord
            | AtomicRMWInst ord \<Rightarrow> ord
            | AtomicCmpXchgInst SuccessOrder FailureOrder \<Rightarrow>
                if SuccessOrder = FailureOrder then SuccessOrder
                else if SuccessOrder = Release \<or> SuccessOrder = Acquire then AcquireRelease
                else if ordering_value FailureOrder > ordering_value SuccessOrder
                  then FailureOrder else SuccessOrder
            | FenceInst _ \<Rightarrow> NotAtomic
            | _ \<Rightarrow> NotAtomic))"

text \<open>The two reference parameters are passed in and returned.\<close>

definition getAtomicInsnOrder :: "Instruction \<Rightarrow> bool \<times> bool \<Rightarrow> bool \<times> bool" where
  "getAtomicInsnOrder I st =
     (case st of (IsAcq, IsRel) \<Rightarrow>
       (case getOrder I of
          NotAtomic \<Rightarrow> (IsAcq, IsRel)
        | Unordered \<Rightarrow> (IsAcq, IsRel)
        | Monotonic \<Rightarrow> (IsAcq, IsRel)
        | Acquire \<Rightarrow> (True, IsRel)
        | Release \<Rightarrow> (IsAcq, True)
        | AcquireRelease \<Rightarrow> (True, True)
        | SequentiallyConsistent \<Rightarrow> (True, True)))"

definition acquires :: "Instruction \<Rightarrow> bool" where
  "acquires I \<longleftrightarrow> fst (getAtomicInsnOrder I (False, False))"
definition releases :: "Instruction \<Rightarrow> bool" where
  "releases I \<longleftrightarrow> snd (getAtomicInsnOrder I (False, False))"

lemma getAtomicInsnOrder_eq [simp]:
  "getAtomicInsnOrder I (a, r) = (a \<or> acquires I, r \<or> releases I)"
  by (simp add: getAtomicInsnOrder_def acquires_def releases_def split: AtomicOrdering.splits)

section \<open>Inside one block\<close>

text \<open>
  The scans run over the instructions from \<open>From\<close> on, each with its index;
  \<open>getNextNonDebugInstruction\<close> skips debug intrinsics.  \<open>None\<close> is the
  \<open>llvm_unreachable\<close> at the end of the block.
\<close>

abbreviation "is_dbg ii \<equiv> opcode (snd ii) = DbgInfoIntrinsic"

function scan_active :: "nat \<Rightarrow> (nat \<times> Instruction) list \<Rightarrow> bool option" where
  "scan_active To [] = None"
| "scan_active To ((i, I) # rest) =
     (if i = To then Some True
      else if clobbers I then Some False
      else scan_active To (dropWhile is_dbg rest))"
  by pat_completeness auto
termination
  by (relation "measure (length \<circ> snd)") (auto simp: less_Suc_eq_le length_dropWhile_le)

function scan_active_order ::
  "nat \<Rightarrow> bool \<Rightarrow> bool \<times> bool \<Rightarrow> (nat \<times> Instruction) list \<Rightarrow> bool option" where
  "scan_active_order To Acq st [] = None"
| "scan_active_order To Acq st ((i, I) # rest) =
     (if i = To then Some True
      else if clobbers I then Some False
      else let (HasAcq, HasRel) = getAtomicInsnOrder I st in
        if (Acq \<and> HasAcq) \<or> (\<not> Acq \<and> HasRel) then Some False
        else scan_active_order To Acq (HasAcq, HasRel) (dropWhile is_dbg rest))"
  by pat_completeness auto
termination
  by (relation "measure (length \<circ> snd \<circ> snd \<circ> snd)")
     (auto simp: less_Suc_eq_le length_dropWhile_le)

definition insts_from :: "Func \<Rightarrow> inst_ref \<Rightarrow> (nat \<times> Instruction) list" where
  "insts_from F p = drop (snd p) (enumerate 0 (block_insts F (fst p)))"

definition isActiveInTheSameBlock :: "Func \<Rightarrow> inst_ref \<Rightarrow> inst_ref \<Rightarrow> bool option" where
  "isActiveInTheSameBlock F From To =
     (if fst From = fst To then scan_active (snd To) (insts_from F From) else None)"

definition isActiveInTheSameBlock_order ::
  "Func \<Rightarrow> inst_ref \<Rightarrow> inst_ref \<Rightarrow> bool \<Rightarrow> bool option" where
  "isActiveInTheSameBlock_order F From To Acq =
     (if fst From = fst To
      then scan_active_order (snd To) Acq (False, False) (insts_from F From) else None)"

section \<open>Bit vectors and the lattice\<close>

type_synonym BitVectorSet = "bool list"

definition BitVector :: "nat \<Rightarrow> bool \<Rightarrow> BitVectorSet" where
  "BitVector n b = replicate n b"
definition bv_or :: "BitVectorSet \<Rightarrow> BitVectorSet \<Rightarrow> BitVectorSet" where
  "bv_or = map2 (\<or>)"
definition bv_and :: "BitVectorSet \<Rightarrow> BitVectorSet \<Rightarrow> BitVectorSet" where
  "bv_and = map2 (\<and>)"
definition bv_flip :: "BitVectorSet \<Rightarrow> BitVectorSet" where
  "bv_flip = map Not"
definition bv_test :: "BitVectorSet \<Rightarrow> nat \<Rightarrow> bool" where
  "bv_test v i \<longleftrightarrow> i < length v \<and> v ! i"

record Lattice =
  Reachable :: BitVectorSet
  NotActive :: BitVectorSet
  AnyAcq :: BitVectorSet
  AnyRel :: BitVectorSet
  UsedForTsan :: bool

definition new_Lattice :: "nat \<Rightarrow> bool \<Rightarrow> Lattice" where
  "new_Lattice NumMops tsan =
     \<lparr>Reachable = BitVector NumMops False, NotActive = BitVector NumMops False,
      AnyAcq = BitVector (if tsan then NumMops else 0) False,
      AnyRel = BitVector (if tsan then NumMops else 0) False, UsedForTsan = tsan\<rparr>"

definition kill :: "Lattice \<Rightarrow> Lattice" where
  "kill L = L\<lparr>NotActive := Reachable L\<rparr>"
definition killAcq :: "Lattice \<Rightarrow> Lattice" where
  "killAcq L = (if \<not> UsedForTsan L then L else L\<lparr>AnyAcq := Reachable L\<rparr>)"
definition killRel :: "Lattice \<Rightarrow> Lattice" where
  "killRel L = (if \<not> UsedForTsan L then L else L\<lparr>AnyRel := Reachable L\<rparr>)"

definition join :: "Lattice \<Rightarrow> Lattice \<Rightarrow> Lattice" where
  "join L Other =
     (let L = L\<lparr>Reachable := bv_or (Reachable L) (Reachable Other),
                NotActive := bv_or (NotActive L) (NotActive Other)\<rparr>
      in if UsedForTsan L
         then L\<lparr>AnyAcq := bv_or (AnyAcq L) (AnyAcq Other),
                AnyRel := bv_or (AnyRel L) (AnyRel Other)\<rparr>
         else L)"

definition lattice_eq :: "Lattice \<Rightarrow> Lattice \<Rightarrow> bool" where
  "lattice_eq L Other \<longleftrightarrow>
     Reachable L = Reachable Other \<and> NotActive L = NotActive Other \<and>
     (\<not> UsedForTsan L \<or> AnyAcq L = AnyAcq Other \<and> AnyRel L = AnyRel Other)"

definition isActive :: "Lattice \<Rightarrow> nat \<Rightarrow> bool" where
  "isActive L i \<longleftrightarrow> bv_test (Reachable L) i \<and> \<not> bv_test (NotActive L) i"

definition isActive_order :: "Lattice \<Rightarrow> nat \<Rightarrow> bool \<Rightarrow> bool" where
  "isActive_order L i Acq \<longleftrightarrow> isActive L i \<and>
     ((Acq \<and> \<not> bv_test (AnyAcq L) i) \<or> (\<not> Acq \<and> \<not> bv_test (AnyRel L) i))"

section \<open>Block information\<close>

record BlockInvariant =
  UseGen :: BitVectorSet
  NotUseGen :: BitVectorSet
  Gen :: BitVectorSet
  GenAcq :: BitVectorSet
  GenRel :: BitVectorSet
  ContainsCall :: bool
  ContainsAcq :: bool
  ContainsRel :: bool

record BlockInfo =
  IN :: Lattice
  OUT :: Lattice
  Invariant :: BlockInvariant

definition extractMOPs :: "Func \<Rightarrow> inst_ref list" where
  "extractMOPs F =
     concat (map (\<lambda>b. map (\<lambda>(i, _). (b, i))
       (filter (\<lambda>(_, I). interesting I) (enumerate 0 (block_insts F b)))) [0..<length F])"

text \<open>A later duplicate overwrites the identifier of an earlier one.\<close>

definition initializeMopMaps :: "inst_ref list \<Rightarrow> (inst_ref \<Rightarrow> nat option)" where
  "initializeMopMaps MopList = fold (\<lambda>(i, p) m. m(p \<mapsto> i)) (enumerate 0 MopList) Map.empty"

text \<open>
  The reverse scan of \<open>getInitializedBlockInfo\<close>: one instruction, and the loop over
  the reversed block.
\<close>

definition init_step ::
  "(inst_ref \<Rightarrow> nat option) \<Rightarrow> bool \<Rightarrow> nat \<Rightarrow> nat \<times> Instruction \<Rightarrow> BlockInvariant \<Rightarrow> BlockInvariant"
where
  "init_step MopMap tsan b ii V =
     (case ii of (i, I) \<Rightarrow>
       let V = (if \<not> ContainsCall V \<and> clobbers I then V\<lparr>ContainsCall := True\<rparr> else V);
           V = (if tsan
                then let (a, r) = getAtomicInsnOrder I (ContainsAcq V, ContainsRel V)
                     in V\<lparr>ContainsAcq := a, ContainsRel := r\<rparr>
                else V)
       in if \<not> interesting I then V
          else case MopMap (b, i) of
              None \<Rightarrow> V
            | Some m \<Rightarrow>
                let V = V\<lparr>UseGen := (UseGen V)[m := True], NotUseGen := (NotUseGen V)[m := True]\<rparr>;
                    V = (if ContainsCall V then V\<lparr>Gen := (Gen V)[m := True]\<rparr> else V);
                    V = (if ContainsAcq V then V\<lparr>GenAcq := (GenAcq V)[m := True]\<rparr> else V)
                in (if ContainsRel V then V\<lparr>GenRel := (GenRel V)[m := True]\<rparr> else V))"

definition getInitializedBlockInfo ::
  "Func \<Rightarrow> inst_ref list \<Rightarrow> bool \<Rightarrow> nat \<Rightarrow> BlockInfo" where
  "getInitializedBlockInfo F MopList tsan b =
     (let NumMops = length MopList;
          TsanMops = (if tsan then NumMops else 0);
          V = \<lparr>UseGen = BitVector NumMops False, NotUseGen = BitVector NumMops False,
               Gen = BitVector NumMops False, GenAcq = BitVector TsanMops False,
               GenRel = BitVector TsanMops False,
               ContainsCall = False, ContainsAcq = False, ContainsRel = False\<rparr>;
          V = fold (init_step (initializeMopMaps MopList) tsan b)
                (rev (enumerate 0 (block_insts F b))) V
      in \<lparr>IN = new_Lattice NumMops tsan, OUT = new_Lattice NumMops tsan,
          Invariant = V\<lparr>NotUseGen := bv_flip (NotUseGen V)\<rparr>\<rparr>)"

definition initializeBlockInfo :: "Func \<Rightarrow> inst_ref list \<Rightarrow> bool \<Rightarrow> BlockInfo list" where
  "initializeBlockInfo F MopList tsan =
     map (getInitializedBlockInfo F MopList tsan) [0..<length F]"

section \<open>The data-flow iteration\<close>

definition transfer :: "BlockInfo \<Rightarrow> Lattice" where
  "transfer Info =
     (let V = Invariant Info; N = IN Info; tsan = UsedForTsan N;
          N = (if ContainsCall V then kill N else N);
          N = (if tsan \<and> ContainsAcq V then killAcq N else N);
          N = (if tsan \<and> ContainsRel V then killRel N else N);
          N = N\<lparr>Reachable := bv_or (Reachable N) (UseGen V)\<rparr>;
          N = N\<lparr>NotActive := bv_or (bv_and (NotActive N) (NotUseGen V)) (Gen V)\<rparr>
      in if tsan
         then N\<lparr>AnyAcq := bv_or (bv_and (AnyAcq N) (NotUseGen V)) (GenAcq V),
                AnyRel := bv_or (bv_and (AnyRel N) (NotUseGen V)) (GenRel V)\<rparr>
         else N)"

text \<open>The block infos are the analysis state; the result says whether \<open>OUT\<close> changed.\<close>

definition join_preds :: "Func \<Rightarrow> BlockInfo list \<Rightarrow> nat \<Rightarrow> Lattice" where
  "join_preds F infos b = fold (\<lambda>p L. join L (OUT (infos ! p))) (preds F b) (IN (infos ! b))"

definition updateInfo :: "Func \<Rightarrow> nat \<Rightarrow> BlockInfo list \<Rightarrow> bool \<times> BlockInfo list" where
  "updateInfo F b infos =
     (let Info = (infos ! b)\<lparr>IN := join_preds F infos b\<rparr>;
          NewOUT = transfer Info
      in if lattice_eq NewOUT (OUT Info) then (False, infos[b := Info])
         else (True, infos[b := Info\<lparr>OUT := NewOUT\<rparr>]))"

text \<open>\<open>SmallSetVector\<close>: insertion order, no duplicates.\<close>

definition sv_insert :: "nat list \<Rightarrow> nat \<Rightarrow> nat list" where
  "sv_insert ws b = (if b \<in> set ws then ws else ws @ [b])"
definition sv_remove :: "nat list \<Rightarrow> nat \<Rightarrow> nat list" where
  "sv_remove ws b = remove1 b ws"

fun sweep :: "Func \<Rightarrow> nat list \<Rightarrow> nat list \<times> BlockInfo list \<Rightarrow> nat list \<times> BlockInfo list" where
  "sweep F [] st = st"
| "sweep F (b # bs) (WorkList, infos) =
     (let WorkList = sv_remove WorkList b;
          infos = snd (updateInfo F b infos)
      in sweep F bs (foldl sv_insert WorkList (block_succs F b), infos))"

partial_function (option) iterate ::
  "Func \<Rightarrow> nat list \<Rightarrow> BlockInfo list \<Rightarrow> BlockInfo list option" where
  "iterate F WorkList infos =
     (if WorkList = [] then Some infos
      else let b = last WorkList; WorkList = butlast WorkList;
               (changed, infos) = updateInfo F b infos
           in if \<not> changed then iterate F WorkList infos
              else iterate F (foldl sv_insert WorkList (block_succs F b)) infos)"

declare iterate.simps [code]

text \<open>
  \<open>dataflowAnalyze\<close>; the order in which LLVM's \<open>ReversePostOrderTraversal\<close> visits
  the blocks is the argument \<open>RPOT\<close>.
\<close>

definition dataflowAnalyze ::
  "nat list \<Rightarrow> Func \<Rightarrow> inst_ref list \<Rightarrow> bool \<Rightarrow> BlockInfo list option" where
  "dataflowAnalyze RPOT F MopList tsan =
     (case sweep F RPOT ([], initializeBlockInfo F MopList tsan) of
        (WorkList, infos) \<Rightarrow> iterate F WorkList infos)"

record ActiveMopAnalysis =
  amaMopList :: "inst_ref list"
  amaMopMap :: "inst_ref \<Rightarrow> nat option"
  amaBlockInfoMap :: "BlockInfo list"
  Analyzed :: bool
  amaUsedForTsan :: bool

definition suitableToAnlyze :: "inst_ref list \<Rightarrow> bool" where
  "suitableToAnlyze MopList =
     (if MopList = [] then False
      else list_ex (\<lambda>p. fst p \<noteq> fst (hd MopList)) MopList)"

text \<open>The constructor; \<open>F.isDeclaration() || F.empty()\<close> is a function without blocks.\<close>

definition new_ActiveMopAnalysis ::
  "nat list \<Rightarrow> Func \<Rightarrow> inst_ref list \<Rightarrow> bool \<Rightarrow> ActiveMopAnalysis option" where
  "new_ActiveMopAnalysis RPOT F MOPs tsan =
     (let A = \<lparr>amaMopList = MOPs, amaMopMap = Map.empty, amaBlockInfoMap = [],
               Analyzed = False, amaUsedForTsan = tsan\<rparr>
      in if suitableToAnlyze MOPs \<and> F \<noteq> []
         then case dataflowAnalyze RPOT F MOPs tsan of
             None \<Rightarrow> None
           | Some infos \<Rightarrow> Some (A\<lparr>amaMopMap := initializeMopMaps MOPs,
                                   amaBlockInfoMap := infos, Analyzed := True\<rparr>)
         else Some A)"

section \<open>Queries\<close>

definition isMopActiveAfter :: "ActiveMopAnalysis \<Rightarrow> nat \<Rightarrow> nat \<Rightarrow> bool \<Rightarrow> bool" where
  "isMopActiveAfter A Mop b Acq =
     (let L = OUT (amaBlockInfoMap A ! b)
      in if amaUsedForTsan A then isActive_order L Mop Acq else isActive L Mop)"

definition isMopActiveBefore :: "ActiveMopAnalysis \<Rightarrow> nat \<Rightarrow> nat \<Rightarrow> bool \<Rightarrow> bool" where
  "isMopActiveBefore A Mop b Acq =
     (let L = IN (amaBlockInfoMap A ! b)
      in if amaUsedForTsan A then isActive_order L Mop Acq else isActive L Mop)"

text \<open>LLVM's \<open>getFirstNonPHIOrDbgOrLifetime\<close>, which skips pseudo probes too.\<close>

definition entry_skipped :: "Instruction \<Rightarrow> bool" where
  "entry_skipped I \<longleftrightarrow> opcode I = PHINode \<or> opcode I = DbgInfoIntrinsic \<or> isPseudoProbe I \<or>
     isLifetimeStartOrEnd I"

definition getFirstNonPHIOrDbgOrLifetime :: "Func \<Rightarrow> nat \<Rightarrow> inst_ref" where
  "getFirstNonPHIOrDbgOrLifetime F b = (b, length (takeWhile entry_skipped (block_insts F b)))"

definition sameBlockQuery ::
  "Func \<Rightarrow> bool \<Rightarrow> bool \<Rightarrow> inst_ref \<Rightarrow> inst_ref \<Rightarrow> bool option" where
  "sameBlockQuery F tsan Acq From To =
     (if tsan then isActiveInTheSameBlock_order F From To Acq else isActiveInTheSameBlock F From To)"

definition isOneMopActiveToAnother ::
  "Func \<Rightarrow> ActiveMopAnalysis \<Rightarrow> inst_ref \<Rightarrow> inst_ref \<Rightarrow> bool \<Rightarrow> bool option" where
  "isOneMopActiveToAnother F A From To IsToDead =
     (let FromBB = fst From; ToBB = fst To; ConsiderAcqOrRel = \<not> IsToDead;
          tsan = amaUsedForTsan A
      in if \<not> Analyzed A then
           (if FromBB = ToBB then sameBlockQuery F tsan ConsiderAcqOrRel From To else None)
         else case amaMopMap A From of
             None \<Rightarrow> None
           | Some FromId \<Rightarrow>
               if isMopActiveAfter A FromId ToBB ConsiderAcqOrRel then Some True
               else if FromBB = ToBB then sameBlockQuery F tsan ConsiderAcqOrRel From To
               else if \<not> isMopActiveBefore A FromId ToBB ConsiderAcqOrRel then Some False
               else sameBlockQuery F tsan ConsiderAcqOrRel
                      (getFirstNonPHIOrDbgOrLifetime F ToBB) To)"

end
