(* ===== verification/Active_Mop_Dataflow.thy ===== *)
theory Active_Mop_Dataflow
  imports Active_Mop
begin

text \<open>
  Correctness of the data-flow iteration of \<open>ActiveMopAnalysis\<close>: it terminates, and
  the bits it computes are exactly the meet-over-all-paths facts: a MOP is
  \<open>Reachable\<close> at a block exit iff a path leads there from the block that holds it
  without executing it again, and \<open>NotActive\<close> (\<open>AnyAcq\<close>, \<open>AnyRel\<close>) iff one of these
  paths crosses a clobbering call (an acquire, a release) after the MOP.
\<close>

section \<open>Bits\<close>

lemma bv_length [simp]:
  "length (BitVector n b) = n" "length (bv_flip v) = length v"
  "length (bv_or v w) = min (length v) (length w)" "length (bv_and v w) = min (length v) (length w)"
  by (simp_all add: BitVector_def bv_flip_def bv_or_def bv_and_def)

lemma bv_test_simps [simp]:
  "\<not> bv_test (BitVector n False) i"
  "length v = length w \<Longrightarrow> bv_test (bv_or v w) i \<longleftrightarrow> bv_test v i \<or> bv_test w i"
  "length v = length w \<Longrightarrow> bv_test (bv_and v w) i \<longleftrightarrow> bv_test v i \<and> bv_test w i"
  "bv_test (bv_flip v) i \<longleftrightarrow> i < length v \<and> \<not> bv_test v i"
  by (auto simp: bv_test_def BitVector_def bv_or_def bv_and_def bv_flip_def)

lemma bv_test_update [simp]:
  "bv_test (v[m := True]) i \<longleftrightarrow> bv_test v i \<or> (i = m \<and> m < length v)"
  by (cases "i = m") (auto simp: bv_test_def)

lemma bv_test_length: "bv_test v i \<Longrightarrow> i < length v"
  by (simp add: bv_test_def)

lemma bv_test_Nil [simp]: "\<not> bv_test [] i"
  by (simp add: bv_test_def)

lemma bv_eqI: "length v = length w \<Longrightarrow> (\<And>i. bv_test v i = bv_test w i) \<Longrightarrow> v = w"
  by (rule nth_equalityI) (auto simp: bv_test_def)

text \<open>
  The three kinds of events that end activeness, the vector of the lattice that
  records each, and the instructions that are such an event.
\<close>

datatype kind = KCall | KAcq | KRel

fun dirty :: "kind \<Rightarrow> Lattice \<Rightarrow> nat \<Rightarrow> bool" where
  "dirty KCall L = bv_test (NotActive L)"
| "dirty KAcq L = bv_test (AnyAcq L)"
| "dirty KRel L = bv_test (AnyRel L)"

fun event :: "bool \<Rightarrow> kind \<Rightarrow> Instruction \<Rightarrow> bool" where
  "event tsan KCall I = clobbers I"
| "event tsan KAcq I = (tsan \<and> acquires I)"
| "event tsan KRel I = (tsan \<and> releases I)"

fun gen :: "kind \<Rightarrow> BlockInvariant \<Rightarrow> nat \<Rightarrow> bool" where
  "gen KCall V = bv_test (Gen V)"
| "gen KAcq V = bv_test (GenAcq V)"
| "gen KRel V = bv_test (GenRel V)"

fun contains :: "kind \<Rightarrow> BlockInvariant \<Rightarrow> bool" where
  "contains KCall V = ContainsCall V"
| "contains KAcq V = ContainsAcq V"
| "contains KRel V = ContainsRel V"

definition reach :: "Lattice \<Rightarrow> nat \<Rightarrow> bool" where
  "reach L = bv_test (Reachable L)"
definition usegen :: "BlockInvariant \<Rightarrow> nat \<Rightarrow> bool" where
  "usegen V = bv_test (UseGen V)"

definition lat_wf :: "nat \<Rightarrow> bool \<Rightarrow> Lattice \<Rightarrow> bool" where
  "lat_wf n tsan L \<longleftrightarrow> UsedForTsan L = tsan \<and> length (Reachable L) = n \<and> length (NotActive L) = n \<and>
     length (AnyAcq L) = (if tsan then n else 0) \<and> length (AnyRel L) = (if tsan then n else 0)"

definition lat_le :: "Lattice \<Rightarrow> Lattice \<Rightarrow> bool" where
  "lat_le L M \<longleftrightarrow> (\<forall>m. (reach L m \<longrightarrow> reach M m) \<and> (\<forall>k. dirty k L m \<longrightarrow> dirty k M m))"

definition inv_wf :: "nat \<Rightarrow> bool \<Rightarrow> BlockInvariant \<Rightarrow> bool" where
  "inv_wf n tsan V \<longleftrightarrow> length (UseGen V) = n \<and> length (Gen V) = n \<and> NotUseGen V = bv_flip (UseGen V) \<and>
     length (GenAcq V) = (if tsan then n else 0) \<and> length (GenRel V) = (if tsan then n else 0) \<and>
     (\<forall>k m. gen k V m \<longrightarrow> usegen V m) \<and>
     (\<not> tsan \<longrightarrow> \<not> ContainsAcq V \<and> \<not> ContainsRel V)"

lemma lat_le_refl [simp]: "lat_le L L" by (simp add: lat_le_def)
lemma lat_le_trans: "lat_le L M \<Longrightarrow> lat_le M N \<Longrightarrow> lat_le L N" by (auto simp: lat_le_def)

lemma lat_eqI:
  assumes "lat_wf n t L" "lat_wf n t M" "lat_le L M" "lat_le M L"
  shows "lattice_eq L M"
proof -
  have r: "reach L m = reach M m" and d: "dirty k L m = dirty k M m" for m k
    using assms(3,4) by (auto simp: lat_le_def)
  show ?thesis
    using assms(1,2) r d [of KCall] d [of KAcq] d [of KRel]
    by (auto simp: lattice_eq_def lat_wf_def reach_def intro!: bv_eqI)
qed

lemma lat_eqD:
  assumes "lat_wf n t L" "lat_wf n t M" "lattice_eq L M"
  shows "reach L m = reach M m" "dirty k L m = dirty k M m"
  using assms by (cases k; cases t; simp add: lattice_eq_def lat_wf_def reach_def)+

lemma new_Lattice_bits [simp]:
  "lat_wf n t (new_Lattice n t)" "\<not> reach (new_Lattice n t) m" "\<not> dirty k (new_Lattice n t) m"
  by (cases k; simp add: lat_wf_def new_Lattice_def reach_def)+

lemma join_bits:
  assumes "lat_wf n t L" "lat_wf n t M"
  shows "lat_wf n t (join L M)"
    and "reach (join L M) m \<longleftrightarrow> reach L m \<or> reach M m"
    and "dirty k (join L M) m \<longleftrightarrow> dirty k L m \<or> dirty k M m"
proof -
  show "lat_wf n t (join L M)" using assms by (auto simp: lat_wf_def join_def Let_def)
  show "reach (join L M) m \<longleftrightarrow> reach L m \<or> reach M m"
    using assms by (auto simp: lat_wf_def join_def Let_def reach_def)
  show "dirty k (join L M) m \<longleftrightarrow> dirty k L m \<or> dirty k M m"
    using assms by (cases k; cases t) (auto simp: lat_wf_def join_def Let_def)
qed

lemma transfer_bits:
  assumes "lat_wf n t (IN B)" "inv_wf n t (Invariant B)"
  shows "lat_wf n t (transfer B)"
    and "reach (transfer B) m \<longleftrightarrow> reach (IN B) m \<or> usegen (Invariant B) m"
    and "dirty k (transfer B) m \<longleftrightarrow>
      (if usegen (Invariant B) m then gen k (Invariant B) m
       else if contains k (Invariant B) then reach (IN B) m else dirty k (IN B) m)"
proof -
  note defs = transfer_def lat_wf_def inv_wf_def Let_def kill_def killAcq_def killRel_def
  show "lat_wf n t (transfer B)" using assms by (auto simp: defs)
  show "reach (transfer B) m \<longleftrightarrow> reach (IN B) m \<or> usegen (Invariant B) m"
    using assms by (auto simp: defs reach_def usegen_def)
  have g: "gen k (Invariant B) m \<Longrightarrow> usegen (Invariant B) m" for k
    using assms(2) by (simp add: inv_wf_def)
  show "dirty k (transfer B) m \<longleftrightarrow>
      (if usegen (Invariant B) m then gen k (Invariant B) m
       else if contains k (Invariant B) then reach (IN B) m else dirty k (IN B) m)"
    using assms g [of k]
    by (cases k; cases t) (auto simp: defs reach_def usegen_def dest: bv_test_length)
qed

section \<open>What a block generates\<close>

lemma initializeMopMaps_Some:
  assumes "initializeMopMaps Mops p = Some m"
  shows "m < length Mops \<and> Mops ! m = p"
proof -
  have "\<lbrakk>fold (\<lambda>(i, p) M. M(p \<mapsto> i)) (enumerate j Mops) M p = Some m; M p \<noteq> Some m\<rbrakk> \<Longrightarrow>
        j \<le> m \<and> m < j + length Mops \<and> Mops ! (m - j) = p" for j M
  proof (induction Mops arbitrary: j M)
    case (Cons q qs)
    show ?case
    proof (cases "m = j \<and> q = p")
      case False
      then have "(M(q \<mapsto> j)) p \<noteq> Some m" using Cons.prems(2) by auto
      from Cons.prems(1) have "fold (\<lambda>(i, p) M. M(p \<mapsto> i)) (enumerate (Suc j) qs) (M(q \<mapsto> j)) p = Some m"
        by (simp del: fun_upd_apply)
      from Cons.IH [where j = "Suc j" and M = "M(q \<mapsto> j)", OF this \<open>(M(q \<mapsto> j)) p \<noteq> Some m\<close>]
      show ?thesis by (auto simp: nth_Cons')
    qed simp
  qed simp
  from this [of 0 Map.empty] assms show ?thesis by (simp add: initializeMopMaps_def)
qed

lemma initializeMopMaps_distinct:
  assumes "distinct Mops" "m < length Mops"
  shows "initializeMopMaps Mops (Mops ! m) = Some m"
proof -
  have "distinct Mops \<Longrightarrow> m < length Mops \<Longrightarrow>
        fold (\<lambda>(i, p) M. M(p \<mapsto> i)) (enumerate j Mops) M (Mops ! m) = Some (j + m)" for j M
  proof (induction Mops arbitrary: j m M)
    case (Cons q qs)
    have other: "fold (\<lambda>(i, p) M. M(p \<mapsto> i)) (enumerate j' qs) M' x = M' x" if "x \<notin> set qs" for j' M' x
      using that by (induction qs arbitrary: j' M') auto
    show ?case
    proof (cases m)
      case 0
      then show ?thesis using Cons.prems other [of q] by (simp del: fun_upd_apply) simp
    next
      case (Suc m')
      then show ?thesis using Cons.IH [of m' "Suc j"] Cons.prems by (simp del: fun_upd_apply)
    qed
  qed simp
  from this [of 0 Map.empty] assms show ?thesis by (simp add: initializeMopMaps_def)
qed

definition sized :: "nat \<Rightarrow> bool \<Rightarrow> BlockInvariant \<Rightarrow> bool" where
  "sized n t V \<longleftrightarrow> length (UseGen V) = n \<and> length (NotUseGen V) = n \<and> length (Gen V) = n \<and>
     length (GenAcq V) = (if t then n else 0) \<and> length (GenRel V) = (if t then n else 0) \<and>
     (\<not> t \<longrightarrow> \<not> ContainsAcq V \<and> \<not> ContainsRel V) \<and> NotUseGen V = UseGen V"

lemma init_step_bits:
  assumes "sized n t V" and MopMap: "MopMap = initializeMopMaps Mops" "n = length Mops"
  shows "sized n t (init_step MopMap t b (i, I) V)"
    and "contains k (init_step MopMap t b (i, I) V) \<longleftrightarrow> contains k V \<or> event t k I"
    and "usegen (init_step MopMap t b (i, I) V) m \<longleftrightarrow>
         usegen V m \<or> interesting I \<and> MopMap (b, i) = Some m"
    and "gen k (init_step MopMap t b (i, I) V) m \<longleftrightarrow>
         gen k V m \<or> interesting I \<and> MopMap (b, i) = Some m \<and> (contains k V \<or> event t k I)"
proof -
  have m: "MopMap (b, i) = Some m \<Longrightarrow> m < n" for m
    using initializeMopMaps_Some MopMap by blast
  note defs = init_step_def Let_def sized_def usegen_def
  show "sized n t (init_step MopMap t b (i, I) V)"
    using assms(1) by (auto simp: defs split: option.splits)
  show "contains k (init_step MopMap t b (i, I) V) \<longleftrightarrow> contains k V \<or> event t k I"
    using assms(1) by (cases k; cases t) (auto simp: defs split: option.splits)
  show "usegen (init_step MopMap t b (i, I) V) m \<longleftrightarrow>
         usegen V m \<or> interesting I \<and> MopMap (b, i) = Some m"
    using assms(1) m by (auto simp: defs split: option.splits)
  show "gen k (init_step MopMap t b (i, I) V) m \<longleftrightarrow>
         gen k V m \<or> interesting I \<and> MopMap (b, i) = Some m \<and> (contains k V \<or> event t k I)"
    using assms(1) m by (cases k; cases t) (auto simp: defs split: option.splits)
qed

lemma init_scan_bits:
  fixes xs :: "Instruction list" and b j :: nat
  assumes "sized n t V0" "\<And>m. \<not> usegen V0 m" "\<And>k m. \<not> gen k V0 m" "\<And>k. \<not> contains k V0"
    and MopMap: "MopMap = initializeMopMaps Mops" "n = length Mops"
  defines "V \<equiv> \<lambda>j xs. foldr (init_step MopMap t b) (enumerate j xs) V0"
  shows "sized n t (V j xs)"
    and "contains k (V j xs) \<longleftrightarrow> (\<exists>I \<in> set xs. event t k I)"
    and "usegen (V j xs) m \<longleftrightarrow>
         (\<exists>i < length xs. interesting (xs ! i) \<and> MopMap (b, j + i) = Some m)"
    and "gen k (V j xs) m \<longleftrightarrow>
         (\<exists>i < length xs. interesting (xs ! i) \<and> MopMap (b, j + i) = Some m \<and>
            (\<exists>I \<in> set (drop i xs). event t k I))"
proof -
  have ex: "(\<exists>i < Suc n. P i) \<longleftrightarrow> P 0 \<or> (\<exists>i < n. P (Suc i))" for P n
    by (metis Suc_less_eq gr0_conv_Suc not_gr_zero zero_less_Suc)
  have *: "sized n t (V j xs) \<and> (\<forall>k. contains k (V j xs) \<longleftrightarrow> (\<exists>I \<in> set xs. event t k I)) \<and>
    (\<forall>m. usegen (V j xs) m \<longleftrightarrow> (\<exists>i < length xs. interesting (xs ! i) \<and> MopMap (b, j + i) = Some m)) \<and>
    (\<forall>k m. gen k (V j xs) m \<longleftrightarrow> (\<exists>i < length xs. interesting (xs ! i) \<and> MopMap (b, j + i) = Some m \<and>
            (\<exists>I \<in> set (drop i xs). event t k I)))"
  proof (induction xs arbitrary: j)
    case Nil
    then show ?case using assms(1-4) by (simp add: V_def)
  next
    case (Cons x xs)
    have V: "V j (x # xs) = init_step MopMap t b (j, x) (V (Suc j) xs)" by (simp add: V_def)
    note IH = Cons.IH [of "Suc j"]
    note step = init_step_bits [OF conjunct1 [OF IH] MopMap, where b = b and i = j and I = x]
    show ?case unfolding V using IH step by (simp add: ex) blast
  qed
  show "sized n t (V j xs)" "contains k (V j xs) \<longleftrightarrow> (\<exists>I \<in> set xs. event t k I)"
    "usegen (V j xs) m \<longleftrightarrow> (\<exists>i < length xs. interesting (xs ! i) \<and> MopMap (b, j + i) = Some m)"
    "gen k (V j xs) m \<longleftrightarrow> (\<exists>i < length xs. interesting (xs ! i) \<and> MopMap (b, j + i) = Some m \<and>
            (\<exists>I \<in> set (drop i xs). event t k I))"
    using * by blast+
qed

lemma block_invariant_bits:
  fixes b :: nat and F :: Func and Mops :: "inst_ref list" and t :: bool
  defines "V \<equiv> Invariant (getInitializedBlockInfo F Mops t b)"
  shows "inv_wf (length Mops) t V"
    and "contains k V \<longleftrightarrow> (\<exists>I \<in> set (block_insts F b). event t k I)"
    and "usegen V m \<longleftrightarrow> (\<exists>i < length (block_insts F b).
           interesting (block_insts F b ! i) \<and> initializeMopMaps Mops (b, i) = Some m)"
    and "gen k V m \<longleftrightarrow> (\<exists>i < length (block_insts F b).
           interesting (block_insts F b ! i) \<and> initializeMopMaps Mops (b, i) = Some m \<and>
           (\<exists>I \<in> set (drop i (block_insts F b)). event t k I))"
proof -
  let ?n = "length Mops"
  let ?V0 = "\<lparr>UseGen = BitVector ?n False, NotUseGen = BitVector ?n False, Gen = BitVector ?n False,
     GenAcq = BitVector (if t then ?n else 0) False, GenRel = BitVector (if t then ?n else 0) False,
     ContainsCall = False, ContainsAcq = False, ContainsRel = False\<rparr>"
  have 0: "sized ?n t ?V0" "\<not> usegen ?V0 m" "\<not> gen k ?V0 m" "\<not> contains k ?V0" for k m
    by (cases k; simp add: sized_def usegen_def)+
  define W where "W = foldr (init_step (initializeMopMaps Mops) t b) (enumerate 0 (block_insts F b)) ?V0"
  note bits = init_scan_bits [OF 0 refl refl, where b = b and j = 0 and xs = "block_insts F b", folded W_def]
  have V: "V = W\<lparr>NotUseGen := bv_flip (NotUseGen W)\<rparr>"
    by (simp add: V_def W_def getInitializedBlockInfo_def Let_def foldr_conv_fold)
  have same: "usegen V = usegen W" "gen k V = gen k W" "contains k V = contains k W" for k
    by (cases k; simp add: V usegen_def)+
  show "contains k V \<longleftrightarrow> (\<exists>I \<in> set (block_insts F b). event t k I)"
    "usegen V m \<longleftrightarrow> (\<exists>i < length (block_insts F b).
       interesting (block_insts F b ! i) \<and> initializeMopMaps Mops (b, i) = Some m)"
    "gen k V m \<longleftrightarrow> (\<exists>i < length (block_insts F b).
       interesting (block_insts F b ! i) \<and> initializeMopMaps Mops (b, i) = Some m \<and>
       (\<exists>I \<in> set (drop i (block_insts F b)). event t k I))"
    unfolding same using bits by simp_all
  then have "gen k V m \<Longrightarrow> usegen V m" for k m unfolding same using bits by auto
  with bits(1) show "inv_wf ?n t V" by (auto simp: inv_wf_def sized_def V)
qed

section \<open>Paths\<close>

definition edge :: "Func \<Rightarrow> nat \<Rightarrow> nat \<Rightarrow> bool" where
  "edge F b c \<longleftrightarrow> c \<in> set (block_succs F b)"

definition block_inv :: "Func \<Rightarrow> inst_ref list \<Rightarrow> bool \<Rightarrow> nat \<Rightarrow> BlockInvariant" where
  "block_inv F Mops t b = Invariant (getInitializedBlockInfo F Mops t b)"

text \<open>
  \<open>mop_path R E H p b cs\<close>: from block \<open>p\<close> of \<open>R\<close>, which holds the MOP, control can reach
  the end of \<open>b\<close> through the blocks \<open>cs\<close> (the last of them is \<open>b\<close>), none of which
  holds the MOP.
\<close>

inductive mop_path ::
  "nat set \<Rightarrow> (nat \<Rightarrow> nat \<Rightarrow> bool) \<Rightarrow> (nat \<Rightarrow> bool) \<Rightarrow> nat \<Rightarrow> nat \<Rightarrow> nat list \<Rightarrow> bool"
  for R E H
where
  mop_path_start: "p \<in> R \<Longrightarrow> H p \<Longrightarrow> mop_path R E H p p []"
| mop_path_step: "mop_path R E H p b cs \<Longrightarrow> E b c \<Longrightarrow> \<not> H c \<Longrightarrow> mop_path R E H p c (cs @ [c])"

definition dirty_path :: "(nat \<Rightarrow> BlockInvariant) \<Rightarrow> kind \<Rightarrow> nat \<Rightarrow> nat \<Rightarrow> nat list \<Rightarrow> bool" where
  "dirty_path V k m p cs \<longleftrightarrow> gen k (V p) m \<or> (\<exists>c \<in> set cs. contains k (V c))"

text \<open>The bits at the end of a block that are the exact path facts.\<close>

abbreviation path_to where
  "path_to R F V m \<equiv> mop_path R (edge F) (\<lambda>b. usegen (V b) m)"

definition out_justified where
  "out_justified R F V b L \<longleftrightarrow>
     (\<forall>m. (reach L m \<longrightarrow> (\<exists>p cs. path_to R F V m p b cs)) \<and>
      (\<forall>k. dirty k L m \<longrightarrow> (\<exists>p cs. path_to R F V m p b cs \<and> dirty_path V k m p cs)))"

definition in_justified where
  "in_justified R F V b L \<longleftrightarrow>
     (\<forall>m. (reach L m \<longrightarrow> (\<exists>d p cs. edge F d b \<and> path_to R F V m p d cs)) \<and>
      (\<forall>k. dirty k L m \<longrightarrow>
         (\<exists>d p cs. edge F d b \<and> path_to R F V m p d cs \<and> dirty_path V k m p cs)))"

lemma transfer_justified:
  assumes wf: "lat_wf n t (IN B)" "inv_wf n t (Invariant B)" "Invariant B = V b"
    and "b \<in> R" and I: "in_justified R F V b (IN B)"
  shows "out_justified R F V b (transfer B)"
  unfolding out_justified_def
proof (intro allI conjI impI)
  fix m
  have here: "path_to R F V m b b []" if "usegen (V b) m"
    using that \<open>b \<in> R\<close> by (rule mop_path_start [rotated])
  show "\<exists>p cs. path_to R F V m p b cs" if "reach (transfer B) m"
    using that I here wf mop_path_step [of R "edge F" "\<lambda>b. usegen (V b) m" _ _ _ b]
    unfolding in_justified_def transfer_bits [OF wf(1,2)] by metis
  fix k assume d: "dirty k (transfer B) m"
  show "\<exists>p cs. path_to R F V m p b cs \<and> dirty_path V k m p cs"
  proof (cases "usegen (V b) m")
    case True
    with d wf(3) have "gen k (V b) m" by (simp add: transfer_bits [OF wf(1,2)])
    with here [OF True] show ?thesis by (auto simp: dirty_path_def)
  next
    case False
    with d wf(3) have *: "if contains k (V b) then reach (IN B) m else dirty k (IN B) m"
      by (simp add: transfer_bits [OF wf(1,2)])
    obtain d p cs where path: "edge F d b" "path_to R F V m p d cs"
      and dp: "contains k (V b) \<or> dirty_path V k m p cs"
    proof (cases "contains k (V b)")
      case True
      then show ?thesis using * I that unfolding in_justified_def by metis
    next
      case False
      then show ?thesis using * I that unfolding in_justified_def by metis
    qed
    have "path_to R F V m p b (cs @ [b])" using path False by (intro mop_path_step)
    moreover have "dirty_path V k m p (cs @ [b])" using dp by (auto simp: dirty_path_def)
    ultimately show ?thesis by blast
  qed
qed

lemma join_justified:
  assumes "lat_wf n t L" "lat_wf n t O'" "in_justified R F V b L" "out_justified R F V d O'" "edge F d b"
  shows "in_justified R F V b (join L O')"
  using assms(3-5) unfolding in_justified_def out_justified_def join_bits [OF assms(1,2)] by blast

section \<open>One update\<close>

definition infos_ok where
  "infos_ok F Mops t infos \<longleftrightarrow> length infos = length F \<and>
     (\<forall>b < length F. lat_wf (length Mops) t (IN (infos ! b)) \<and> lat_wf (length Mops) t (OUT (infos ! b)) \<and>
        Invariant (infos ! b) = block_inv F Mops t b)"

lemma block_inv_wf: "inv_wf (length Mops) t (block_inv F Mops t b)"
  unfolding block_inv_def by (rule block_invariant_bits)

lemma preds_edge: "p \<in> set (preds F b) \<longleftrightarrow> p < length F \<and> edge F p b"
  by (auto simp: preds_def edge_def block_succs_def)

lemma join_fold:
  assumes "lat_wf n t L" "\<forall>p \<in> set ps. lat_wf n t (f p)"
  shows "lat_wf n t (fold (\<lambda>p L. join L (f p)) ps L)"
    and "reach (fold (\<lambda>p L. join L (f p)) ps L) m \<longleftrightarrow> reach L m \<or> (\<exists>p \<in> set ps. reach (f p) m)"
    and "dirty k (fold (\<lambda>p L. join L (f p)) ps L) m \<longleftrightarrow> dirty k L m \<or> (\<exists>p \<in> set ps. dirty k (f p) m)"
proof -
  have "lat_wf n t (fold (\<lambda>p L. join L (f p)) ps L) \<and>
    (reach (fold (\<lambda>p L. join L (f p)) ps L) m \<longleftrightarrow> reach L m \<or> (\<exists>p \<in> set ps. reach (f p) m)) \<and>
    (dirty k (fold (\<lambda>p L. join L (f p)) ps L) m \<longleftrightarrow> dirty k L m \<or> (\<exists>p \<in> set ps. dirty k (f p) m))"
    using assms
  proof (induction ps arbitrary: L)
    case (Cons p ps)
    then show ?case using join_bits [of n t L "f p"] by auto
  qed simp
  then show "lat_wf n t (fold (\<lambda>p L. join L (f p)) ps L)"
    "reach (fold (\<lambda>p L. join L (f p)) ps L) m \<longleftrightarrow> reach L m \<or> (\<exists>p \<in> set ps. reach (f p) m)"
    "dirty k (fold (\<lambda>p L. join L (f p)) ps L) m \<longleftrightarrow> dirty k L m \<or> (\<exists>p \<in> set ps. dirty k (f p) m)"
    by blast+
qed

lemma join_preds_bits:
  assumes "infos_ok F Mops t infos" "b < length F"
  shows "lat_wf (length Mops) t (join_preds F infos b)"
    and "reach (join_preds F infos b) m \<longleftrightarrow> reach (IN (infos ! b)) m \<or>
          (\<exists>p < length F. edge F p b \<and> reach (OUT (infos ! p)) m)"
    and "dirty k (join_preds F infos b) m \<longleftrightarrow> dirty k (IN (infos ! b)) m \<or>
          (\<exists>p < length F. edge F p b \<and> dirty k (OUT (infos ! p)) m)"
proof -
  have wf: "lat_wf (length Mops) t (IN (infos ! b))"
    "\<forall>p \<in> set (preds F b). lat_wf (length Mops) t (OUT (infos ! p))"
    using assms by (auto simp: infos_ok_def preds_edge)
  note fold = join_fold [OF wf]
  show "lat_wf (length Mops) t (join_preds F infos b)" unfolding join_preds_def by (rule fold(1))
  show "reach (join_preds F infos b) m \<longleftrightarrow> reach (IN (infos ! b)) m \<or>
          (\<exists>p < length F. edge F p b \<and> reach (OUT (infos ! p)) m)"
    unfolding join_preds_def fold(2) by (auto simp: preds_edge)
  show "dirty k (join_preds F infos b) m \<longleftrightarrow> dirty k (IN (infos ! b)) m \<or>
          (\<exists>p < length F. edge F p b \<and> dirty k (OUT (infos ! p)) m)"
    unfolding join_preds_def fold(3) by (auto simp: preds_edge)
qed

text \<open>
  The invariant of the whole iteration.  \<open>R\<close> is the set of blocks the iteration
  ever updates.
\<close>

definition flow_inv where
  "flow_inv F Mops t R infos \<longleftrightarrow> infos_ok F Mops t infos \<and>
     (\<forall>b < length F. lat_le (OUT (infos ! b)) (transfer (infos ! b)) \<and>
        in_justified R F (block_inv F Mops t) b (IN (infos ! b)) \<and>
        out_justified R F (block_inv F Mops t) b (OUT (infos ! b)))"

definition stable where
  "stable F infos b \<longleftrightarrow> lat_le (transfer (infos ! b)) (OUT (infos ! b)) \<and>
     (\<forall>p < length F. edge F p b \<longrightarrow> lat_le (OUT (infos ! p)) (IN (infos ! b)))"

lemma transfer_mono:
  assumes "lat_wf n t (IN A)" "lat_wf n t (IN B)" "inv_wf n t V" "Invariant A = V" "Invariant B = V"
    and "lat_le (IN A) (IN B)"
  shows "lat_le (transfer A) (transfer B)"
  using assms(6) assms(3) assms(4,5) unfolding lat_le_def
  by (simp add: transfer_bits [OF assms(1)] transfer_bits [OF assms(2)])

text \<open>What one call of \<open>updateInfo\<close> does to the state.\<close>

definition update_at where
  "update_at F Mops t b infos ch infos' \<longleftrightarrow>
     infos_ok F Mops t infos \<and> b < length F \<and> updateInfo F b infos = (ch, infos')"

lemma update_atD:
  assumes "update_at F Mops t b infos ch infos'"
  shows "infos_ok F Mops t infos" "b < length F" "updateInfo F b infos = (ch, infos')"
    "b < length infos"
  using assms by (auto simp: update_at_def infos_ok_def)

lemma transfer_OUT [simp]: "transfer (B\<lparr>OUT := X\<rparr>) = transfer B"
  by (simp add: transfer_def)

lemma update_result:
  assumes "update_at F Mops t b infos ch infos'"
  defines "B \<equiv> (infos ! b)\<lparr>IN := join_preds F infos b\<rparr>"
  shows "infos' = infos[b := if ch then B\<lparr>OUT := transfer B\<rparr> else B]"
    and "ch \<longleftrightarrow> \<not> lattice_eq (transfer B) (OUT (infos ! b))"
  using update_atD(3) [OF assms(1)] by (auto simp: updateInfo_def Let_def B_def split: if_splits)

lemma update_other:
  "update_at F Mops t b infos ch infos' \<Longrightarrow> c \<noteq> b \<Longrightarrow> infos' ! c = infos ! c"
  by (drule update_result(1)) simp

lemma update_fields:
  assumes "update_at F Mops t b infos ch infos'"
  shows "length infos' = length F" "IN (infos' ! b) = join_preds F infos b"
    "Invariant (infos' ! b) = block_inv F Mops t b"
    "OUT (infos' ! b) = (if ch then transfer (infos' ! b) else OUT (infos ! b))"
    "lat_wf (length Mops) t (IN (infos' ! b))"
  using update_result(1) [OF assms] update_atD [OF assms] join_preds_bits(1) [of F Mops t infos b]
  by (auto simp: infos_ok_def)

lemma update_transfer_wf:
  assumes "update_at F Mops t b infos ch infos'"
  shows "lat_wf (length Mops) t (transfer (infos' ! b))"
  using transfer_bits(1) [OF update_fields(5) [OF assms]] block_inv_wf
  by (simp add: update_fields(3) [OF assms])

lemma update_ok:
  assumes u: "update_at F Mops t b infos ch infos'"
  shows "infos_ok F Mops t infos'"
  unfolding infos_ok_def
proof (intro conjI allI impI)
  fix c assume "c < length F"
  then show "lat_wf (length Mops) t (IN (infos' ! c))" "lat_wf (length Mops) t (OUT (infos' ! c))"
    "Invariant (infos' ! c) = block_inv F Mops t c"
    using update_fields [OF u] update_transfer_wf [OF u] update_other [OF u, of c] update_atD(1,2) [OF u]
    by (cases "c = b"; auto simp: infos_ok_def)+
qed (rule update_fields(1) [OF u])

lemma update_IN_ge:
  assumes u: "update_at F Mops t b infos ch infos'"
  shows "lat_le (IN (infos ! b)) (IN (infos' ! b))"
    and "p < length F \<Longrightarrow> edge F p b \<Longrightarrow> lat_le (OUT (infos ! p)) (IN (infos' ! b))"
  unfolding lat_le_def update_fields(2) [OF u] join_preds_bits(2,3) [OF update_atD(1,2) [OF u]]
  by blast+

lemma update_transfer_ge:
  assumes u: "update_at F Mops t b infos ch infos'"
  shows "lat_le (transfer (infos ! b)) (transfer (infos' ! b))"
  using update_atD(1,2) [OF u] update_fields(3,5) [OF u] update_IN_ge(1) [OF u]
  by (intro transfer_mono [where V = "block_inv F Mops t b" and n = "length Mops" and t = t])
     (auto simp: infos_ok_def block_inv_wf)

lemma update_OUT_eq:
  assumes u: "update_at F Mops t b infos ch infos'"
  shows "lat_le (OUT (infos' ! b)) (transfer (infos' ! b))"
    and "lat_le (transfer (infos' ! b)) (OUT (infos' ! b))"
proof -
  have "lat_le (OUT (infos ! b)) (transfer (infos' ! b)) \<and> lat_le (transfer (infos' ! b)) (OUT (infos ! b))"
    if "\<not> ch"
  proof -
    have "lattice_eq (transfer (infos' ! b)) (OUT (infos ! b))"
      using update_result [OF u] that update_atD(4) [OF u] by simp
    moreover have "lat_wf (length Mops) t (OUT (infos ! b))"
      using update_atD(1,2) [OF u] by (simp add: infos_ok_def)
    ultimately show ?thesis
      using lat_eqD [OF update_transfer_wf [OF u]] by (auto simp: lat_le_def)
  qed
  then show "lat_le (OUT (infos' ! b)) (transfer (infos' ! b))"
    "lat_le (transfer (infos' ! b)) (OUT (infos' ! b))"
    by (cases ch; simp add: update_fields(4) [OF u])+
qed

lemma update_OUT_ge:
  assumes u: "update_at F Mops t b infos ch infos'" and "lat_le (OUT (infos ! b)) (transfer (infos ! b))"
  shows "lat_le (OUT (infos ! b)) (OUT (infos' ! b))"
  using lat_le_trans [OF lat_le_trans [OF assms(2) update_transfer_ge [OF u]] update_OUT_eq(2) [OF u]] .

lemma update_changed:
  assumes u: "update_at F Mops t b infos ch infos'" and "ch"
    and le: "lat_le (OUT (infos ! b)) (OUT (infos' ! b))"
  shows "\<not> lat_le (OUT (infos' ! b)) (OUT (infos ! b))"
proof
  assume "lat_le (OUT (infos' ! b)) (OUT (infos ! b))"
  moreover have "lat_wf (length Mops) t (OUT (infos ! b))" "lat_wf (length Mops) t (OUT (infos' ! b))"
    using update_atD(1,2) [OF u] update_ok [OF u] by (auto simp: infos_ok_def)
  ultimately have "lattice_eq (OUT (infos' ! b)) (OUT (infos ! b))"
    using le by (intro lat_eqI)
  then show False
    using update_result [OF u] \<open>ch\<close> update_atD(4) [OF u] by simp
qed

lemma update_stable:
  assumes u: "update_at F Mops t b infos ch infos'"
    and c: "c = b \<or> stable F infos c" and e: "\<not> ch \<or> \<not> edge F b c"
  shows "stable F infos' c"
proof -
  have p: "lat_le (OUT (infos' ! p)) (OUT (infos ! p))" if "edge F p c" for p
    using e that update_fields(4) [OF u] update_other [OF u, of p] by (cases "p = b") auto
  show ?thesis
  proof (cases "c = b")
    case True
    with p update_OUT_eq(2) [OF u] update_IN_ge(2) [OF u] show ?thesis
      unfolding stable_def by (metis lat_le_trans)
  next
    case False
    with p c update_other [OF u, of c] show ?thesis unfolding stable_def by (metis lat_le_trans)
  qed
qed

lemma fold_join_justified:
  assumes "lat_wf n t L" "in_justified R F V b L"
    and "\<forall>p \<in> set ps. lat_wf n t (f p) \<and> out_justified R F V p (f p) \<and> edge F p b"
  shows "in_justified R F V b (fold (\<lambda>p L. join L (f p)) ps L)"
  using assms by (induction ps arbitrary: L) (auto intro: join_justified join_bits(1))

lemma update_inv:
  assumes u: "update_at F Mops t b infos ch infos'"
    and inv: "flow_inv F Mops t R infos" and "b \<in> R"
  shows "flow_inv F Mops t R infos'"
proof -
  let ?V = "block_inv F Mops t"
  have "\<forall>p \<in> set (preds F b). lat_wf (length Mops) t (OUT (infos ! p)) \<and>
      out_justified R F ?V p (OUT (infos ! p)) \<and> edge F p b"
    using inv by (auto simp: flow_inv_def infos_ok_def preds_edge)
  then have in': "in_justified R F ?V b (IN (infos' ! b))"
    unfolding update_fields(2) [OF u] join_preds_def
    using inv update_atD(2) [OF u] by (intro fold_join_justified) (auto simp: flow_inv_def infos_ok_def)
  then have "out_justified R F ?V b (transfer (infos' ! b))"
    using update_fields [OF u] block_inv_wf assms(3)
    by (intro transfer_justified [where n = "length Mops" and t = t]) auto
  then have out': "out_justified R F ?V b (OUT (infos' ! b))"
    using inv update_atD(2) [OF u] update_fields(4) [OF u] by (auto simp: flow_inv_def)
  show ?thesis
    unfolding flow_inv_def
  proof (intro conjI allI impI)
    fix c assume "c < length F"
    then show "lat_le (OUT (infos' ! c)) (transfer (infos' ! c))"
      "in_justified R F ?V c (IN (infos' ! c))" "out_justified R F ?V c (OUT (infos' ! c))"
      using inv in' out' update_OUT_eq(1) [OF u] update_other [OF u, of c]
      by (cases "c = b"; auto simp: flow_inv_def)+
  qed (rule update_ok [OF u])
qed

section \<open>Termination of the worklist\<close>

definition lat_bits :: "Lattice \<Rightarrow> (kind option \<times> nat) set" where
  "lat_bits L = {(None, m) | m. reach L m} \<union> {(Some k, m) | k m. dirty k L m}"

lemma lat_bits_le: "lat_bits L \<subseteq> lat_bits M \<longleftrightarrow> lat_le L M"
proof -
  have "(None, m) \<in> lat_bits N \<longleftrightarrow> reach N m" "(Some k, m) \<in> lat_bits N \<longleftrightarrow> dirty k N m" for N m k
    by (auto simp: lat_bits_def)
  then show ?thesis unfolding lat_le_def subset_iff split_paired_All
    by (metis option.exhaust)
qed

lemma lat_bits_bounded:
  assumes "lat_wf n t L"
  shows "lat_bits L \<subseteq> {None, Some KCall, Some KAcq, Some KRel} \<times> {..<n}"
proof
  fix x assume "x \<in> lat_bits L"
  then consider m where "x = (None, m)" "reach L m" | k m where "x = (Some k, m)" "dirty k L m"
    by (auto simp: lat_bits_def)
  then show "x \<in> {None, Some KCall, Some KAcq, Some KRel} \<times> {..<n}"
  proof cases
    case 1
    then show ?thesis using assms by (auto simp: reach_def lat_wf_def dest: bv_test_length)
  next
    case (2 k m)
    then show ?thesis using assms
      by (cases k) (auto simp: lat_wf_def dest!: bv_test_length split: if_splits)
  qed
qed

lemma finite_lat_bits: "lat_wf n t L \<Longrightarrow> finite (lat_bits L) \<and> card (lat_bits L) \<le> 4 * n"
proof
  assume wf: "lat_wf n t L"
  have fin: "finite ({None, Some KCall, Some KAcq, Some KRel} \<times> {..<n})" by simp
  then show "finite (lat_bits L)" by (rule finite_subset [OF lat_bits_bounded [OF wf]])
  have "card (lat_bits L) \<le> card ({None, Some KCall, Some KAcq, Some KRel} \<times> {..<n})"
    by (rule card_mono [OF fin lat_bits_bounded [OF wf]])
  then show "card (lat_bits L) \<le> 4 * n" by (simp add: card_cartesian_product)
qed

definition set_bits_count :: "Func \<Rightarrow> BlockInfo list \<Rightarrow> nat" where
  "set_bits_count F infos = (\<Sum>b < length F. card (lat_bits (OUT (infos ! b))))"

lemma set_bits_bound:
  "infos_ok F Mops t infos \<Longrightarrow> set_bits_count F infos \<le> length F * (4 * length Mops)"
  unfolding set_bits_count_def infos_ok_def
  using sum_bounded_above [of "{..<length F}" "\<lambda>b. card (lat_bits (OUT (infos ! b)))" "4 * length Mops"]
    finite_lat_bits by (auto simp: mult.commute)

lemma update_count:
  assumes u: "update_at F Mops t b infos True infos'" and inv: "flow_inv F Mops t R infos"
  shows "set_bits_count F infos < set_bits_count F infos'"
proof -
  have le: "lat_le (OUT (infos ! b)) (OUT (infos' ! b))"
    using inv update_atD(2) [OF u] by (intro update_OUT_ge [OF u]) (auto simp: flow_inv_def)
  have wf: "lat_wf (length Mops) t (OUT (infos' ! b))"
    using update_ok [OF u] update_atD(2) [OF u] by (simp add: infos_ok_def)
  have "lat_bits (OUT (infos ! b)) \<subset> lat_bits (OUT (infos' ! b))"
    using le update_changed [OF u TrueI le] by (auto simp: lat_bits_le [symmetric])
  then have lt: "card (lat_bits (OUT (infos ! b))) < card (lat_bits (OUT (infos' ! b)))"
    using finite_lat_bits [OF wf] by (intro psubset_card_mono) auto
  have same: "c \<noteq> b \<Longrightarrow> card (lat_bits (OUT (infos' ! c))) = card (lat_bits (OUT (infos ! c)))" for c
    using update_other [OF u] by simp
  show ?thesis
    unfolding set_bits_count_def
  proof (rule sum_strict_mono_ex1)
    show "\<forall>c \<in> {..<length F}. card (lat_bits (OUT (infos ! c))) \<le> card (lat_bits (OUT (infos' ! c)))"
      using lt same by (metis less_imp_le order_refl)
    show "\<exists>c \<in> {..<length F}. card (lat_bits (OUT (infos ! c))) < card (lat_bits (OUT (infos' ! c)))"
      using lt update_atD(2) [OF u] by blast
  qed simp
qed

lemma set_sv_insert [simp]: "set (foldl sv_insert ws bs) = set ws \<union> set bs"
  by (induction bs arbitrary: ws) (auto simp: sv_insert_def)

text \<open>The blocks the analysis visits: closed under successors.\<close>

definition visited_ok where
  "visited_ok F R \<longleftrightarrow> R \<subseteq> {..<length F} \<and> (\<forall>b \<in> R. set (block_succs F b) \<subseteq> R)"

lemma iterate_correct:
  assumes R: "visited_ok F R" and "flow_inv F Mops t R infos" "set ws \<subseteq> R"
    and "\<forall>b \<in> R. b \<in> set ws \<or> stable F infos b"
  shows "\<exists>infos'. iterate F ws infos = Some infos' \<and> flow_inv F Mops t R infos' \<and>
           (\<forall>b \<in> R. stable F infos' b)"
  using assms(2-)
proof (induction "(length F * (4 * length Mops) - set_bits_count F infos, length ws)"
    arbitrary: ws infos rule: wf_induct_rule [OF wf_lex_prod [OF wf_less wf_less]])
  case (1 ws infos)
  note IH = 1(1) and inv = 1(2) and ws = 1(3) and pending = 1(4)
  show ?case
  proof (cases "ws = []")
    case True
    then show ?thesis using inv pending by (subst iterate.simps) auto
  next
    case False
    let ?b = "last ws"
    have b: "?b \<in> R" using last_in_set [OF False] ws by blast
    then have bF: "?b < length F" using R by (auto simp: visited_ok_def)
    note b = b bF
    obtain ch infos' where up: "updateInfo F ?b infos = (ch, infos')" by fastforce
    then have u: "update_at F Mops t ?b infos ch infos'"
      using b inv by (simp add: update_at_def flow_inv_def)
    have inv': "flow_inv F Mops t R infos'" by (rule update_inv [OF u inv b(1)])
    have bl: "set ws = insert ?b (set (butlast ws))"
      using False by (metis append_butlast_last_id list.simps(15) rotate1.simps(2) set_rotate1)
    let ?ws = "if ch then foldl sv_insert (butlast ws) (block_succs F ?b) else butlast ws"
    have it: "iterate F ws infos = iterate F ?ws infos'"
      using False up by (subst iterate.simps) (simp add: Let_def)
    have ws': "set ?ws \<subseteq> R" using ws bl b(1) R by (auto simp: visited_ok_def)
    have pend': "\<forall>c \<in> R. c \<in> set ?ws \<or> stable F infos' c"
    proof
      fix c assume "c \<in> R"
      show "c \<in> set ?ws \<or> stable F infos' c"
      proof (cases "c \<in> set ?ws")
        case False
        then have "\<not> ch \<or> \<not> edge F ?b c" "c \<notin> set (butlast ws)" by (auto simp: edge_def split: if_splits)
        moreover from this have "c = ?b \<or> stable F infos c" using pending \<open>c \<in> R\<close> bl by auto
        ultimately show ?thesis using update_stable [OF u] by blast
      qed simp
    qed
    have lt: "((length F * (4 * length Mops) - set_bits_count F infos', length ?ws),
        (length F * (4 * length Mops) - set_bits_count F infos, length ws)) \<in> {(x, y). x < y} <*lex*> {(x, y). x < y}"
    proof (cases ch)
      case True
      then have "set_bits_count F infos < set_bits_count F infos'" using update_count [OF _ inv] u by simp
      moreover have "set_bits_count F infos' \<le> length F * (4 * length Mops)"
        using set_bits_bound update_ok [OF u] by blast
      ultimately have "length F * (4 * length Mops) - set_bits_count F infos' <
          length F * (4 * length Mops) - set_bits_count F infos" by linarith
      then show ?thesis by auto
    next
      case ch: False
      have "OUT (infos' ! c) = OUT (infos ! c)" for c
        using ch update_fields(4) [OF u] update_other [OF u, of c] by (cases "c = ?b") auto
      then have "set_bits_count F infos' = set_bits_count F infos" by (simp add: set_bits_count_def)
      with ch False show ?thesis by simp
    qed
    from IH [OF lt inv' ws' pend'] show ?thesis unfolding it .
  qed
qed

section \<open>The whole analysis\<close>

lemma sweep_correct:
  assumes R: "visited_ok F R" and "flow_inv F Mops t R infos" "set ws \<subseteq> R" "set bs \<subseteq> R"
    and "\<forall>b \<in> R. b \<in> set ws \<or> b \<in> set bs \<or> stable F infos b"
    and "sweep F bs (ws, infos) = (ws', infos')"
  shows "flow_inv F Mops t R infos' \<and> set ws' \<subseteq> R \<and> (\<forall>b \<in> R. b \<in> set ws' \<or> stable F infos' b)"
  using assms(2-)
proof (induction bs arbitrary: ws infos)
  case Nil
  then show ?case by simp
next
  case (Cons b bs)
  obtain ch infos1 where up: "updateInfo F b infos = (ch, infos1)" by fastforce
  have b: "b \<in> R" "b < length F" using Cons.prems(3) R by (auto simp: visited_ok_def)
  with up Cons.prems(1) have u: "update_at F Mops t b infos ch infos1"
    by (simp add: update_at_def flow_inv_def)
  let ?ws = "foldl sv_insert (sv_remove ws b) (block_succs F b)"
  have sub: "set ?ws \<subseteq> R"
    using Cons.prems(2) b R set_remove1_subset [of b ws] by (auto simp: sv_remove_def visited_ok_def)
  have "\<forall>c \<in> R. c \<in> set ?ws \<or> c \<in> set bs \<or> stable F infos1 c"
  proof (intro ballI)
    fix c assume c: "c \<in> R"
    show "c \<in> set ?ws \<or> c \<in> set bs \<or> stable F infos1 c"
    proof (cases "c \<in> set ?ws \<or> c \<in> set bs")
      case False
      then have "\<not> edge F b c" "c = b \<or> c \<notin> set ws"
        by (auto simp: edge_def sv_remove_def)
      with False c Cons.prems(4) have "c = b \<or> stable F infos c" by auto
      with \<open>\<not> edge F b c\<close> update_stable [OF u] show ?thesis by blast
    qed blast
  qed
  with Cons.IH [OF update_inv [OF u Cons.prems(1) b(1)] sub] Cons.prems(3,5) up
  show ?case by (simp add: Let_def)
qed

lemma init_flow_inv: "flow_inv F Mops t R (initializeBlockInfo F Mops t)"
proof -
  have B: "IN (initializeBlockInfo F Mops t ! b) = new_Lattice (length Mops) t"
    "OUT (initializeBlockInfo F Mops t ! b) = new_Lattice (length Mops) t"
    "Invariant (initializeBlockInfo F Mops t ! b) = block_inv F Mops t b" if "b < length F" for b
    using that by (simp_all add: initializeBlockInfo_def getInitializedBlockInfo_def Let_def block_inv_def)
  show ?thesis
    using B by (auto simp: flow_inv_def infos_ok_def initializeBlockInfo_def lat_le_def
        in_justified_def out_justified_def)
qed

definition visits_reachable :: "Func \<Rightarrow> nat list \<Rightarrow> bool" where
  "visits_reachable F RPOT \<longleftrightarrow> 0 \<in> set RPOT \<and>
     list_all (\<lambda>b. b < length F \<and> list_all (\<lambda>c. c \<in> set RPOT) (block_succs F b)) RPOT"

lemma visits_reachableD: "visits_reachable F RPOT \<Longrightarrow> visited_ok F (set RPOT)"
  by (auto simp: visits_reachable_def visited_ok_def list_all_iff)

lemma dataflowAnalyze_result:
  assumes "visits_reachable F RPOT"
  obtains infos where "dataflowAnalyze RPOT F Mops t = Some infos"
    "flow_inv F Mops t (set RPOT) infos" "\<forall>b \<in> set RPOT. stable F infos b"
proof -
  note R = visits_reachableD [OF assms]
  obtain ws infos where sw: "sweep F RPOT ([], initializeBlockInfo F Mops t) = (ws, infos)" by fastforce
  from sweep_correct [OF R init_flow_inv _ _ _ sw]
  have "flow_inv F Mops t (set RPOT) infos" "set ws \<subseteq> set RPOT"
    "\<forall>b \<in> set RPOT. b \<in> set ws \<or> stable F infos b" by auto
  from iterate_correct [OF R this] sw that show ?thesis by (auto simp: dataflowAnalyze_def)
qed

lemma path_found:
  assumes R: "visited_ok F R" and inv: "flow_inv F Mops t R infos" and st: "\<forall>b \<in> R. stable F infos b"
    and "path_to R F (block_inv F Mops t) m p b cs"
  shows "b \<in> R \<and> reach (OUT (infos ! b)) m \<and>
         (\<forall>k. dirty_path (block_inv F Mops t) k m p cs \<longrightarrow> dirty k (OUT (infos ! b)) m)"
  using assms(4)
proof induction
  case (mop_path_start p)
  then have p: "p < length F" and s: "stable F infos p" using R st by (auto simp: visited_ok_def)
  have wf: "lat_wf (length Mops) t (IN (infos ! p))" "inv_wf (length Mops) t (Invariant (infos ! p))"
    "Invariant (infos ! p) = block_inv F Mops t p"
    using inv p by (auto simp: flow_inv_def infos_ok_def block_inv_wf)
  have "reach (transfer (infos ! p)) m" "\<And>k. gen k (block_inv F Mops t p) m \<Longrightarrow> dirty k (transfer (infos ! p)) m"
    using mop_path_start(2) unfolding transfer_bits(2,3) [OF wf(1,2)] by (simp_all add: wf(3))
  with s mop_path_start(1) show ?case by (auto simp: stable_def lat_le_def dirty_path_def)
next
  case (mop_path_step p b cs c)
  then have c: "c \<in> R" using R by (auto simp: visited_ok_def edge_def)
  then have cF: "c < length F" "b < length F" and s: "stable F infos c"
    using R st mop_path_step by (auto simp: visited_ok_def)
  have wf: "lat_wf (length Mops) t (IN (infos ! c))" "inv_wf (length Mops) t (Invariant (infos ! c))"
    "Invariant (infos ! c) = block_inv F Mops t c"
    using inv cF by (auto simp: flow_inv_def infos_ok_def block_inv_wf)
  have le: "lat_le (OUT (infos ! b)) (IN (infos ! c))"
    using s cF mop_path_step.hyps(2) by (auto simp: stable_def)
  have "reach (transfer (infos ! c)) m"
    "\<And>k. dirty_path (block_inv F Mops t) k m p (cs @ [c]) \<Longrightarrow> dirty k (transfer (infos ! c)) m"
    using le mop_path_step.IH mop_path_step.hyps(3) unfolding transfer_bits(2,3) [OF wf(1,2)]
    by (auto simp: wf(3) lat_le_def dirty_path_def)
  with s c show ?case by (auto simp: stable_def lat_le_def)
qed

text \<open>The bits at block exits and entries are exactly the path facts.\<close>

lemma out_exact:
  assumes "visited_ok F R" "flow_inv F Mops t R infos" "\<forall>b \<in> R. stable F infos b" "b < length F"
  shows "reach (OUT (infos ! b)) m \<longleftrightarrow> (\<exists>p cs. path_to R F (block_inv F Mops t) m p b cs)"
    and "dirty k (OUT (infos ! b)) m \<longleftrightarrow>
          (\<exists>p cs. path_to R F (block_inv F Mops t) m p b cs \<and> dirty_path (block_inv F Mops t) k m p cs)"
  using path_found [OF assms(1-3)] assms(2,4) unfolding flow_inv_def out_justified_def by blast+

lemma in_exact:
  assumes R: "visited_ok F R" and inv: "flow_inv F Mops t R infos" and st: "\<forall>b \<in> R. stable F infos b"
    and b: "b < length F"
  shows "reach (IN (infos ! b)) m \<longleftrightarrow>
          (\<exists>d p cs. edge F d b \<and> path_to R F (block_inv F Mops t) m p d cs)"
    and "dirty k (IN (infos ! b)) m \<longleftrightarrow>
          (\<exists>d p cs. edge F d b \<and> path_to R F (block_inv F Mops t) m p d cs \<and>
                    dirty_path (block_inv F Mops t) k m p cs)"
proof -
  have le: "lat_le (OUT (infos ! d)) (IN (infos ! b))" if "edge F d b" "d \<in> R" for d
    using that R st by (auto simp: stable_def visited_ok_def edge_def)
  have just: "in_justified R F (block_inv F Mops t) b (IN (infos ! b))"
    using inv b by (simp add: flow_inv_def)
  note found = path_found [OF R inv st]
  show "reach (IN (infos ! b)) m \<longleftrightarrow> (\<exists>d p cs. edge F d b \<and> path_to R F (block_inv F Mops t) m p d cs)"
    using just le found unfolding in_justified_def lat_le_def by metis
  show "dirty k (IN (infos ! b)) m \<longleftrightarrow>
          (\<exists>d p cs. edge F d b \<and> path_to R F (block_inv F Mops t) m p d cs \<and>
                    dirty_path (block_inv F Mops t) k m p cs)"
    using just le found unfolding in_justified_def lat_le_def by metis
qed

end
