(* ===== verification/Active_Mop_Query.thy ===== *)
theory Active_Mop_Query
  imports Active_Mop_Dataflow
begin

text \<open>
  What the answers of \<open>ActiveMopAnalysis::isOneMopActiveToAnother\<close> mean for
  executions: a positive answer rules out a clobbering call (for TSan also an acquire
  or release barrier) on every execution from the one operation to the other.
\<close>

section \<open>Executions at instruction level\<close>

definition inst_at :: "Func \<Rightarrow> inst_ref \<Rightarrow> Instruction" where
  "inst_at F p = block_insts F (fst p) ! snd p"

definition valid_ref :: "Func \<Rightarrow> inst_ref \<Rightarrow> bool" where
  "valid_ref F p \<longleftrightarrow> fst p < length F \<and> snd p < length (block_insts F (fst p))"

definition next_ref :: "Func \<Rightarrow> inst_ref \<Rightarrow> inst_ref \<Rightarrow> bool" where
  "next_ref F p q \<longleftrightarrow>
     (if Suc (snd p) < length (block_insts F (fst p)) then q = (fst p, Suc (snd p))
      else Suc (snd p) = length (block_insts F (fst p)) \<and> edge F (fst p) (fst q) \<and> snd q = 0)"

text \<open>
  \<open>exec F From p vs\<close>: control can run from \<open>From\<close> to \<open>p\<close> without executing \<open>From\<close>
  again; \<open>vs\<close> are the instructions executed on the way, \<open>From\<close> included.
\<close>

inductive exec :: "Func \<Rightarrow> inst_ref \<Rightarrow> inst_ref \<Rightarrow> inst_ref list \<Rightarrow> bool" for F From where
  exec_start: "exec F From From []"
| exec_step: "exec F From p vs \<Longrightarrow> next_ref F p q \<Longrightarrow> q \<noteq> From \<Longrightarrow> exec F From q (vs @ [p])"

definition barrier :: "bool \<Rightarrow> bool \<Rightarrow> Instruction \<Rightarrow> bool" where
  "barrier tsan IsToDead I \<longleftrightarrow>
     clobbers I \<or> event tsan (if IsToDead then KRel else KAcq) I"

section \<open>Block-local scans\<close>

lemma takeWhile_skip:
  "x \<in> set (takeWhile P xs) \<Longrightarrow> Q x \<or> x \<in> set (takeWhile P (dropWhile Q xs))"
  by (induction xs) (auto split: if_splits)

lemma scan_active_True:
  assumes "scan_active To xs = Some True" "x \<in> set (takeWhile (\<lambda>ii. fst ii \<noteq> To) xs)"
  shows "\<not> clobbers (snd x)"
  using assms
proof (induction To xs rule: scan_active.induct)
  case (2 To i I rest)
  have d: "is_dbg y \<Longrightarrow> \<not> clobbers (snd y)" for y :: "nat \<times> Instruction"
    by (simp add: isClobberingCall_def isa_CallBase_def)
  from 2 show ?case
    using takeWhile_skip [of x "\<lambda>ii. fst ii \<noteq> To" rest is_dbg] d [of x] by (auto split: if_splits)
qed simp

lemma dbg_no_order [simp]:
  "opcode I = DbgInfoIntrinsic \<Longrightarrow> \<not> acquires I" "opcode I = DbgInfoIntrinsic \<Longrightarrow> \<not> releases I"
  by (auto simp: acquires_def releases_def getAtomicInsnOrder_def getOrder_def split: option.splits)

lemma scan_active_order_True:
  assumes "scan_active_order To Acq st xs = Some True" "x \<in> set (takeWhile (\<lambda>ii. fst ii \<noteq> To) xs)"
  shows "\<not> clobbers (snd x) \<and> \<not> (if Acq then acquires (snd x) else releases (snd x))"
  using assms
proof (induction To Acq st xs rule: scan_active_order.induct)
  case (2 To Acq st i I rest)
  have d: "is_dbg y \<Longrightarrow> \<not> clobbers (snd y)" for y :: "nat \<times> Instruction"
    by (simp add: isClobberingCall_def isa_CallBase_def)
  obtain a r where st: "st = (a, r)" by (cases st)
  from 2(2,3) 2(1) [OF _ _ refl getAtomicInsnOrder_eq [of I a r, folded st, symmetric]] show ?case
    using takeWhile_skip [of x "\<lambda>ii. fst ii \<noteq> To" rest is_dbg] d [of x]
    by (auto simp: st split: if_splits)
qed simp

text \<open>The instructions a scan from \<open>(b, i)\<close> sees before index \<open>j\<close>.\<close>

lemma insts_from_takeWhile:
  assumes "i \<le> j'" "j' < j" "j' < length (block_insts F b)"
  shows "(j', block_insts F b ! j') \<in> set (takeWhile (\<lambda>ii. fst ii \<noteq> j) (insts_from F (b, i)))"
proof -
  let ?xs = "insts_from F (b, i)"
  have len: "length ?xs = length (block_insts F b) - i" by (simp add: insts_from_def)
  have nth: "?xs ! k = (i + k, block_insts F b ! (i + k))" if "k < length ?xs" for k
    using that len by (simp add: insts_from_def nth_enumerate_eq)
  have k: "j' - i < length ?xs" using assms len by simp
  have "j' - i < length (takeWhile (\<lambda>ii. fst ii \<noteq> j) ?xs)"
  proof (rule ccontr)
    let ?n = "length (takeWhile (\<lambda>ii. fst ii \<noteq> j) ?xs)"
    assume "\<not> j' - i < ?n"
    then have n: "?n \<le> j' - i" "?n < length ?xs" using k by linarith+
    then have "fst (?xs ! ?n) = j" using nth_length_takeWhile [OF n(2)] by blast
    with nth [OF n(2)] n(1) assms show False by simp
  qed
  then have "?xs ! (j' - i) \<in> set (takeWhile (\<lambda>ii. fst ii \<noteq> j) ?xs)"
    by (metis nth_mem takeWhile_nth)
  with nth [OF k] assms(1) show ?thesis by simp
qed

lemma same_block_clean:
  assumes "sameBlockQuery F t (\<not> IsToDead) (b, i) (b, j) = Some True"
    and "i \<le> j'" "j' < j" "j' < length (block_insts F b)"
  shows "\<not> barrier t IsToDead (block_insts F b ! j')"
  using assms(1) insts_from_takeWhile [OF assms(2-4)]
  by (cases t)
     (auto simp: sameBlockQuery_def isActiveInTheSameBlock_def isActiveInTheSameBlock_order_def
        barrier_def dest!: scan_active_True scan_active_order_True split: if_splits)

section \<open>Executions and block paths\<close>

text \<open>
  An execution from a MOP either is still in the block of the MOP, or it went
  along a block path and is in a block it entered from the end of that path.
\<close>

definition live_mop where
  "live_mop F Mops m \<longleftrightarrow> distinct Mops \<and> m < length Mops \<and> valid_ref F (Mops ! m) \<and>
     interesting (inst_at F (Mops ! m))"

lemma live_mop_bits:
  assumes "live_mop F Mops m"
  shows "usegen (block_inv F Mops t b) m \<longleftrightarrow> b = fst (Mops ! m)"
    and "gen k (block_inv F Mops t (fst (Mops ! m))) m \<longleftrightarrow>
         (\<exists>I \<in> set (drop (snd (Mops ! m)) (block_insts F (fst (Mops ! m)))). event t k I)"
proof -
  have map: "initializeMopMaps Mops (Mops ! m) = Some m"
    using assms by (intro initializeMopMaps_distinct) (auto simp: live_mop_def)
  have iff: "initializeMopMaps Mops p = Some m \<longleftrightarrow> p = Mops ! m" for p
    using map initializeMopMaps_Some by metis
  show "usegen (block_inv F Mops t b) m \<longleftrightarrow> b = fst (Mops ! m)"
    using assms unfolding block_inv_def block_invariant_bits(3) iff
    by (cases "Mops ! m") (auto simp: live_mop_def valid_ref_def inst_at_def)
  show "gen k (block_inv F Mops t (fst (Mops ! m))) m \<longleftrightarrow>
         (\<exists>I \<in> set (drop (snd (Mops ! m)) (block_insts F (fst (Mops ! m)))). event t k I)"
    using assms unfolding block_inv_def block_invariant_bits(4) iff
    by (cases "Mops ! m") (auto simp: live_mop_def valid_ref_def inst_at_def)
qed

definition exec_span :: "Func \<Rightarrow> inst_ref \<Rightarrow> nat list \<Rightarrow> inst_ref \<Rightarrow> inst_ref set" where
  "exec_span F From cs p =
     {(b, j) | b j. b = fst From \<and> snd From \<le> j \<and> j < length (block_insts F b)} \<union>
     {(b, j) | b j. b \<in> set cs \<and> j < length (block_insts F b)} \<union>
     {(b, j) | b j. b = fst p \<and> j < snd p}"

lemma exec_shape:
  assumes "exec F From p vs" "fst From \<in> R" "valid_ref F From" and H: "\<And>b. H b \<longleftrightarrow> b = fst From"
  shows "(fst p = fst From \<and> snd From \<le> snd p \<and> set vs = {(b, j) | b j. b = fst From \<and> snd From \<le> j \<and> j < snd p}) \<or>
    (\<exists>d cs. mop_path R (edge F) H (fst From) d cs \<and> edge F d (fst p) \<and>
       (fst p = fst From \<longrightarrow> snd p < snd From) \<and> set vs = exec_span F From cs p)"
  using assms(1)
proof induction
  case exec_start
  then show ?case by auto
next
  case (exec_step p vs q)
  obtain b i where p: "p = (b, i)" by (cases p)
  obtain h f where From: "From = (h, f)" by (cases From)
  have stay: "q = (b, Suc i)" if "Suc i < length (block_insts F b)"
    using exec_step.hyps(2) that by (simp add: next_ref_def p)
  have leave: "Suc i = length (block_insts F b)" "edge F b (fst q)" "q = (fst q, 0)"
    if "\<not> Suc i < length (block_insts F b)"
    using exec_step.hyps(2) that by (auto simp: next_ref_def p prod_eq_iff)
  from exec_step.IH show ?case
  proof (elim disjE)
    assume first: "fst p = fst From \<and> snd From \<le> snd p \<and>
        set vs = {(b, j) | b j. b = fst From \<and> snd From \<le> j \<and> j < snd p}"
    show ?thesis
    proof (cases "Suc i < length (block_insts F b)")
      case True
      with first stay show ?thesis by (auto simp: p From less_Suc_eq)
    next
      case False
      have "mop_path R (edge F) H h h []"
        using assms(2) H by (intro mop_path_start) (simp_all add: From)
      moreover have "set (vs @ [p]) = exec_span F From [] q"
        using first leave [OF False] by (cases q) (auto simp: exec_span_def p From less_Suc_eq)
      moreover have "fst q = fst From \<longrightarrow> snd q < snd From"
        using leave(3) [OF False] exec_step.hyps(3) by (cases q) (auto simp: From)
      ultimately show ?thesis using leave(2) [OF False] first by (auto simp: p From)
    qed
  next
    assume "\<exists>d cs. mop_path R (edge F) H (fst From) d cs \<and> edge F d (fst p) \<and>
       (fst p = fst From \<longrightarrow> snd p < snd From) \<and> set vs = exec_span F From cs p"
    then obtain d cs where dc: "mop_path R (edge F) H h d cs" "edge F d b"
      "b = h \<longrightarrow> i < f" "set vs = exec_span F From cs p"
      by (auto simp: From p)
    show ?thesis
    proof (cases "Suc i < length (block_insts F b)")
      case True
      have "set (vs @ [p]) = exec_span F From cs q"
        using dc(4) stay [OF True] by (auto simp: exec_span_def p From less_Suc_eq)
      moreover have "fst q = fst From \<longrightarrow> snd q < snd From"
        using stay [OF True] exec_step.hyps(3) dc(3) by (auto simp: From)
      ultimately show ?thesis using dc(1,2) stay [OF True] by (auto simp: From)
    next
      case False
      show ?thesis
      proof (cases "b = h")
        case True
        text \<open>The home block cannot be left without passing \<open>From\<close> again.\<close>
        then show ?thesis using dc(3) leave(1) [OF False] assms(3) by (auto simp: From valid_ref_def)
      next
        case neq: False
        have path: "mop_path R (edge F) H h b (cs @ [b])"
          using dc(1,2) neq H by (intro mop_path_step) (auto simp: From)
        have "set (vs @ [p]) = exec_span F From (cs @ [b]) q"
          using dc(4) leave [OF False] by (cases q) (auto simp: exec_span_def p From less_Suc_eq)
        moreover have "fst q = fst From \<longrightarrow> snd q < snd From"
          using leave(3) [OF False] exec_step.hyps(3) by (cases q) (auto simp: From)
        ultimately show ?thesis using path leave(2) [OF False] by (auto simp: From)
      qed
    qed
  qed
qed

section \<open>Soundness of positive answers\<close>

abbreviation order_kind :: "bool \<Rightarrow> kind" where
  "order_kind IsToDead \<equiv> (if IsToDead then KRel else KAcq)"

lemma barrier_event: "barrier t D I \<longleftrightarrow> event t KCall I \<or> event t (order_kind D) I"
  by (auto simp: barrier_def)

lemma contains_event:
  "contains k (block_inv F Mops t c) \<longleftrightarrow> (\<exists>I \<in> set (block_insts F c). event t k I)"
  unfolding block_inv_def by (rule block_invariant_bits)

lemma clean_span:
  assumes "live_mop F Mops m" "From = Mops ! m"
    and c: "\<not> dirty_path (block_inv F Mops t) KCall m (fst From) cs"
    and r: "\<not> dirty_path (block_inv F Mops t) (order_kind D) m (fst From) cs"
    and "q \<in> exec_span F From cs p" "\<not> (fst q = fst p \<and> snd q < snd p)"
  shows "\<not> barrier t D (inst_at F q)"
proof -
  obtain b j where q: "q = (b, j)" by (cases q)
  have nth: "j < length (block_insts F b) \<Longrightarrow> inst_at F q \<in> set (block_insts F b)"
    by (simp add: inst_at_def q)
  have drop: "snd From \<le> j \<Longrightarrow> j < length (block_insts F b) \<Longrightarrow> b = fst From \<Longrightarrow>
      inst_at F q \<in> set (drop (snd From) (block_insts F (fst From)))"
    by (auto simp: inst_at_def q in_set_conv_nth intro!: exI [of _ "j - snd From"])
  show ?thesis
    using assms(5,6) c r nth drop
    unfolding barrier_event dirty_path_def contains_event live_mop_bits(2) [OF assms(1), folded assms(2)]
    by (auto simp: exec_span_def q)
qed

lemma analysis_result:
  assumes "visits_reachable F RPOT" "new_ActiveMopAnalysis RPOT F Mops t = Some A"
  shows "amaUsedForTsan A = t"
    and "Analyzed A \<Longrightarrow> amaMopMap A = initializeMopMaps Mops \<and>
           flow_inv F Mops t (set RPOT) (amaBlockInfoMap A) \<and>
           (\<forall>b \<in> set RPOT. stable F (amaBlockInfoMap A) b)"
proof -
  obtain infos where infos: "dataflowAnalyze RPOT F Mops t = Some infos"
    "flow_inv F Mops t (set RPOT) infos" "\<forall>b \<in> set RPOT. stable F infos b"
    using dataflowAnalyze_result [OF assms(1)] by blast
  have A: "A = (if suitableToAnlyze Mops \<and> F \<noteq> []
      then \<lparr>amaMopList = Mops, amaMopMap = initializeMopMaps Mops, amaBlockInfoMap = infos,
           Analyzed = True, amaUsedForTsan = t\<rparr>
      else \<lparr>amaMopList = Mops, amaMopMap = Map.empty, amaBlockInfoMap = [],
           Analyzed = False, amaUsedForTsan = t\<rparr>)"
    using assms(2) unfolding new_ActiveMopAnalysis_def Let_def infos(1)
    by (cases "suitableToAnlyze Mops \<and> F \<noteq> []"; simp only: if_True if_False option.case option.inject;
      simp split: if_splits)
  show "amaUsedForTsan A = t" by (simp add: A)
  show "amaMopMap A = initializeMopMaps Mops \<and> flow_inv F Mops t (set RPOT) (amaBlockInfoMap A) \<and>
           (\<forall>b \<in> set RPOT. stable F (amaBlockInfoMap A) b)" if "Analyzed A"
    using that infos(2,3) by (simp add: A split: if_splits)
qed

lemma active_bits:
  assumes "lat_wf n t L"
  shows "(if t then isActive_order L m (\<not> D) else isActive L m) \<longleftrightarrow>
         reach L m \<and> \<not> dirty KCall L m \<and> \<not> dirty (order_kind D) L m"
  using assms by (cases t; cases D) (auto simp: isActive_order_def isActive_def reach_def lat_wf_def)

lemma active_After:
  assumes "flow_inv F Mops t R (amaBlockInfoMap A)" "amaUsedForTsan A = t" "b < length F"
  shows "isMopActiveAfter A m b (\<not> D) \<longleftrightarrow> reach (OUT (amaBlockInfoMap A ! b)) m \<and>
     \<not> dirty KCall (OUT (amaBlockInfoMap A ! b)) m \<and> \<not> dirty (order_kind D) (OUT (amaBlockInfoMap A ! b)) m"
  using assms active_bits [of "length Mops" t "OUT (amaBlockInfoMap A ! b)" m D]
  by (simp add: isMopActiveAfter_def flow_inv_def infos_ok_def Let_def)

lemma active_Before:
  assumes "flow_inv F Mops t R (amaBlockInfoMap A)" "amaUsedForTsan A = t" "b < length F"
  shows "isMopActiveBefore A m b (\<not> D) \<longleftrightarrow> reach (IN (amaBlockInfoMap A ! b)) m \<and>
     \<not> dirty KCall (IN (amaBlockInfoMap A ! b)) m \<and> \<not> dirty (order_kind D) (IN (amaBlockInfoMap A ! b)) m"
  using assms active_bits [of "length Mops" t "IN (amaBlockInfoMap A ! b)" m D]
  by (simp add: isMopActiveBefore_def flow_inv_def infos_ok_def Let_def)

text \<open>
  In one block, with \<open>From\<close> first, the only execution is the straight one, since
  leaving the block means passing \<open>From\<close> again before \<open>To\<close>.
\<close>

lemma same_block_exec:
  assumes "exec F From To vs" "valid_ref F From" "fst From = fst To" "snd From \<le> snd To"
  shows "set vs = {(b, j) | b j. b = fst From \<and> snd From \<le> j \<and> j < snd To}"
  using exec_shape [OF assms(1) _ assms(2), of UNIV "\<lambda>b. b = fst From"] assms(3,4) by auto

lemma same_block_sound:
  assumes "exec F From To vs" "valid_ref F From" "valid_ref F To" "fst From = fst To" "snd From \<le> snd To"
    and "sameBlockQuery F t (\<not> D) From To = Some True" "q \<in> set vs"
  shows "\<not> barrier t D (inst_at F q)"
proof -
  obtain j where "q = (fst From, j)" "snd From \<le> j" "j < snd To"
    using same_block_exec [OF assms(1,2,4,5)] assms(7) by auto
  moreover have "sameBlockQuery F t (\<not> D) (fst From, snd From) (fst From, snd To) = Some True"
    using assms(4,6) by (cases To; cases From) simp
  ultimately show ?thesis
    using same_block_clean [of F t D "fst From" "snd From" "snd To" j] assms(3,4)
    by (simp add: inst_at_def valid_ref_def)
qed

lemma query_sound:
  assumes rpot: "visits_reachable F RPOT" and new: "new_ActiveMopAnalysis RPOT F Mops t = Some A"
    and live: "live_mop F Mops m" and From: "From = Mops ! m" and To: "valid_ref F To"
    and order: "fst From = fst To \<Longrightarrow> snd From \<le> snd To"
    and yes: "isOneMopActiveToAnother F A From To D = Some True"
    and run: "exec F From To vs" and q: "q \<in> set vs"
  shows "\<not> barrier t D (inst_at F q) \<or>
         fst q = fst To \<and> snd q < snd (getFirstNonPHIOrDbgOrLifetime F (fst To))"
proof -
  note res = analysis_result [OF rpot new]
  note R = visits_reachableD [OF rpot]
  have vf: "valid_ref F From" using live From by (simp add: live_mop_def)
  let ?I = "amaBlockInfoMap A" and ?V = "block_inv F Mops t"
  have same: ?thesis if "fst From = fst To" "sameBlockQuery F t (\<not> D) From To = Some True"
    using same_block_sound [OF run vf To that(1) order [OF that(1)] that(2) q] by blast
  show ?thesis
  proof (cases "Analyzed A")
    case False
    with yes res(1) same show ?thesis
      by (auto simp: isOneMopActiveToAnother_def Let_def split: if_splits)
  next
    case True
    with res(2) have inv: "flow_inv F Mops t (set RPOT) ?I" and st: "\<forall>b \<in> set RPOT. stable F ?I b"
      and map: "amaMopMap A From = Some m"
      using initializeMopMaps_distinct live From by (auto simp: live_mop_def)
    have ToF: "fst To < length F" using To by (simp add: valid_ref_def)
    have H: "(\<lambda>b. usegen (?V b) m) = (\<lambda>b. b = fst From)"
      using live_mop_bits(1) [OF live] From by auto
    note exact = out_exact [OF R inv st ToF] in_exact [OF R inv st ToF]
    have home: "fst From \<in> set RPOT" if "mop_path (set RPOT) (edge F) (\<lambda>b. b = fst From) p d cs" for p d cs
      using that by (induction) auto
    have start: "mop_path (set RPOT) (edge F) (\<lambda>b. b = fst From) p d cs \<Longrightarrow> p = fst From" for p d cs
      by (induction rule: mop_path.induct) auto
    consider (after) "isMopActiveAfter A m (fst To) (\<not> D)"
      | (block) "fst From = fst To" "sameBlockQuery F t (\<not> D) From To = Some True"
      | (before) "fst From \<noteq> fst To" "isMopActiveBefore A m (fst To) (\<not> D)"
          "sameBlockQuery F t (\<not> D) (getFirstNonPHIOrDbgOrLifetime F (fst To)) To = Some True"
      using yes True map res(1) by (auto simp: isOneMopActiveToAnother_def Let_def split: if_splits)
    then show ?thesis
    proof cases
      case after
      then have bits: "reach (OUT (?I ! fst To)) m" "\<not> dirty KCall (OUT (?I ! fst To)) m"
        "\<not> dirty (order_kind D) (OUT (?I ! fst To)) m"
        using active_After [OF inv res(1) ToF] by simp_all
      then have hR: "fst From \<in> set RPOT" using exact(1) home H by auto
      have clean: "\<not> dirty_path ?V KCall m (fst From) cs" "\<not> dirty_path ?V (order_kind D) m (fst From) cs"
        if "mop_path (set RPOT) (edge F) (\<lambda>b. b = fst From) (fst From) (fst To) cs" for cs
        using that bits(2,3) unfolding exact(2) H by blast+
      from exec_shape [OF run hR vf, of "\<lambda>b. b = fst From"] consider
        (1) "fst To = fst From" "snd From \<le> snd To"
          "set vs = {(b, j) | b j. b = fst From \<and> snd From \<le> j \<and> j < snd To}"
        | (2) d cs where "mop_path (set RPOT) (edge F) (\<lambda>b. b = fst From) (fst From) d cs"
          "edge F d (fst To)" "fst To = fst From \<longrightarrow> snd To < snd From" "set vs = exec_span F From cs To"
        by blast
      then show ?thesis
      proof cases
        case 1
        have "mop_path (set RPOT) (edge F) (\<lambda>b. b = fst From) (fst From) (fst To) []"
          using hR 1(1) by (auto intro: mop_path_start)
        note clean = clean [OF this]
        have "q \<in> exec_span F From [] (fst From, 0)"
          using q 1 To by (auto simp: exec_span_def valid_ref_def)
        from clean_span [OF live From clean this] show ?thesis by simp
      next
        case 2
        have "fst To \<noteq> fst From" using 2(3) order by auto
        then have path: "mop_path (set RPOT) (edge F) (\<lambda>b. b = fst From) (fst From) (fst To) (cs @ [fst To])"
          using 2(1,2) by (intro mop_path_step)
        have "q \<in> exec_span F From (cs @ [fst To]) (fst To, 0)"
          using q 2(4) To by (auto simp: exec_span_def valid_ref_def)
        from clean_span [OF live From clean [OF path] this] show ?thesis by simp
      qed
    next
      case block
      then show ?thesis by (rule same)
    next
      case before
      then have bits: "reach (IN (?I ! fst To)) m" "\<not> dirty KCall (IN (?I ! fst To)) m"
        "\<not> dirty (order_kind D) (IN (?I ! fst To)) m"
        using active_Before [OF inv res(1) ToF] by simp_all
      then have hR: "fst From \<in> set RPOT" using exact(3) home H by auto
      from exec_shape [OF run hR vf, of "\<lambda>b. b = fst From"] before(1) obtain d cs where
        path: "mop_path (set RPOT) (edge F) (\<lambda>b. b = fst From) (fst From) d cs"
          "edge F d (fst To)" "set vs = exec_span F From cs To" by auto
      have "\<not> dirty_path ?V KCall m (fst From) cs" "\<not> dirty_path ?V (order_kind D) m (fst From) cs"
        using path(1,2) bits(2,3) unfolding exact(4) H by blast+
      note clean = clean_span [OF live From this, of q To]
      show ?thesis
      proof (cases "fst q = fst To \<and> snd q < snd To")
        case True
        let ?e = "snd (getFirstNonPHIOrDbgOrLifetime F (fst To))"
        have "getFirstNonPHIOrDbgOrLifetime F (fst To) = (fst To, ?e)"
          by (simp add: getFirstNonPHIOrDbgOrLifetime_def)
        then have "\<not> barrier t D (block_insts F (fst To) ! snd q)" if "?e \<le> snd q"
          using same_block_clean [of F t D "fst To" ?e "snd To" "snd q"] before(3) True To that
          by (simp add: valid_ref_def)
        then show ?thesis using True by (cases "?e \<le> snd q") (auto simp: inst_at_def)
      next
        case False
        then show ?thesis using clean q path(3) by blast
      qed
    qed
  qed
qed

section \<open>Precision of negative answers\<close>

text \<open>
  Skipping debug intrinsics loses neither the target nor a barrier, as long as the
  target is no debug intrinsic.
\<close>

definition target_ok :: "nat \<Rightarrow> (nat \<times> Instruction) list \<Rightarrow> bool" where
  "target_ok To xs \<longleftrightarrow> (\<forall>x \<in> set xs. fst x = To \<longrightarrow> \<not> is_dbg x)"

lemma target_ok_rest:
  assumes "target_ok To (y # rest)"
  shows "target_ok To (dropWhile is_dbg rest)"
    and "set (takeWhile (\<lambda>ii. fst ii \<noteq> To) (dropWhile is_dbg rest)) \<subseteq>
         set (takeWhile (\<lambda>ii. fst ii \<noteq> To) rest)"
    and "\<exists>x \<in> set rest. fst x = To \<Longrightarrow> \<exists>x \<in> set (dropWhile is_dbg rest). fst x = To"
proof -
  have ok: "target_ok To rest" using assms by (simp add: target_ok_def)
  then show "target_ok To (dropWhile is_dbg rest)"
    unfolding target_ok_def by (meson set_dropWhileD)
  show "set (takeWhile (\<lambda>ii. fst ii \<noteq> To) (dropWhile is_dbg rest)) \<subseteq>
         set (takeWhile (\<lambda>ii. fst ii \<noteq> To) rest)"
    using ok by (induction rest) (auto simp: target_ok_def)
  show "\<exists>x \<in> set (dropWhile is_dbg rest). fst x = To" if "\<exists>x \<in> set rest. fst x = To"
    using ok that by (induction rest) (auto simp: target_ok_def)
qed

lemma scan_active_False:
  assumes "scan_active To xs = Some False" "target_ok To xs"
  shows "\<exists>x \<in> set (takeWhile (\<lambda>ii. fst ii \<noteq> To) xs). clobbers (snd x)"
  using assms
proof (induction To xs rule: scan_active.induct)
  case (2 To i I rest)
  note rest = target_ok_rest [OF 2(3)]
  show ?case
  proof (cases "i \<noteq> To \<and> \<not> clobbers I")
    case True
    with 2(2) have "scan_active To (dropWhile is_dbg rest) = Some False" by simp
    from 2(1) [OF _ _ this rest(1)] True rest(2) show ?thesis by auto
  next
    case False
    with 2(2) show ?thesis by (auto split: if_splits)
  qed
qed simp

lemma scan_active_total:
  assumes "\<exists>x \<in> set xs. fst x = To" "target_ok To xs"
  shows "scan_active To xs \<noteq> None"
  using assms
proof (induction To xs rule: scan_active.induct)
  case (2 To i I rest)
  note rest = target_ok_rest [OF 2(3)]
  show ?case
  proof (cases "i \<noteq> To \<and> \<not> clobbers I")
    case True
    with 2(2) have "\<exists>x \<in> set rest. fst x = To" by auto
    from 2(1) [OF _ _ rest(3) [OF this] rest(1)] True show ?thesis by simp
  qed auto
qed simp

lemma scan_active_order_False:
  assumes "scan_active_order To Acq st xs = Some False" "target_ok To xs"
    and "\<not> (if Acq then fst st else snd st)"
  shows "\<exists>x \<in> set (takeWhile (\<lambda>ii. fst ii \<noteq> To) xs).
           clobbers (snd x) \<or> (if Acq then acquires (snd x) else releases (snd x))"
  using assms
proof (induction To Acq st xs rule: scan_active_order.induct)
  case (2 To Acq st i I rest)
  obtain a r where st: "st = (a, r)" by (cases st)
  note rest = target_ok_rest [OF 2(3)]
  let ?bad = "\<lambda>I. clobbers I \<or> (if Acq then acquires I else releases I)"
  let ?st = "(a \<or> acquires I, r \<or> releases I)"
  show ?case
  proof (cases "i \<noteq> To \<and> \<not> ?bad I")
    case True
    then have go: "\<not> (Acq \<and> fst ?st \<or> \<not> Acq \<and> snd ?st)" using 2(4) st by (auto split: if_splits)
    with True 2(2) have "scan_active_order To Acq ?st (dropWhile is_dbg rest) = Some False"
      by (auto simp: st split: if_splits)
    have "\<exists>x \<in> set (takeWhile (\<lambda>ii. fst ii \<noteq> To) (dropWhile is_dbg rest)). ?bad (snd x)"
      by (rule 2(1) [OF _ _ refl _ _ \<open>scan_active_order To Acq ?st (dropWhile is_dbg rest) = Some False\<close> rest(1)])
        (use True go in \<open>auto simp: st\<close>)
    with rest(2) have "\<exists>x \<in> set (takeWhile (\<lambda>ii. fst ii \<noteq> To) rest). ?bad (snd x)" by blast
    then show ?thesis using True by (simp only: takeWhile.simps fst_conv) auto
  next
    case False
    with 2(2) show ?thesis by (auto simp: st split: if_splits)
  qed
qed simp

lemma scan_active_order_total:
  assumes "\<exists>x \<in> set xs. fst x = To" "target_ok To xs"
  shows "scan_active_order To Acq st xs \<noteq> None"
  using assms
proof (induction To Acq st xs rule: scan_active_order.induct)
  case (2 To Acq st i I rest)
  obtain a r where st: "st = (a, r)" by (cases st)
  note rest = target_ok_rest [OF 2(3)]
  let ?st = "(a \<or> acquires I, r \<or> releases I)"
  show ?case
  proof (cases "i \<noteq> To \<and> \<not> clobbers I \<and> \<not> (Acq \<and> fst ?st \<or> \<not> Acq \<and> snd ?st)")
    case True
    with 2(2) have "\<exists>x \<in> set rest. fst x = To" by auto
    from 2(1) [OF _ _ refl _ _ rest(3) [OF this] rest(1), of "fst ?st" "snd ?st"] True
    show ?thesis by (auto simp: st)
  qed (auto simp: st)
qed simp

lemma insts_from_nth:
  "x \<in> set (insts_from F (b, i)) \<longleftrightarrow>
     (\<exists>k \<ge> i. k < length (block_insts F b) \<and> x = (k, block_insts F b ! k))"
proof -
  have "x \<in> set (insts_from F (b, i)) \<longleftrightarrow>
      (\<exists>k < length (block_insts F b) - i. x = (i + k, block_insts F b ! (i + k)))"
    by (auto simp: insts_from_def in_set_conv_nth nth_enumerate_eq)
  also have "\<dots> \<longleftrightarrow> (\<exists>k \<ge> i. k < length (block_insts F b) \<and> x = (k, block_insts F b ! k))"
    (is "?L \<longleftrightarrow> ?R")
  proof
    show "?L \<Longrightarrow> ?R" by auto
    assume ?R
    then obtain k where "i \<le> k" "k < length (block_insts F b)" "x = (k, block_insts F b ! k)" by blast
    then show ?L by (intro exI [of _ "k - i"]) auto
  qed
  finally show ?thesis .
qed

lemma insts_from_takeWhileD:
  assumes "x \<in> set (takeWhile (\<lambda>ii. fst ii \<noteq> j) (insts_from F (b, i)))" "i \<le> j" "j < length (block_insts F b)"
  shows "\<exists>k \<ge> i. k < j \<and> x = (k, block_insts F b ! k)"
proof -
  let ?xs = "insts_from F (b, i)" and ?P = "\<lambda>ii. fst ii \<noteq> j"
  obtain n where n: "n < length (takeWhile ?P ?xs)" "x = takeWhile ?P ?xs ! n"
    using assms(1) by (auto simp: in_set_conv_nth)
  then have x: "x = ?xs ! n" "n < length ?xs" using takeWhile_nth [OF n(1)] length_takeWhile_le [of ?P ?xs] by auto
  have nth: "?xs ! k = (i + k, block_insts F b ! (i + k))" if "k < length ?xs" for k
    using that by (simp add: insts_from_def nth_enumerate_eq)
  have "n < j - i"
  proof (rule ccontr)
    assume "\<not> n < j - i"
    then have "j - i < length (takeWhile ?P ?xs)" using n(1) by linarith
    then have "?xs ! (j - i) \<in> set (takeWhile ?P ?xs)"
      by (metis nth_mem takeWhile_nth)
    then have "fst (?xs ! (j - i)) \<noteq> j" by (metis (mono_tags, lifting) set_takeWhileD)
    moreover have "j - i < length ?xs" using assms(2,3) by (simp add: insts_from_def)
    ultimately show False using nth assms(2) by simp
  qed
  with x nth [OF x(2)] show ?thesis by (intro exI [of _ "i + n"]) auto
qed

lemma same_block_decides:
  assumes "i \<le> j" "j < length (block_insts F b)" "opcode (block_insts F b ! j) \<noteq> DbgInfoIntrinsic"
  shows "sameBlockQuery F t (\<not> D) (b, i) (b, j) \<noteq> None"
    and "sameBlockQuery F t (\<not> D) (b, i) (b, j) = Some False \<Longrightarrow>
         \<exists>k \<ge> i. k < j \<and> barrier t D (block_insts F b ! k)"
proof -
  have "(j, block_insts F b ! j) \<in> set (insts_from F (b, i))"
    using assms by (auto simp: insts_from_nth)
  then have ex: "\<exists>x \<in> set (insts_from F (b, i)). fst x = j" by force
  have nd: "target_ok j (insts_from F (b, i))"
    using assms by (auto simp: insts_from_nth target_ok_def)
  show "sameBlockQuery F t (\<not> D) (b, i) (b, j) \<noteq> None"
    using scan_active_total [OF ex nd] scan_active_order_total [OF ex nd]
    by (simp add: sameBlockQuery_def isActiveInTheSameBlock_def isActiveInTheSameBlock_order_def)
  assume no: "sameBlockQuery F t (\<not> D) (b, i) (b, j) = Some False"
  have "\<exists>x \<in> set (takeWhile (\<lambda>ii. fst ii \<noteq> j) (insts_from F (b, i))). barrier t D (snd x)"
  proof (cases t)
    case True
    with no have "scan_active_order j (\<not> D) (False, False) (insts_from F (b, i)) = Some False"
      by (simp add: sameBlockQuery_def isActiveInTheSameBlock_order_def)
    from scan_active_order_False [OF this nd] obtain x where
      "x \<in> set (takeWhile (\<lambda>ii. fst ii \<noteq> j) (insts_from F (b, i)))"
      "clobbers (snd x) \<or> (if \<not> D then acquires (snd x) else releases (snd x))"
      by (cases D) auto
    then show ?thesis by (intro bexI [of _ x]) (auto simp: barrier_def True split: if_splits)
  next
    case False
    with no have "scan_active j (insts_from F (b, i)) = Some False"
      by (simp add: sameBlockQuery_def isActiveInTheSameBlock_def)
    from scan_active_False [OF this nd] show ?thesis by (auto simp: barrier_def)
  qed
  then show "\<exists>k \<ge> i. k < j \<and> barrier t D (block_insts F b ! k)"
    using insts_from_takeWhileD [OF _ assms(1,2)] by fastforce
qed

text \<open>Every block path is the path of an execution, blocks being non-empty.\<close>

definition blocks_nonempty :: "Func \<Rightarrow> bool" where
  "blocks_nonempty F \<longleftrightarrow> list_all (\<lambda>B. insts B \<noteq> [] \<and> list_all (\<lambda>c. c < length F) (succs B)) F"

lemma blocks_nonemptyD:
  assumes "blocks_nonempty F" "edge F b c"
  shows "c < length F" "block_insts F c \<noteq> []"
proof -
  have "b < length F" "c \<in> set (succs (F ! b))"
    using assms(2) by (auto simp: edge_def block_succs_def split: if_splits)
  with assms(1) show "c < length F" by (auto simp: blocks_nonempty_def list_all_iff)
  with assms(1) show "block_insts F c \<noteq> []"
    by (auto simp: blocks_nonempty_def block_insts_def list_all_iff)
qed

lemma exec_within:
  assumes "exec F From (b, i) vs" "i \<le> j" "j < length (block_insts F b)"
    and "\<And>k. i < k \<Longrightarrow> k \<le> j \<Longrightarrow> (b, k) \<noteq> From"
  shows "\<exists>vs'. exec F From (b, j) vs' \<and> set vs' = set vs \<union> {(b, k) | k. i \<le> k \<and> k < j}"
  using assms(2-)
proof (induction j)
  case 0
  then show ?case using assms(1) by auto
next
  case (Suc j)
  show ?case
  proof (cases "i = Suc j")
    case True
    then show ?thesis using assms(1) by auto
  next
    case False
    have "i \<le> j" "j < length (block_insts F b)" using False Suc.prems(1,2) by simp_all
    moreover have "(b, k) \<noteq> From" if "i < k" "k \<le> j" for k using Suc.prems(3) that by simp
    ultimately obtain vs' where vs': "exec F From (b, j) vs'" "set vs' = set vs \<union> {(b, k) | k. i \<le> k \<and> k < j}"
      using Suc.IH by blast
    have "next_ref F (b, j) (b, Suc j)" using Suc.prems(2) by (simp add: next_ref_def)
    moreover have "(b, Suc j) \<noteq> From" using Suc.prems(1,3) False by simp
    ultimately have "exec F From (b, Suc j) (vs' @ [(b, j)])" by (intro exec_step [OF vs'(1)])
    moreover have "set (vs' @ [(b, j)]) = set vs \<union> {(b, k) | k. i \<le> k \<and> k < Suc j}"
      using vs'(2) \<open>i \<le> j\<close> by (auto simp: less_Suc_eq)
    ultimately show ?thesis by blast
  qed
qed

lemma exec_enter:
  assumes "exec F From (d, length (block_insts F d) - 1) vs" "block_insts F d \<noteq> []"
    and "edge F d c" "c \<noteq> fst From"
  shows "exec F From (c, 0) (vs @ [(d, length (block_insts F d) - 1)])"
  using assms by (intro exec_step) (auto simp: next_ref_def)

lemma path_exec:
  assumes F: "blocks_nonempty F" and From: "valid_ref F From"
    and "mop_path R (edge F) (\<lambda>b. b = fst From) p d cs"
  shows "block_insts F d \<noteq> [] \<and> (\<exists>vs. exec F From (d, length (block_insts F d) - 1) vs \<and>
           insert (d, length (block_insts F d) - 1) (set vs) = exec_span F From cs (x, 0))"
  using assms(3)
proof induction
  case (mop_path_start p)
  have h: "snd From < length (block_insts F p)" using From mop_path_start(2) by (simp add: valid_ref_def)
  have "exec F From (p, snd From) []" using mop_path_start(2) exec_start [of F From] by (cases From) simp
  from exec_within [OF this, of "length (block_insts F p) - 1"] h obtain vs where
    "exec F From (p, length (block_insts F p) - 1) vs"
    "set vs = {(p, k) | k. snd From \<le> k \<and> k < length (block_insts F p) - 1}"
    by (cases From) fastforce
  moreover from this(2) h have "insert (p, length (block_insts F p) - 1) (set vs) = exec_span F From [] (x, 0)"
    by (auto simp: exec_span_def mop_path_start(2))
  moreover have "block_insts F p \<noteq> []" using h by auto
  ultimately show ?case by (intro conjI exI [of _ vs]) simp_all
next
  case (mop_path_step p b cs c)
  then obtain vs where vs: "exec F From (b, length (block_insts F b) - 1) vs"
    "insert (b, length (block_insts F b) - 1) (set vs) = exec_span F From cs (x, 0)"
    "block_insts F b \<noteq> []" by auto
  have c: "block_insts F c \<noteq> []" using blocks_nonemptyD [OF F mop_path_step.hyps(2)] by simp
  from exec_enter [OF vs(1,3) mop_path_step.hyps(2,3)]
  have "exec F From (c, 0) (vs @ [(b, length (block_insts F b) - 1)])" .
  from exec_within [OF this, of "length (block_insts F c) - 1"] c mop_path_step.hyps(3)
  obtain vs' where vs': "exec F From (c, length (block_insts F c) - 1) vs'"
    "set vs' = exec_span F From cs (x, 0) \<union> {(c, k) | k. k < length (block_insts F c) - 1}"
    using vs(2) by (cases From) fastforce
  moreover from vs'(2) c have "insert (c, length (block_insts F c) - 1) (set vs') = exec_span F From (cs @ [c]) (x, 0)"
    by (auto simp: exec_span_def)
  ultimately show ?case using c by (intro conjI exI [of _ vs']) simp_all
qed

lemma path_exec_to:
  assumes F: "blocks_nonempty F" and From: "valid_ref F From" and To: "valid_ref F To"
    and path: "mop_path R (edge F) (\<lambda>b. b = fst From) p d cs" and "edge F d (fst To)" "fst To \<noteq> fst From"
  shows "\<exists>vs. exec F From To vs \<and> set vs = exec_span F From cs To"
proof -
  obtain vs where vs: "exec F From (d, length (block_insts F d) - 1) vs"
    "insert (d, length (block_insts F d) - 1) (set vs) = exec_span F From cs (fst To, 0)"
    "block_insts F d \<noteq> []"
    using path_exec [OF F From path] by blast
  have "exec F From (fst To, 0) (vs @ [(d, length (block_insts F d) - 1)])"
    by (rule exec_enter [OF vs(1,3) assms(5,6)])
  from exec_within [OF this, of "snd To"] To assms(6) obtain vs' where
    "exec F From (fst To, snd To) vs'"
    "set vs' = exec_span F From cs (fst To, 0) \<union> {(fst To, k) | k. k < snd To}"
    using vs(2) by (cases From) (fastforce simp: valid_ref_def)
  then show ?thesis by (intro exI [of _ vs']) (auto simp: exec_span_def)
qed

lemma dirty_span:
  assumes "live_mop F Mops m" "From = Mops ! m" "dirty_path (block_inv F Mops t) k m (fst From) cs"
  shows "\<exists>q \<in> exec_span F From cs p. event t k (inst_at F q)"
proof -
  from assms(3) consider
    (home) "\<exists>I \<in> set (drop (snd From) (block_insts F (fst From))). event t k I"
    | (block) c where "c \<in> set cs" "\<exists>I \<in> set (block_insts F c). event t k I"
    unfolding dirty_path_def contains_event live_mop_bits(2) [OF assms(1), folded assms(2)] by blast
  then show ?thesis
  proof cases
    case home
    then obtain j where "j < length (block_insts F (fst From)) - snd From"
      "event t k (block_insts F (fst From) ! (snd From + j))"
      by (auto simp: in_set_conv_nth)
    then show ?thesis
      by (intro bexI [of _ "(fst From, snd From + j)"]) (auto simp: inst_at_def exec_span_def)
  next
    case (block c)
    then obtain j where "j < length (block_insts F c)" "event t k (block_insts F c ! j)"
      by (auto simp: in_set_conv_nth)
    with block(1) show ?thesis
      by (intro bexI [of _ "(c, j)"]) (auto simp: inst_at_def exec_span_def)
  qed
qed

lemma entry_before:
  assumes "valid_ref F To" "\<not> entry_skipped (inst_at F To)"
  shows "getFirstNonPHIOrDbgOrLifetime F (fst To) =
           (fst To, snd (getFirstNonPHIOrDbgOrLifetime F (fst To)))"
    and "snd (getFirstNonPHIOrDbgOrLifetime F (fst To)) \<le> snd To"
    and "opcode (block_insts F (fst To) ! snd To) \<noteq> DbgInfoIntrinsic"
proof -
  let ?xs = "block_insts F (fst To)"
  show "snd (getFirstNonPHIOrDbgOrLifetime F (fst To)) \<le> snd To"
  proof (rule ccontr)
    assume "\<not> ?thesis"
    then have "snd To < length (takeWhile entry_skipped ?xs)"
      by (simp add: getFirstNonPHIOrDbgOrLifetime_def)
    then have "?xs ! snd To \<in> set (takeWhile entry_skipped ?xs)"
      by (metis nth_mem takeWhile_nth)
    with assms(2) show False by (auto simp: inst_at_def dest: set_takeWhileD)
  qed
qed (use assms in \<open>auto simp: getFirstNonPHIOrDbgOrLifetime_def entry_skipped_def inst_at_def\<close>)

text \<open>In one block the straight execution always exists.\<close>

lemma straight_exec:
  assumes "valid_ref F To" "fst From = fst To" "snd From \<le> snd To"
  shows "\<exists>vs. exec F From To vs \<and> set vs = {(fst To, k) | k. snd From \<le> k \<and> k < snd To}"
proof -
  have "exec F From (fst To, snd From) []"
    using assms(2) exec_start [of F From] by (cases From) simp
  from exec_within [OF this, of "snd To"] assms show ?thesis
    by (cases From; cases To) (auto simp: valid_ref_def)
qed

lemma query_decides:
  assumes rpot: "visits_reachable F RPOT" and new: "new_ActiveMopAnalysis RPOT F Mops t = Some A"
    and F: "blocks_nonempty F" and hR: "fst From \<in> set RPOT"
    and live: "live_mop F Mops m" and From: "From = Mops ! m"
    and To: "valid_ref F To" "\<not> entry_skipped (inst_at F To)"
    and order: "fst From = fst To \<Longrightarrow> snd From \<le> snd To"
    and used: "Analyzed A \<or> fst From = fst To"
  shows "isOneMopActiveToAnother F A From To D \<noteq> None"
    and "isOneMopActiveToAnother F A From To D = Some False \<Longrightarrow>
         (\<nexists>vs. exec F From To vs) \<or>
         (\<exists>vs q. exec F From To vs \<and> q \<in> set vs \<and> barrier t D (inst_at F q))"
proof -
  note res = analysis_result [OF rpot new]
  note R = visits_reachableD [OF rpot]
  have vf: "valid_ref F From" using live From by (simp add: live_mop_def)
  let ?I = "amaBlockInfoMap A" and ?V = "block_inv F Mops t"
  let ?e = "snd (getFirstNonPHIOrDbgOrLifetime F (fst To))"
  have toF: "snd To < length (block_insts F (fst To))" "fst To < length F"
    using To(1) by (simp_all add: valid_ref_def)
  note entry = entry_before [OF To]
  have same: "sameBlockQuery F t (\<not> D) From To \<noteq> None"
    "sameBlockQuery F t (\<not> D) From To = Some False \<Longrightarrow>
       \<exists>vs q. exec F From To vs \<and> q \<in> set vs \<and> barrier t D (inst_at F q)" if h: "fst From = fst To"
  proof -
    have eq: "From = (fst To, snd From)" "To = (fst To, snd To)" using h by (simp_all add: prod_eq_iff)
    note dec = same_block_decides [OF order [OF h] toF(1) entry(3), of t D]
    show "sameBlockQuery F t (\<not> D) From To \<noteq> None" using dec(1) eq by metis
    assume "sameBlockQuery F t (\<not> D) From To = Some False"
    then have "sameBlockQuery F t (\<not> D) (fst To, snd From) (fst To, snd To) = Some False" using eq by metis
    from dec(2) [OF this] obtain k where "snd From \<le> k" "k < snd To" "barrier t D (block_insts F (fst To) ! k)"
      by blast
    with straight_exec [OF To(1) h order [OF h]]
    show "\<exists>vs q. exec F From To vs \<and> q \<in> set vs \<and> barrier t D (inst_at F q)"
      by (fastforce simp: inst_at_def)
  qed
  have entry_total: "sameBlockQuery F t (\<not> D) (getFirstNonPHIOrDbgOrLifetime F (fst To)) To \<noteq> None"
    and entry_no: "sameBlockQuery F t (\<not> D) (getFirstNonPHIOrDbgOrLifetime F (fst To)) To = Some False \<Longrightarrow>
      \<exists>k < snd To. barrier t D (block_insts F (fst To) ! k)"
    using same_block_decides [OF entry(2) toF(1) entry(3), of t D] entry(1)
    by (metis prod.collapse)+
  have map: "Analyzed A \<Longrightarrow> amaMopMap A From = Some m"
    using res(2) initializeMopMaps_distinct live From by (auto simp: live_mop_def)
  show "isOneMopActiveToAnother F A From To D \<noteq> None"
    using used map same(1) entry_total res(1)
    by (auto simp: isOneMopActiveToAnother_def Let_def)
  assume no: "isOneMopActiveToAnother F A From To D = Some False"
  show "(\<nexists>vs. exec F From To vs) \<or>
        (\<exists>vs q. exec F From To vs \<and> q \<in> set vs \<and> barrier t D (inst_at F q))"
  proof (cases "fst From = fst To")
    case True
    then have "sameBlockQuery F t (\<not> D) From To = Some False"
      using no res(1) by (auto simp: isOneMopActiveToAnother_def Let_def split: if_splits option.splits)
    from same(2) [OF True this] show ?thesis by blast
  next
    case False
    then have an: "Analyzed A" using used by simp
    note inv = res(2) [OF an, THEN conjunct2, THEN conjunct1]
    note st = res(2) [OF an, THEN conjunct2, THEN conjunct2]
    have H: "(\<lambda>b. usegen (?V b) m) = (\<lambda>b. b = fst From)"
      using live_mop_bits(1) [OF live] From by auto
    note exact = in_exact [OF R inv st toF(2), where m = m, unfolded H]
    have start: "mop_path (set RPOT) (edge F) (\<lambda>b. b = fst From) p d cs \<Longrightarrow> p = fst From" for p d cs
      by (induction rule: mop_path.induct) auto
    have neq: "fst To \<noteq> fst From" using False by simp
    have witness: "\<exists>vs q. exec F From To vs \<and> q \<in> set vs \<and> barrier t D (inst_at F q)"
      if "mop_path (set RPOT) (edge F) (\<lambda>b. b = fst From) p d cs" "edge F d (fst To)"
        "q \<in> exec_span F From cs To" "barrier t D (inst_at F q)" for p d cs q
      using path_exec_to [OF F vf To(1) that(1,2) neq] that(3,4) by metis
    show ?thesis
    proof (cases "reach (IN (?I ! fst To)) m")
      case unreached: False
      have "\<not> exec F From To vs" for vs
      proof
        assume "exec F From To vs"
        from exec_shape [OF this hR vf, of "\<lambda>b. b = fst From"] False unreached exact(1) show False by auto
      qed
      then show ?thesis by blast
    next
      case True
      then obtain d p cs where path: "edge F d (fst To)"
        "mop_path (set RPOT) (edge F) (\<lambda>b. b = fst From) p d cs" using exact(1) by blast
      show ?thesis
      proof (cases "isMopActiveBefore A m (fst To) (\<not> D)")
        case False
        then obtain k where "k = KCall \<or> k = order_kind D" "dirty k (IN (?I ! fst To)) m"
          using True active_Before [OF inv res(1) toF(2), of m D] by blast
        then obtain d p cs where d: "edge F d (fst To)" "mop_path (set RPOT) (edge F) (\<lambda>b. b = fst From) p d cs"
          "dirty_path ?V k m p cs" using exact(2) by blast
        then obtain q where "q \<in> exec_span F From cs To" "event t k (inst_at F q)"
          using dirty_span [OF live From] start by metis
        moreover from this \<open>k = KCall \<or> k = order_kind D\<close> have "barrier t D (inst_at F q)"
          by (auto simp: barrier_event)
        ultimately show ?thesis using witness [OF d(2,1)] by blast
      next
        case act: True
        then have "sameBlockQuery F t (\<not> D) (getFirstNonPHIOrDbgOrLifetime F (fst To)) To = Some False"
          using no an neq map res(1)
          by (auto simp: isOneMopActiveToAnother_def Let_def split: if_splits)
        from entry_no [OF this] obtain k where "k < snd To" "barrier t D (inst_at F (fst To, k))"
          by (auto simp: inst_at_def)
        moreover from this have "(fst To, k) \<in> exec_span F From cs To" by (auto simp: exec_span_def)
        ultimately show ?thesis using witness [OF path(2,1)] by blast
      qed
    qed
  qed
qed

section \<open>Properties\<close>

text \<open>
  A function for the witnesses: a store in the entry block, a loop with a load, a
  block that calls a clobbering function before its store, and a block that opens
  with the end of a lifetime.
\<close>

definition plain :: "Opcode \<Rightarrow> Instruction" where
  "plain op = \<lparr>opcode = op, MD_nosanitize = False, mayWriteToMemory = (op = CallBase),
     isAtomic = False, AtomicSyncScopeID = None, isPseudoProbe = False, isLifetimeStartOrEnd = False\<rparr>"

definition example_F :: Func where
  "example_F =
     [\<lparr>insts = [plain (StoreInst NotAtomic), plain OtherInst], succs = [1]\<rparr>,
      \<lparr>insts = [plain (LoadInst NotAtomic), plain OtherInst], succs = [1, 2]\<rparr>,
      \<lparr>insts = [plain CallBase, plain (StoreInst NotAtomic), plain OtherInst], succs = [3]\<rparr>,
      \<lparr>insts = [(plain CallBase)\<lparr>isLifetimeStartOrEnd := True\<rparr>, plain (LoadInst NotAtomic), plain OtherInst],
       succs = []\<rparr>]"

lemmas example_simps = example_F_def plain_def

abbreviation "example_mops \<equiv> [(0, 0), (1, 0), (2, 1), (3, 1)]"

definition example_query :: "inst_ref \<Rightarrow> inst_ref \<Rightarrow> bool option" where
  "example_query From To =
     (case new_ActiveMopAnalysis [0, 1, 2, 3] example_F example_mops False of
        None \<Rightarrow> None | Some A \<Rightarrow> isOneMopActiveToAnother example_F A From To False)"

lemma example_query_value:
  "example_query (0, 0) (1, 0) = Some True" "example_query (0, 0) (2, 1) = Some False"
  "example_query (2, 1) (3, 1) = Some True"
  by code_simp+

lemma example_visits: "visits_reachable example_F [0, 1, 2, 3]" by code_simp

lemma example_live: "live_mop example_F example_mops 0" by code_simp

lemma example_exec: "exec example_F (0, 0) (1, 0) [(0, 0), (0, 1)]"
proof -
  have "exec example_F (0, 0) (0, 1) ([] @ [(0, 0)])"
    by (rule exec_step [OF exec_start]) (simp_all add: next_ref_def block_insts_def example_simps)
  then have "exec example_F (0, 0) (1, 0) (([] @ [(0, 0)]) @ [(0, 1)])"
    by (rule exec_step) (simp_all add: next_ref_def block_insts_def block_succs_def edge_def example_simps)
  then show ?thesis by simp
qed

text \<open>C3: When the analysis answers that a memory operation is active at another, no
  execution from the one to the other (not passing the first again) meets a
  clobbering call, nor, for TSan, an acquire (a release if the second operation is
  the dead one) barrier, except before the first instruction of the target's block
  that is not a phi node, a debug marker or a lifetime marker.  There the analysis
  looks at nothing, so a clobbering lifetime marker at the head of the target's block
  is met in spite of a positive answer (\<open>leading_lifetime_marker_ignored\<close>).\<close>
theorem active_answer_sound:
  assumes "visits_reachable F RPOT" "new_ActiveMopAnalysis RPOT F Mops tsan = Some A"
    and "live_mop F Mops m" "valid_ref F To"
    and "fst (Mops ! m) = fst To \<longrightarrow> snd (Mops ! m) \<le> snd To"
    and "isOneMopActiveToAnother F A (Mops ! m) To IsToDead = Some True"
    and "exec F (Mops ! m) To vs" "q \<in> set vs"
  shows "\<not> barrier tsan IsToDead (inst_at F q) \<or>
         fst q = fst To \<and> snd q < snd (getFirstNonPHIOrDbgOrLifetime F (fst To))"
  using query_sound [OF assms(1,2,3) refl assms(4) _ assms(6,7,8)] assms(5) by blast

lemma active_answer_sound_witness:
  "\<not> barrier False False (inst_at example_F (0, 1))"
proof -
  obtain A where A: "new_ActiveMopAnalysis [0, 1, 2, 3] example_F example_mops False = Some A"
    "isOneMopActiveToAnother example_F A (0, 0) (1, 0) False = Some True"
    using example_query_value(1) by (auto simp: example_query_def split: option.splits)
  have "valid_ref example_F (1, 0)" by code_simp
  from active_answer_sound [OF example_visits A(1) example_live this _ _ _, of False "[(0, 0), (0, 1)]" "(0, 1)"]
    A(2) example_exec show ?thesis by simp
qed

text \<open>C4: The analysis always answers for two operations of a well-formed function (the
  second being a real instruction, after the first if both are in one block), and
  when it answers no then either no execution leads from the first to the second or
  one of them does meet a clobbering call or barrier.\<close>
theorem inactive_answer_precise:
  assumes "visits_reachable F RPOT" "new_ActiveMopAnalysis RPOT F Mops tsan = Some A"
    and "blocks_nonempty F" "fst (Mops ! m) \<in> set RPOT" "live_mop F Mops m"
    and "valid_ref F To" "\<not> entry_skipped (inst_at F To)"
    and "fst (Mops ! m) = fst To \<longrightarrow> snd (Mops ! m) \<le> snd To"
    and "Analyzed A \<or> fst (Mops ! m) = fst To"
  shows "isOneMopActiveToAnother F A (Mops ! m) To IsToDead = Some True \<or>
         isOneMopActiveToAnother F A (Mops ! m) To IsToDead = Some False \<and>
         ((\<nexists>vs. exec F (Mops ! m) To vs) \<or>
          (\<exists>vs q. exec F (Mops ! m) To vs \<and> q \<in> set vs \<and> barrier tsan IsToDead (inst_at F q)))"
proof -
  have "fst (Mops ! m) = fst To \<Longrightarrow> snd (Mops ! m) \<le> snd To" using assms(8) by blast
  note dec = query_decides [OF assms(1-5) refl assms(6,7) this assms(9), of IsToDead]
  from dec show ?thesis
    by (cases "isOneMopActiveToAnother F A (Mops ! m) To IsToDead") auto
qed

lemma inactive_answer_precise_witness:
  "\<exists>A. new_ActiveMopAnalysis [0, 1, 2, 3] example_F example_mops False = Some A \<and>
     isOneMopActiveToAnother example_F A (0, 0) (2, 1) False = Some False \<and>
     ((\<nexists>vs. exec example_F (0, 0) (2, 1) vs) \<or>
      (\<exists>vs q. exec example_F (0, 0) (2, 1) vs \<and> q \<in> set vs \<and> barrier False False (inst_at example_F q)))"
proof -
  obtain A where A: "new_ActiveMopAnalysis [0, 1, 2, 3] example_F example_mops False = Some A"
    "isOneMopActiveToAnother example_F A (0, 0) (2, 1) False = Some False"
    using example_query_value(2) by (auto simp: example_query_def split: option.splits)
  have "Analyzed A \<or> fst (example_mops ! 0) = fst (2::nat, 1::nat)"
    using A(2) by (cases "Analyzed A") (simp_all add: isOneMopActiveToAnother_def Let_def)
  moreover have "blocks_nonempty example_F" "valid_ref example_F (2, 1)"
    "\<not> entry_skipped (inst_at example_F (2, 1))" by code_simp+
  ultimately show ?thesis
    using inactive_answer_precise [OF example_visits A(1) _ _ example_live, of "(2, 1)" False] A by simp
qed

text \<open>C6: The data-flow iteration terminates: the constructor returns an analysis.\<close>
theorem analysis_terminates:
  assumes "visits_reachable F RPOT"
  shows "\<exists>A. new_ActiveMopAnalysis RPOT F Mops tsan = Some A"
proof -
  obtain infos where "dataflowAnalyze RPOT F Mops tsan = Some infos"
    by (rule dataflowAnalyze_result [OF assms])
  then show ?thesis by (simp add: new_ActiveMopAnalysis_def Let_def)
qed

lemma analysis_terminates_witness:
  "\<exists>A. new_ActiveMopAnalysis [0, 1, 2, 3] example_F [(0, 0), (3, 1)] True = Some A"
  by (rule analysis_terminates [OF example_visits])

text \<open>C5: The computed solution is the meet over all paths: a MOP is active at the end of a
  block exactly if some path leads there from the MOP's block without executing it
  again and no such path meets a clobbering call after the MOP.\<close>
theorem dataflow_meet_over_paths:
  assumes "visits_reachable F RPOT" "dataflowAnalyze RPOT F Mops tsan = Some infos" "b < length F"
  shows "isActive (OUT (infos ! b)) m \<longleftrightarrow>
     (\<exists>p cs. path_to (set RPOT) F (block_inv F Mops tsan) m p b cs) \<and>
     (\<forall>p cs. path_to (set RPOT) F (block_inv F Mops tsan) m p b cs \<longrightarrow>
        \<not> dirty_path (block_inv F Mops tsan) KCall m p cs)"
proof -
  have inv: "flow_inv F Mops tsan (set RPOT) infos" "\<forall>b \<in> set RPOT. stable F infos b"
    using dataflowAnalyze_result [OF assms(1)] assms(2) by (metis option.inject)+
  note exact = out_exact [OF visits_reachableD [OF assms(1)] inv assms(3)]
  have "isActive (OUT (infos ! b)) m \<longleftrightarrow> reach (OUT (infos ! b)) m \<and> \<not> dirty KCall (OUT (infos ! b)) m"
    by (simp add: isActive_def reach_def)
  then show ?thesis unfolding exact by blast
qed

lemma dataflow_meet_over_paths_witness:
  "\<exists>infos. dataflowAnalyze [0, 1, 2, 3] example_F example_mops False = Some infos \<and>
     (isActive (OUT (infos ! 2)) 0 \<longleftrightarrow>
      (\<exists>p cs. path_to (set [0, 1, 2, 3]) example_F (block_inv example_F example_mops False) 0 p 2 cs) \<and>
      (\<forall>p cs. path_to (set [0, 1, 2, 3]) example_F (block_inv example_F example_mops False) 0 p 2 cs \<longrightarrow>
        \<not> dirty_path (block_inv example_F example_mops False) KCall 0 p cs))"
proof -
  obtain infos where i: "dataflowAnalyze [0, 1, 2, 3] example_F example_mops False = Some infos"
    using dataflowAnalyze_result [OF example_visits] by blast
  have "2 < length example_F" by (simp add: example_simps)
  from dataflow_meet_over_paths [OF example_visits i this] i show ?thesis by blast
qed

text \<open>C7: A marker at the head of the target's block is skipped although the analysis treats
  the same instruction as a clobbering call everywhere else: the end of a lifetime
  between two accesses does not deactivate the first of them.\<close>
theorem leading_lifetime_marker_ignored:
  "clobbers (inst_at example_F (3, 0)) \<and> example_query (2, 1) (3, 1) = Some True \<and>
   exec example_F (2, 1) (3, 1) [(2, 1), (2, 2), (3, 0)]"
proof (intro conjI)
  show "clobbers (inst_at example_F (3, 0))" by code_simp
  show "example_query (2, 1) (3, 1) = Some True" by (rule example_query_value)
  have "exec example_F (2, 1) (2, 2) ([] @ [(2, 1)])"
    by (rule exec_step [OF exec_start]) (simp_all add: next_ref_def block_insts_def example_simps)
  then have "exec example_F (2, 1) (3, 0) (([] @ [(2, 1)]) @ [(2, 2)])"
    by (rule exec_step) (simp_all add: next_ref_def block_insts_def block_succs_def edge_def example_simps)
  then have "exec example_F (2, 1) (3, 1) ((([] @ [(2, 1)]) @ [(2, 2)]) @ [(3, 0)])"
    by (rule exec_step) (simp_all add: next_ref_def block_insts_def example_simps)
  then show "exec example_F (2, 1) (3, 1) [(2, 1), (2, 2), (3, 0)]" by simp
qed

end
