(* ===== verification/Recurrence.thy ===== *)
theory Recurrence
  imports Active_Mop_Query
begin

text \<open>
  \<open>instrumentation/Analysis/MopRecurrenceReducer.{h,cpp}\<close>: removing the sanitizer
  checks of memory operations that another checked operation covers.  What LLVM's
  analyses answer (alias analysis, object sizes, dominator trees, loop info, pointer
  decomposition) is the record \<open>llvm_env\<close>; what the reducer needs of these answers is
  the predicate \<open>env_sound\<close>.
\<close>

section \<open>The answers of LLVM\<close>

type_synonym "value" = nat

datatype LocationSize = precise u64 | upperBound u64 | beforeOrAfterPointer

fun isPrecise :: "LocationSize \<Rightarrow> bool" where
  "isPrecise (precise _) = True" | "isPrecise _ = False"

text \<open>\<open>getValue\<close> asserts that the size has a value.\<close>

fun getValue :: "LocationSize \<Rightarrow> u64" where
  "getValue (precise n) = n"
| "getValue (upperBound n) = n"
| "getValue beforeOrAfterPointer = 0"

record MemoryLocation =
  Ptr :: "value"
  Size :: LocationSize

datatype AliasResult = NoAlias | MayAlias | PartialAlias "32 word option" | MustAlias

record llvm_env =
  getLoopFor :: "nat \<Rightarrow> nat option"
  ContainsIrreducibleLoops :: bool
  stripPointerCasts :: "value \<Rightarrow> value"
  constantGEP :: "value \<Rightarrow> value option"
  definingBlock :: "value \<Rightarrow> nat option"
  getUnderlyingObject :: "value \<Rightarrow> value"
  isIdentifiedObject :: "value \<Rightarrow> bool"
  getObjectSize :: "value \<Rightarrow> u64 option"
  AA_alias :: "MemoryLocation \<Rightarrow> MemoryLocation \<Rightarrow> AliasResult"
  isMustAlias :: "value \<Rightarrow> value \<Rightarrow> bool"
  pointerBaseWithOffset :: "value \<Rightarrow> value \<times> u64"
  DT_dominates :: "inst_ref \<Rightarrow> inst_ref \<Rightarrow> bool"
  PDT_dominates :: "inst_ref \<Rightarrow> inst_ref \<Rightarrow> bool"
  MemoryLocation_get :: "inst_ref \<Rightarrow> MemoryLocation"
  isVolatile :: "inst_ref \<Rightarrow> bool"
  memIntrinsicLength :: "inst_ref \<Rightarrow> value option"
  maskedStoreArgs :: "inst_ref \<Rightarrow> (value \<times> value) option"
  chkLibcallLength :: "inst_ref \<Rightarrow> u64 option"

text \<open>
  \<open>constantGEP p\<close> is the pointer operand of a GEP with constant indices,
  \<open>definingBlock p\<close> the parent block if \<open>p\<close> is an instruction (block 0 is the entry),
  \<open>maskedStoreArgs\<close> the pointer and mask operands of a masked store, and
  \<open>chkLibcallLength\<close> the constant third argument of \<open>memset_chk\<close> or \<open>memcpy_chk\<close>.
\<close>

section \<open>Does one access contain the other?\<close>

definition isGuaranteedLoopInvariant :: "llvm_env \<Rightarrow> value \<Rightarrow> bool" where
  "isGuaranteedLoopInvariant env p =
     (let p = stripPointerCasts env p;
          p = (case constantGEP env p of None \<Rightarrow> p | Some q \<Rightarrow> stripPointerCasts env q)
      in case definingBlock env p of
           Some b \<Rightarrow> b = 0 \<or> (\<not> ContainsIrreducibleLoops env \<and> getLoopFor env b = None)
         | None \<Rightarrow> True)"

definition isGuaranteedLoopIndependent ::
  "llvm_env \<Rightarrow> inst_ref \<Rightarrow> inst_ref \<Rightarrow> MemoryLocation \<Rightarrow> bool" where
  "isGuaranteedLoopIndependent env Current KillingDef CurrentLoc =
     (if fst Current = fst KillingDef then True
      else if \<not> ContainsIrreducibleLoops env \<and> getLoopFor env (fst Current) \<noteq> None \<and>
              getLoopFor env (fst Current) = getLoopFor env (fst KillingDef) then True
      else isGuaranteedLoopInvariant env (Ptr CurrentLoc))"

definition strengthenLocationSize :: "llvm_env \<Rightarrow> inst_ref \<Rightarrow> LocationSize \<Rightarrow> LocationSize" where
  "strengthenLocationSize env I sz =
     (case chkLibcallLength env I of Some len \<Rightarrow> precise len | None \<Rightarrow> sz)"

definition isMaskedStoreOverwrite :: "llvm_env \<Rightarrow> inst_ref \<Rightarrow> inst_ref \<Rightarrow> bool" where
  "isMaskedStoreOverwrite env KillingI DeadI =
     (case (maskedStoreArgs env KillingI, maskedStoreArgs env DeadI) of
        (Some (kp, km), Some (dp, dm)) \<Rightarrow>
          (let KillingPtr = stripPointerCasts env kp; DeadPtr = stripPointerCasts env dp
           in if KillingPtr \<noteq> DeadPtr \<and> \<not> isMustAlias env KillingPtr DeadPtr then False
              else if km \<noteq> dm then False else True)
      | _ \<Rightarrow> False)"

text \<open>
  The comparison of two constant offsets from one base: \<open>int64_t\<close> compared as
  signed, their difference taken as \<open>uint64_t\<close>.
\<close>

definition offset_contains :: "u64 \<Rightarrow> u64 \<Rightarrow> u64 \<Rightarrow> u64 \<Rightarrow> bool" where
  "offset_contains KillingOff KillingSize DeadOff DeadSize \<longleftrightarrow>
     sint KillingOff \<le> sint DeadOff \<and> (DeadOff - KillingOff) + DeadSize \<le> KillingSize"

definition wholeObjectOverwrite :: "llvm_env \<Rightarrow> inst_ref \<Rightarrow> MemoryLocation \<Rightarrow> MemoryLocation \<Rightarrow> bool" where
  "wholeObjectOverwrite env KillingI KillingLoc DeadLoc =
     (let KillingLocSize = strengthenLocationSize env KillingI (Size KillingLoc);
          DeadUndObj = getUnderlyingObject env (stripPointerCasts env (Ptr DeadLoc));
          KillingUndObj = getUnderlyingObject env (stripPointerCasts env (Ptr KillingLoc))
      in DeadUndObj = KillingUndObj \<and> isPrecise KillingLocSize \<and> isIdentifiedObject env KillingUndObj \<and>
         getObjectSize env KillingUndObj = Some (getValue KillingLocSize))"

definition isAccessRangeContains ::
  "llvm_env \<Rightarrow> inst_ref \<Rightarrow> inst_ref \<Rightarrow> MemoryLocation \<Rightarrow> MemoryLocation \<Rightarrow> bool" where
  "isAccessRangeContains env KillingI DeadI KillingLoc DeadLoc =
     (if \<not> isGuaranteedLoopIndependent env DeadI KillingI DeadLoc then False
      else
        let DeadPtr = stripPointerCasts env (Ptr DeadLoc);
            KillingPtr = stripPointerCasts env (Ptr KillingLoc);
            DeadUndObj = getUnderlyingObject env DeadPtr;
            KillingUndObj = getUnderlyingObject env KillingPtr
        in if wholeObjectOverwrite env KillingI KillingLoc DeadLoc then True
           else if \<not> isPrecise (Size KillingLoc) \<or> \<not> isPrecise (Size DeadLoc) then
             (if (case (memIntrinsicLength env KillingI, memIntrinsicLength env DeadI) of
                    (Some kv, Some dv) \<Rightarrow> kv = dv \<and> AA_alias env DeadLoc KillingLoc = MustAlias
                  | _ \<Rightarrow> False)
              then True
              else isMaskedStoreOverwrite env KillingI DeadI)
           else
             let KillingSize = getValue (Size KillingLoc);
                 DeadSize = getValue (Size DeadLoc);
                 AAR = AA_alias env KillingLoc DeadLoc
             in if AAR = MustAlias \<and> KillingSize \<ge> DeadSize then True
                else if (case AAR of
                           PartialAlias (Some off) \<Rightarrow>
                             0 \<le> sint off \<and> ucast off + DeadSize \<le> KillingSize
                         | _ \<Rightarrow> False) then True
                else if DeadUndObj \<noteq> KillingUndObj then False
                else
                  let (DeadBase, DeadOff) = pointerBaseWithOffset env DeadPtr;
                      (KillingBase, KillingOff) = pointerBaseWithOffset env KillingPtr
                  in if DeadBase \<noteq> KillingBase then False
                     else offset_contains KillingOff KillingSize DeadOff DeadSize)"

section \<open>Memory operations\<close>

text \<open>\<open>CheckMode\<close>: a bit set, 1 for a read and 2 for a write.\<close>

type_synonym CheckMode = u8

definition ReadOnly :: CheckMode where "ReadOnly = 1"
definition WriteOnly :: CheckMode where "WriteOnly = 2"
definition ReadWrite :: CheckMode where "ReadWrite = 3"

record MemoryOperation =
  Loc :: MemoryLocation
  Inst :: inst_ref
  Mode :: CheckMode

definition new_MemoryOperation :: "Func \<Rightarrow> llvm_env \<Rightarrow> inst_ref \<Rightarrow> MemoryOperation" where
  "new_MemoryOperation F env I =
     (let m = \<lparr>Loc = MemoryLocation_get env I, Inst = I,
               Mode = (if mayWriteToMemory (inst_at F I) then WriteOnly else ReadOnly)\<rparr>
      in if isVolatile env I
         then m\<lparr>Mode := if isa_LoadInst (opcode (inst_at F I)) then ReadWrite else WriteOnly\<rparr>
         else m)"

definition isWrite :: "MemoryOperation \<Rightarrow> bool" where
  "isWrite m \<longleftrightarrow> Mode m = WriteOnly"

definition mergeMode :: "MemoryOperation \<Rightarrow> CheckMode \<Rightarrow> MemoryOperation" where
  "mergeMode m NewMode = m\<lparr>Mode := or (Mode m) NewMode\<rparr>"

text \<open>The result is the earlier of the two instructions; \<open>None\<close> is \<open>nullptr\<close>.\<close>

definition isMopCheckRecurring ::
  "Func \<Rightarrow> llvm_env \<Rightarrow> MemoryOperation \<Rightarrow> MemoryOperation \<Rightarrow> bool \<Rightarrow> inst_ref option" where
  "isMopCheckRecurring F env KillingMop DeadMop WriteSensitive =
     (let KillingI = Inst KillingMop; DeadI = Inst DeadMop
      in if \<not> isInterestingMop True (inst_at F KillingI) \<or> \<not> isInterestingMop True (inst_at F DeadI)
         then None
         else if WriteSensitive \<and> \<not> isWrite KillingMop \<and> isWrite KillingMop \<noteq> isWrite DeadMop
         then None
         else
           case (if DT_dominates env KillingI DeadI then Some KillingI
                 else if PDT_dominates env KillingI DeadI then Some DeadI else None) of
             None \<Rightarrow> None
           | Some FromI \<Rightarrow>
               if isAccessRangeContains env KillingI DeadI (Loc KillingMop) (Loc DeadMop)
               then Some FromI else None)"

section \<open>The recurrence graph\<close>

record Edge =
  Killing :: inst_ref
  Dead :: inst_ref
  From :: inst_ref
  Blocked :: bool

record Vertex =
  Mop :: inst_ref
  Children :: "inst_ref list"
  HasParent :: bool

text \<open>
  Vertices are looked up by their instruction (\<open>Mop2Vertex\<close>), and a pointer to a
  vertex is that instruction.
\<close>

definition addChildren :: "inst_ref \<Rightarrow> inst_ref \<Rightarrow> Vertex list \<Rightarrow> Vertex list" where
  "addChildren k d vs =
     map (\<lambda>v. if Mop v = d then v\<lparr>HasParent := True\<rparr> else v)
       (map (\<lambda>v. if Mop v = k then v\<lparr>Children := Children v @ [d]\<rparr> else v) vs)"

definition RecurringGraph :: "inst_ref list \<Rightarrow> Edge list \<Rightarrow> Vertex list" where
  "RecurringGraph Vertices Edges =
     fold (\<lambda>e vs. if Blocked e then vs else addChildren (Killing e) (Dead e) vs) Edges
       (map (\<lambda>i. \<lparr>Mop = i, Children = [], HasParent = False\<rparr>) Vertices)"

definition children_of :: "Vertex list \<Rightarrow> inst_ref \<Rightarrow> inst_ref list" where
  "children_of vs i = concat (map Children (filter (\<lambda>v. Mop v = i) vs))"

text \<open>
  \<open>depth_first_ext\<close>: the walk from one vertex, with the visited set kept by the
  caller.  The explicit stack holds the vertices still to be entered.
\<close>

definition graph_nodes :: "Vertex list \<Rightarrow> inst_ref set" where
  "graph_nodes vs = set (map Mop vs)"

lemma children_outside: "v \<notin> graph_nodes vs \<Longrightarrow> children_of vs v = []"
  unfolding children_of_def graph_nodes_def by (induction vs) auto

function (sequential) depth_first_ext ::
  "Vertex list \<Rightarrow> inst_ref list \<Rightarrow> inst_ref list \<Rightarrow> inst_ref list" where
  "depth_first_ext vs [] Visited = Visited"
| "depth_first_ext vs (v # stack) Visited =
     (if v \<in> set Visited then depth_first_ext vs stack Visited
      else depth_first_ext vs (children_of vs v @ stack) (v # Visited))"
  by pat_completeness auto

termination
proof (relation "(\<lambda>(vs, stack, Visited). card (graph_nodes vs - set Visited)) <*mlex*>
                 measure (\<lambda>(vs, stack, Visited). length stack)")
  fix vs v stack Visited assume new: "v \<notin> set (Visited :: inst_ref list)"
  have fin: "finite (graph_nodes vs - set Visited)" by (simp add: graph_nodes_def)
  show "((vs, children_of vs v @ stack, v # Visited), (vs, v # stack, Visited)) \<in>
      (\<lambda>(vs, stack, Visited). card (graph_nodes vs - set Visited)) <*mlex*>
      measure (\<lambda>(vs, stack, Visited). length stack)"
  proof (cases "v \<in> graph_nodes vs")
    case True
    then have "graph_nodes vs - set (v # Visited) \<subset> graph_nodes vs - set Visited" using new by auto
    then show ?thesis using psubset_card_mono [OF fin] by (intro mlex_less) simp
  next
    case False
    then have "graph_nodes vs - set (v # Visited) = graph_nodes vs - set Visited" by auto
    then show ?thesis using children_outside [OF False] by (intro mlex_leq) simp_all
  qed
qed (auto intro!: mlex_leq wf_mlex)

fun dominating_loop ::
  "Vertex list \<Rightarrow> (Vertex \<Rightarrow> inst_ref list \<Rightarrow> bool) \<Rightarrow> Vertex list \<Rightarrow> inst_ref list \<times> inst_ref list \<Rightarrow>
   inst_ref list \<times> inst_ref list" where
  "dominating_loop G skip [] st = st"
| "dominating_loop G skip (V # Vs) (DomSet, Visited) =
     (if skip V Visited then dominating_loop G skip Vs (DomSet, Visited)
      else dominating_loop G skip Vs (DomSet @ [Mop V], depth_first_ext G [Mop V] Visited))"

definition fillDominatingSet :: "Vertex list \<Rightarrow> inst_ref list \<Rightarrow> inst_ref list" where
  "fillDominatingSet G DomSet =
     (let (DomSet, Visited) = dominating_loop G (\<lambda>V Visited. HasParent V) G (DomSet, []);
          (DomSet, Visited) =
            dominating_loop G (\<lambda>V Visited. \<not> HasParent V \<or> Mop V \<in> set Visited) G (DomSet, Visited)
      in DomSet)"

section \<open>Distilling\<close>

definition collectEdges :: "Func \<Rightarrow> llvm_env \<Rightarrow> bool \<Rightarrow> inst_ref list \<Rightarrow> Edge list" where
  "collectEdges F env WriteSensitive Insts =
     concat (map (\<lambda>KillingI. concat (map (\<lambda>DeadI.
       if KillingI = DeadI then []
       else case isMopCheckRecurring F env (new_MemoryOperation F env KillingI)
                   (new_MemoryOperation F env DeadI) WriteSensitive of
              None \<Rightarrow> []
            | Some FromI \<Rightarrow> [\<lparr>Killing = KillingI, Dead = DeadI, From = FromI, Blocked = False\<rparr>])
       Insts)) Insts)"

definition collectCandidates :: "Edge list \<Rightarrow> inst_ref list" where
  "collectCandidates Edges =
     foldl (\<lambda>cs i. if i \<in> set cs then cs else cs @ [i]) []
       (concat (map (\<lambda>e. [Killing e, Dead e]) Edges))"

definition blockEdge :: "Func \<Rightarrow> ActiveMopAnalysis \<Rightarrow> Edge \<Rightarrow> Edge option" where
  "blockEdge F A e =
     (let IsToDead = (From e = Killing e);
          To = (if IsToDead then Dead e else Killing e)
      in case isOneMopActiveToAnother F A (From e) To IsToDead of
           None \<Rightarrow> None | Some active \<Rightarrow> Some (e\<lparr>Blocked := \<not> active\<rparr>))"

text \<open>
  \<open>RPOT\<close> is the block order the activeness analysis of the function uses; \<open>None\<close> is
  a failed assertion inside that analysis.
\<close>

fun mapM_option :: "('a \<Rightarrow> 'b option) \<Rightarrow> 'a list \<Rightarrow> 'b list option" where
  "mapM_option f [] = Some []"
| "mapM_option f (x # xs) =
     (case f x of None \<Rightarrow> None
      | Some y \<Rightarrow> (case mapM_option f xs of None \<Rightarrow> None | Some ys \<Rightarrow> Some (y # ys)))"

definition blockEdges ::
  "nat list \<Rightarrow> Func \<Rightarrow> bool \<Rightarrow> bool \<Rightarrow> inst_ref list \<Rightarrow> Edge list \<Rightarrow> Edge list option" where
  "blockEdges RPOT F IsTsan IgnoreCalls Candidates Edges =
     (if IgnoreCalls then Some Edges
      else case new_ActiveMopAnalysis RPOT F Candidates IsTsan of
             None \<Rightarrow> None | Some A \<Rightarrow> mapM_option (blockEdge F A) Edges)"

definition distillRecurringChecks ::
  "nat list \<Rightarrow> Func \<Rightarrow> llvm_env \<Rightarrow> inst_ref list \<Rightarrow> bool \<Rightarrow> bool \<Rightarrow> inst_ref list option" where
  "distillRecurringChecks RPOT F env Insts IsTsan IgnoreCalls =
     (if length Insts < 2 then Some Insts
      else
        let Edges = collectEdges F env IsTsan Insts;
            Candidates = collectCandidates Edges;
            DistilledMops = filter (\<lambda>I. I \<notin> set Candidates) Insts
        in case blockEdges RPOT F IsTsan IgnoreCalls Candidates Edges of
             None \<Rightarrow> None
           | Some Edges \<Rightarrow> Some (fillDominatingSet (RecurringGraph Candidates Edges) DistilledMops))"

end
