(* ===== verification/Recurrence_Props.thy ===== *)
theory Recurrence_Props
  imports Recurrence
begin

text \<open>
  Correctness of \<open>MopRecurrenceReducer\<close>: the depth-first walk, the dominating set,
  and what a removed check is covered by.
\<close>

section \<open>The walk\<close>

definition child_rel :: "Vertex list \<Rightarrow> inst_ref \<Rightarrow> inst_ref \<Rightarrow> bool" where
  "child_rel G x y \<longleftrightarrow> y \<in> set (children_of G x)"

lemma dfs_closed:
  assumes "\<forall>v \<in> set V. set (children_of G v) \<subseteq> set V \<union> set stack"
  shows "set stack \<union> set V \<subseteq> set (depth_first_ext G stack V) \<and>
         (\<forall>v \<in> set (depth_first_ext G stack V).
            set (children_of G v) \<subseteq> set (depth_first_ext G stack V))"
  using assms
proof (induction G stack V rule: depth_first_ext.induct)
  case (2 vs v stack V)
  show ?case
  proof (cases "v \<in> set V")
    case True
    with 2(3) have "\<forall>u \<in> set V. set (children_of vs u) \<subseteq> set V \<union> set stack" by auto
    from 2(1) [OF True this] True show ?thesis by auto
  next
    case False
    have "\<forall>u \<in> set (v # V). set (children_of vs u) \<subseteq> set (v # V) \<union> set (children_of vs v @ stack)"
      using 2(3) by auto
    from 2(2) [OF False this] False show ?thesis by auto
  qed
qed auto

lemma dfs_reach:
  assumes "y \<in> set (depth_first_ext G stack V)"
  shows "y \<in> set V \<or> (\<exists>x \<in> set stack. (child_rel G)\<^sup>*\<^sup>* x y)"
  using assms
proof (induction G stack V rule: depth_first_ext.induct)
  case (2 vs v stack V)
  show ?case
  proof (cases "v \<in> set V")
    case False
    with 2(2) [OF False] 2(3) consider "y \<in> set (v # V)"
      | x where "x \<in> set (children_of vs v @ stack)" "(child_rel vs)\<^sup>*\<^sup>* x y" by auto
    then show ?thesis
    proof cases
      case (2 x)
      then show ?thesis
        by (auto simp: child_rel_def [symmetric] dest: converse_rtranclp_into_rtranclp)
    qed auto
  qed (use 2 in auto)
qed simp

section \<open>The dominating set\<close>

definition dom_inv where
  "dom_inv G Dom0 DomSet Visited \<longleftrightarrow>
     (\<exists>new. DomSet = Dom0 @ new \<and> set new \<subseteq> graph_nodes G \<and>
        (\<forall>v \<in> set Visited. \<exists>d \<in> set new. (child_rel G)\<^sup>*\<^sup>* d v) \<and>
        (\<forall>v \<in> set Visited. set (children_of G v) \<subseteq> set Visited))"

lemma dominating_loop_inv:
  assumes "dom_inv G D0 D V" "set (map Mop Vs) \<subseteq> graph_nodes G" "dominating_loop G skip Vs (D, V) = (D', V')"
  shows "dom_inv G D0 D' V' \<and> set V \<subseteq> set V'"
  using assms
proof (induction Vs arbitrary: D V)
  case (Cons v Vs)
  show ?case
  proof (cases "skip v V")
    case True
    then show ?thesis using Cons by simp
  next
    case False
    let ?W = "depth_first_ext G [Mop v] V"
    obtain new where new: "D = D0 @ new" "set new \<subseteq> graph_nodes G"
      "\<forall>v \<in> set V. \<exists>d \<in> set new. (child_rel G)\<^sup>*\<^sup>* d v"
      "\<forall>v \<in> set V. set (children_of G v) \<subseteq> set V"
      using Cons.prems(1) by (auto simp: dom_inv_def)
    have closed: "set [Mop v] \<union> set V \<subseteq> set ?W \<and> (\<forall>u \<in> set ?W. set (children_of G u) \<subseteq> set ?W)"
      by (rule dfs_closed) (use new(4) in auto)
    have "dom_inv G D0 (D @ [Mop v]) ?W"
      unfolding dom_inv_def
    proof (intro exI [of _ "new @ [Mop v]"] conjI)
      show "\<forall>u \<in> set ?W. \<exists>d \<in> set (new @ [Mop v]). (child_rel G)\<^sup>*\<^sup>* d u"
        using new(3) dfs_reach [of _ G "[Mop v]" V] by fastforce
    qed (use new closed Cons.prems(2) in auto)
    with Cons.IH [of "D @ [Mop v]" ?W] Cons.prems(2,3) False closed show ?thesis by auto
  qed
qed simp

lemma dominating_loop_visits:
  assumes "dom_inv G D0 D V" "set (map Mop Vs) \<subseteq> graph_nodes G" "dominating_loop G skip Vs (D, V) = (D', V')"
    and "v \<in> set Vs" "\<And>W. set V \<subseteq> set W \<Longrightarrow> skip v W \<Longrightarrow> Mop v \<in> set W \<or> Q v"
  shows "Mop v \<in> set V' \<or> Q v"
  using assms
proof (induction Vs arbitrary: D V)
  case (Cons u Vs)
  have sub: "set (map Mop [u]) \<subseteq> graph_nodes G" using Cons.prems(2) by simp
  obtain D1 V1 where step: "dominating_loop G skip [u] (D, V) = (D1, V1)" by fastforce
  have rest: "dominating_loop G skip Vs (D1, V1) = (D', V')"
    using step Cons.prems(3) by (auto split: if_splits)
  have inv1: "dom_inv G D0 D1 V1" "set V \<subseteq> set V1"
    using dominating_loop_inv [OF Cons.prems(1) sub step] by auto
  have mono: "set V1 \<subseteq> set V'"
    using dominating_loop_inv [OF inv1(1) _ rest] Cons.prems(2) by simp
  show ?case
  proof (cases "v = u")
    case True
    show ?thesis
    proof (cases "skip u V")
      case skip: True
      with True Cons.prems(5) [of V] inv1(2) mono show ?thesis by auto
    next
      case False
      have "\<forall>x \<in> set V. set (children_of G x) \<subseteq> set V \<union> set [Mop u]"
        using Cons.prems(1) by (auto simp: dom_inv_def)
      from dfs_closed [OF this] have "Mop u \<in> set (depth_first_ext G [Mop u] V)" by simp
      moreover have "V1 = depth_first_ext G [Mop u] V" using False step
        by (simp del: depth_first_ext.simps)
      ultimately show ?thesis using mono True by blast
    qed
  next
    case False
    with Cons.IH [OF inv1(1) _ rest] Cons.prems(2,4,5) inv1(2) show ?thesis by auto
  qed
qed simp

lemma fillDominatingSet_covers:
  obtains new where "fillDominatingSet G D0 = D0 @ new" "set new \<subseteq> graph_nodes G"
    "\<forall>v \<in> graph_nodes G. \<exists>d \<in> set new. (child_rel G)\<^sup>*\<^sup>* d v"
proof -
  obtain D1 V1 where 1: "dominating_loop G (\<lambda>V Visited. HasParent V) G (D0, []) = (D1, V1)" by fastforce
  let ?s2 = "\<lambda>V Visited. \<not> HasParent V \<or> Mop V \<in> set Visited"
  obtain D2 V2 where 2: "dominating_loop G ?s2 G (D1, V1) = (D2, V2)" by fastforce
  have i0: "dom_inv G D0 D0 []" by (simp add: dom_inv_def)
  have all: "set (map Mop G) \<subseteq> graph_nodes G" by (simp add: graph_nodes_def)
  have i1: "dom_inv G D0 D1 V1" using dominating_loop_inv [OF i0 all 1] by simp
  have i2: "dom_inv G D0 D2 V2" "set V1 \<subseteq> set V2" using dominating_loop_inv [OF i1 all 2] by simp_all
  have "Mop v \<in> set V2" if "v \<in> set G" for v
  proof (cases "HasParent v")
    case True
    have "Mop v \<in> set V2 \<or> False"
      by (rule dominating_loop_visits [OF i1 all 2 that]) (use True in auto)
    then show ?thesis by simp
  next
    case False
    have "Mop v \<in> set V1 \<or> False"
      by (rule dominating_loop_visits [OF i0 all 1 that]) (use False in auto)
    with i2(2) show ?thesis by auto
  qed
  with i2(1) have "\<exists>new. D2 = D0 @ new \<and> set new \<subseteq> graph_nodes G \<and>
      (\<forall>v \<in> graph_nodes G. \<exists>d \<in> set new. (child_rel G)\<^sup>*\<^sup>* d v)"
    unfolding dom_inv_def graph_nodes_def by fastforce
  moreover have "fillDominatingSet G D0 = D2"
    by (simp only: fillDominatingSet_def Let_def 1 2 prod.case)
  ultimately show ?thesis using that by blast
qed

section \<open>Edges of the graph\<close>

lemma addChildren_simps:
  "map Mop (addChildren k d vs) = map Mop vs"
  "y \<in> set (children_of (addChildren k d vs) x) \<longleftrightarrow>
     y \<in> set (children_of vs x) \<or> (x = k \<and> y = d \<and> k \<in> graph_nodes vs)"
proof -
  show "map Mop (addChildren k d vs) = map Mop vs" by (simp add: addChildren_def)
  show "y \<in> set (children_of (addChildren k d vs) x) \<longleftrightarrow>
     y \<in> set (children_of vs x) \<or> (x = k \<and> y = d \<and> k \<in> graph_nodes vs)"
    unfolding addChildren_def children_of_def graph_nodes_def
    by (induction vs) (simp_all, blast)
qed

lemma RecurringGraph_edges:
  "graph_nodes (RecurringGraph Vs Es) = set Vs"
  "child_rel (RecurringGraph Vs Es) x y \<longleftrightarrow>
     x \<in> set Vs \<and> (\<exists>e \<in> set Es. \<not> Blocked e \<and> Killing e = x \<and> Dead e = y)"
proof -
  let ?f = "\<lambda>e vs. if Blocked e then vs else addChildren (Killing e) (Dead e) vs"
  have "map Mop (fold ?f Es vs) = map Mop vs \<and>
    (y \<in> set (children_of (fold ?f Es vs) x) \<longleftrightarrow> y \<in> set (children_of vs x) \<or>
      x \<in> graph_nodes vs \<and> (\<exists>e \<in> set Es. \<not> Blocked e \<and> Killing e = x \<and> Dead e = y))" for vs
  proof (induction Es arbitrary: vs)
    case (Cons e Es)
    have "graph_nodes (addChildren (Killing e) (Dead e) vs) = graph_nodes vs"
      by (metis addChildren_simps(1) graph_nodes_def)
    with Cons [of "?f e vs"] show ?case
      by (cases "Blocked e"; simp add: addChildren_simps; blast)
  qed simp
  from this [of "map (\<lambda>i. \<lparr>Mop = i, Children = [], HasParent = False\<rparr>) Vs"]
  show "graph_nodes (RecurringGraph Vs Es) = set Vs"
    "child_rel (RecurringGraph Vs Es) x y \<longleftrightarrow>
     x \<in> set Vs \<and> (\<exists>e \<in> set Es. \<not> Blocked e \<and> Killing e = x \<and> Dead e = y)"
    by (auto simp: RecurringGraph_def graph_nodes_def child_rel_def children_of_def comp_def)
qed

section \<open>Ranges\<close>

text \<open>
  \<open>addr\<close> is the address a pointer value stands for.  \<open>env_sound\<close> is what LLVM
  documents of its answers: casts keep the address, must-alias locations start at the
  same address, a partial alias with an offset says where the second location starts
  relative to the first, the decomposition of a pointer is its base plus the offset,
  sizes and offsets fit the address space (a precise \<open>LocationSize\<close> is below
  \<open>2 ^ 63\<close>), and loads and stores are neither memory intrinsics nor masked stores.
\<close>

definition env_sound :: "Func \<Rightarrow> llvm_env \<Rightarrow> (value \<Rightarrow> int) \<Rightarrow> bool" where
  "env_sound F env addr \<longleftrightarrow>
     (\<forall>p. addr (stripPointerCasts env p) = addr p) \<and>
     (\<forall>k d. AA_alias env k d = MustAlias \<longrightarrow> addr (Ptr k) = addr (Ptr d)) \<and>
     (\<forall>k d off. AA_alias env k d = PartialAlias (Some off) \<longrightarrow> addr (Ptr d) = addr (Ptr k) + sint off) \<and>
     (\<forall>p. addr p = addr (fst (pointerBaseWithOffset env p)) + sint (snd (pointerBaseWithOffset env p)) \<and>
          \<bar>sint (snd (pointerBaseWithOffset env p))\<bar> < 2 ^ 62) \<and>
     (\<forall>i n. Size (MemoryLocation_get env i) = precise n \<longrightarrow> uint n < 2 ^ 63) \<and>
     (\<forall>i. interesting (inst_at F i) \<longrightarrow>
          memIntrinsicLength env i = None \<and> maskedStoreArgs env i = None)"

lemma env_soundD:
  assumes "env_sound F env addr"
  shows "addr (stripPointerCasts env p) = addr p"
    and "AA_alias env k d = MustAlias \<Longrightarrow> addr (Ptr k) = addr (Ptr d)"
    and "AA_alias env k d = PartialAlias (Some off) \<Longrightarrow> addr (Ptr d) = addr (Ptr k) + sint off"
    and "addr p = addr (fst (pointerBaseWithOffset env p)) + sint (snd (pointerBaseWithOffset env p))"
    and "\<bar>sint (snd (pointerBaseWithOffset env p))\<bar> < 2 ^ 62"
    and "Size (MemoryLocation_get env i) = precise n \<Longrightarrow> uint n < 2 ^ 63"
    and "interesting (inst_at F i) \<Longrightarrow> memIntrinsicLength env i = None"
    and "interesting (inst_at F i) \<Longrightarrow> maskedStoreArgs env i = None"
  using assms unfolding env_sound_def by blast+

text \<open>The bytes a memory location covers; only precise sizes denote a range.\<close>

definition loc_range :: "(value \<Rightarrow> int) \<Rightarrow> MemoryLocation \<Rightarrow> int set" where
  "loc_range addr l = {addr (Ptr l) ..< addr (Ptr l) + uint (getValue (Size l))}"

lemma offset_contains_range:
  fixes ko ks do ds :: u64
  assumes c: "offset_contains ko ks do ds" and ds: "uint ds < 2 ^ 63"
    and small: "\<bar>sint ko\<bar> < 2 ^ 62" "\<bar>sint do\<bar> < 2 ^ 62"
  shows "sint ko \<le> sint do \<and> sint do + uint ds \<le> sint ko + uint ks"
proof -
  have le: "sint ko \<le> sint do" using c by (simp add: offset_contains_def)
  have "uint (word_of_int (sint do - sint ko) :: u64) = (sint do - sint ko) mod 2 ^ LENGTH(64)"
    by (rule uint_word_of_int)
  then have e: "uint (do - ko) = (sint do - sint ko) mod 2 ^ 64" by simp
  have b: "sint do < 2 ^ 62" "- (2 ^ 62) < sint ko" using small by linarith+
  have lt: "sint do - sint ko < 2 ^ 64" using b by simp
  have d: "uint (do - ko) = sint do - sint ko"
    unfolding e by (rule mod_pos_pos_trivial) (use le lt in simp_all)
  have "uint ds < 2 ^ 63" by (rule ds)
  moreover have "uint (do - ko) < 2 ^ 63" unfolding d using b by simp
  ultimately have "uint ((do - ko) + ds) = uint (do - ko) + uint ds"
    by (intro uint_add_small) simp
  with c have "uint (do - ko) + uint ds \<le> uint ks"
    by (simp add: offset_contains_def word_le_def)
  with d le show ?thesis by linarith
qed

lemma partial_range:
  fixes off :: "32 word" and ds ks :: u64
  assumes "0 \<le> sint off" "ucast off + ds \<le> ks" "uint ds < 2 ^ 63"
  shows "sint off + uint ds \<le> uint ks"
proof -
  have "uint (word_of_int (sint off) :: 32 word) = sint off mod 2 ^ 32"
    by (simp only: uint_word_of_int) simp
  moreover have "sint off < 2 ^ 32" using sint_lt [of off] by simp
  ultimately have nn: "sint off = uint off" using assms(1) by simp
  have u: "uint (ucast off :: u64) = uint off" using uint_lt2p [of off] by (simp add: unsigned_ucast_eq take_bit_eq_mod)
  have "uint off < 2 ^ 32" using uint_lt2p [of off] by simp
  moreover have "uint ds < 2 ^ 63" by (rule assms(3))
  ultimately have "uint (ucast off + ds) = uint off + uint ds"
    using uint_add_small [of "ucast off" ds] u by simp
  with assms(2) nn show ?thesis by (simp add: word_le_def)
qed

text \<open>
  A positive answer of \<open>isAccessRangeContains\<close> on two loads or stores means
  containment of the ranges, the whole-object shortcut apart.
\<close>

lemma contains_sound:
  assumes env: "env_sound F env addr"
    and K: "interesting (inst_at F k)" "kl = MemoryLocation_get env k"
    and D: "interesting (inst_at F d)" "dl = MemoryLocation_get env d"
    and yes: "isAccessRangeContains env k d kl dl" and whole: "\<not> wholeObjectOverwrite env k kl dl"
  shows "isPrecise (Size kl) \<and> isPrecise (Size dl) \<and> loc_range addr dl \<subseteq> loc_range addr kl"
proof -
  have lib: "memIntrinsicLength env k = None" "maskedStoreArgs env k = None"
    using env_soundD(7,8) [OF env K(1)] by simp_all
  have prec: "isPrecise (Size kl)" "isPrecise (Size dl)"
    using yes whole by (auto simp: isAccessRangeContains_def isMaskedStoreOverwrite_def lib
      Let_def split: if_splits)
  let ?ks = "getValue (Size kl)" and ?ds = "getValue (Size dl)"
  have small: "uint ?ds < 2 ^ 63"
    using env_soundD(6) [OF env] D(2) prec(2) by (cases "Size dl") auto
  obtain db do where db: "pointerBaseWithOffset env (stripPointerCasts env (Ptr dl)) = (db, do)" by fastforce
  obtain kb ko where kb: "pointerBaseWithOffset env (stripPointerCasts env (Ptr kl)) = (kb, ko)" by fastforce
  have base: "addr p = addr (fst (pointerBaseWithOffset env p)) + sint (snd (pointerBaseWithOffset env p))"
    "\<bar>sint (snd (pointerBaseWithOffset env p))\<bar> < 2 ^ 62" for p
    using env_soundD(4,5) [OF env] by blast+
  note strip = env_soundD(1) [OF env]
  have ad: "addr (Ptr dl) = addr db + sint do" "\<bar>sint do\<bar> < 2 ^ 62"
    using base [of "stripPointerCasts env (Ptr dl)"] strip db by simp_all
  have ak: "addr (Ptr kl) = addr kb + sint ko" "\<bar>sint ko\<bar> < 2 ^ 62"
    using base [of "stripPointerCasts env (Ptr kl)"] strip kb by simp_all
  from yes whole prec consider
    (must) "AA_alias env kl dl = MustAlias" "?ks \<ge> ?ds"
    | (part) off where "AA_alias env kl dl = PartialAlias (Some off)" "0 \<le> sint off"
        "ucast off + ?ds \<le> ?ks"
    | (offset) "db = kb" "offset_contains ko ?ks do ?ds"
    by (auto simp: isAccessRangeContains_def Let_def db kb split: if_splits AliasResult.splits option.splits)
  then have "addr (Ptr kl) \<le> addr (Ptr dl) \<and> addr (Ptr dl) + uint ?ds \<le> addr (Ptr kl) + uint ?ks"
  proof cases
    case must
    moreover have "addr (Ptr kl) = addr (Ptr dl)" by (rule env_soundD(2) [OF env must(1)])
    ultimately show ?thesis by (simp add: word_le_def)
  next
    case (part off)
    moreover have "addr (Ptr dl) = addr (Ptr kl) + sint off" by (rule env_soundD(3) [OF env part(1)])
    ultimately show ?thesis using partial_range [OF part(2,3) small] by simp
  next
    case offset
    then show ?thesis using offset_contains_range [OF offset(2) small ak(2) ad(2)] ad(1) ak(1) by simp
  qed
  then show ?thesis using prec by (auto simp: loc_range_def)
qed

section \<open>Covering\<close>

definition covers :: "Func \<Rightarrow> llvm_env \<Rightarrow> bool \<Rightarrow> inst_ref \<Rightarrow> inst_ref \<Rightarrow> bool" where
  "covers F env WriteSensitive k d \<longleftrightarrow>
     isMopCheckRecurring F env (new_MemoryOperation F env k) (new_MemoryOperation F env d) WriteSensitive \<noteq> None"

text \<open>The range and, where it matters, the write part of a covered check.\<close>

definition check_within :: "Func \<Rightarrow> llvm_env \<Rightarrow> (value \<Rightarrow> int) \<Rightarrow> bool \<Rightarrow> inst_ref \<Rightarrow> inst_ref \<Rightarrow> bool" where
  "check_within F env addr WriteSensitive d k \<longleftrightarrow>
     loc_range addr (MemoryLocation_get env d) \<subseteq> loc_range addr (MemoryLocation_get env k) \<and>
     (WriteSensitive \<longrightarrow> isWrite (new_MemoryOperation F env d) \<longrightarrow> isWrite (new_MemoryOperation F env k))"

lemma new_MemoryOperation_simps [simp]:
  "Inst (new_MemoryOperation F env i) = i"
  "Loc (new_MemoryOperation F env i) = MemoryLocation_get env i"
  by (simp_all add: new_MemoryOperation_def Let_def)

lemma covers_within:
  assumes "env_sound F env addr" "covers F env ws k d"
    and "\<not> wholeObjectOverwrite env k (MemoryLocation_get env k) (MemoryLocation_get env d)"
  shows "check_within F env addr ws d k"
proof -
  from assms(2) have "interesting (inst_at F k)" "interesting (inst_at F d)"
    "isAccessRangeContains env k d (MemoryLocation_get env k) (MemoryLocation_get env d)"
    "ws \<longrightarrow> isWrite (new_MemoryOperation F env k) \<or>
       isWrite (new_MemoryOperation F env k) = isWrite (new_MemoryOperation F env d)"
    by (auto simp: covers_def isMopCheckRecurring_def Let_def split: if_splits option.splits)
  with contains_sound [OF assms(1) this(1) refl this(2) refl this(3) assms(3)]
  show ?thesis by (auto simp: check_within_def)
qed

lemma check_within_trans:
  "check_within F env addr ws c b \<Longrightarrow> check_within F env addr ws b a \<Longrightarrow> check_within F env addr ws c a"
  by (auto simp: check_within_def)

section \<open>Distilling\<close>

lemma collectEdges_iff:
  "e \<in> set (collectEdges F env ws Insts) \<longleftrightarrow>
     Killing e \<in> set Insts \<and> Dead e \<in> set Insts \<and> Killing e \<noteq> Dead e \<and> \<not> Blocked e \<and>
     isMopCheckRecurring F env (new_MemoryOperation F env (Killing e))
       (new_MemoryOperation F env (Dead e)) ws = Some (Recurrence.From e)"
  by (cases e) (auto simp: collectEdges_def split: option.splits if_splits)

lemma collectCandidates_set:
  "set (collectCandidates Es) = Killing ` set Es \<union> Dead ` set Es"
  "distinct (collectCandidates Es)"
proof -
  let ?f = "\<lambda>cs i. if i \<in> set cs then cs else cs @ [i]"
  have *: "set (foldl ?f cs is) = set cs \<union> set is \<and> (distinct cs \<longrightarrow> distinct (foldl ?f cs is))" for cs "is"
    by (induction "is" arbitrary: cs) auto
  have ends: "set (concat (map (\<lambda>e. [Killing e, Dead e]) Es)) = Killing ` set Es \<union> Dead ` set Es"
    by (induction Es) auto
  show "set (collectCandidates Es) = Killing ` set Es \<union> Dead ` set Es"
    unfolding collectCandidates_def ends [symmetric]
    using * [of "[]" "concat (map (\<lambda>e. [Killing e, Dead e]) Es)"] by (simp del: set_concat)
  show "distinct (collectCandidates Es)"
    unfolding collectCandidates_def
    using * [of "[]" "concat (map (\<lambda>e. [Killing e, Dead e]) Es)"] by simp
qed

lemma mapM_option_Some:
  "mapM_option f xs = Some ys \<Longrightarrow> y \<in> set ys \<Longrightarrow> \<exists>x \<in> set xs. f x = Some y"
  by (induction xs arbitrary: ys) (auto split: option.splits)

lemma blockEdge_Some:
  "blockEdge F A e = Some e' \<Longrightarrow> Killing e' = Killing e \<and> Dead e' = Dead e \<and>
     Recurrence.From e' = Recurrence.From e \<and>
     isOneMopActiveToAnother F A (Recurrence.From e)
       (if Recurrence.From e = Killing e then Dead e else Killing e)
       (Recurrence.From e = Killing e) = Some (\<not> Blocked e')"
  by (cases e) (auto simp: blockEdge_def Let_def split: option.splits)

text \<open>What an unblocked edge of the graph stands for.\<close>

definition active_cover ::
  "nat list \<Rightarrow> Func \<Rightarrow> llvm_env \<Rightarrow> bool \<Rightarrow> bool \<Rightarrow> inst_ref list \<Rightarrow> inst_ref \<Rightarrow> inst_ref \<Rightarrow> bool" where
  "active_cover RPOT F env IsTsan IgnoreCalls Cands k d \<longleftrightarrow>
     k \<in> set Cands \<and> d \<in> set Cands \<and>
     (\<exists>from. isMopCheckRecurring F env (new_MemoryOperation F env k) (new_MemoryOperation F env d) IsTsan
               = Some from \<and>
        (IgnoreCalls \<or> (\<exists>A. new_ActiveMopAnalysis RPOT F Cands IsTsan = Some A \<and>
           isOneMopActiveToAnother F A from (if from = k then d else k) (from = k) = Some True)))"

lemma distill_cover:
  assumes "distillRecurringChecks RPOT F env Insts IsTsan IgnoreCalls = Some Kept"
  defines "Cands \<equiv> collectCandidates (collectEdges F env IsTsan Insts)"
  shows "set Kept \<subseteq> set Insts \<and>
    (\<forall>d \<in> set Insts. \<exists>k \<in> set Kept. (active_cover RPOT F env IsTsan IgnoreCalls Cands)\<^sup>*\<^sup>* k d)"
proof (cases "length Insts < 2")
  case True
  then show ?thesis using assms(1) by (auto simp: distillRecurringChecks_def)
next
  case False
  let ?Es = "collectEdges F env IsTsan Insts"
  let ?D0 = "filter (\<lambda>I. I \<notin> set Cands) Insts"
  obtain Es where Es: "blockEdges RPOT F IsTsan IgnoreCalls Cands ?Es = Some Es"
    and Kept: "Kept = fillDominatingSet (RecurringGraph Cands Es) ?D0"
    using assms(1) False unfolding distillRecurringChecks_def Cands_def by (auto simp: Let_def split: option.splits)
  have edge: "active_cover RPOT F env IsTsan IgnoreCalls Cands (Killing e) (Dead e)"
    if "e \<in> set Es" "\<not> Blocked e" for e
  proof (cases IgnoreCalls)
    case True
    then show ?thesis using that Es
      by (auto simp: blockEdges_def collectEdges_iff active_cover_def Cands_def collectCandidates_set)
  next
    case ign: False
    then obtain A where A: "new_ActiveMopAnalysis RPOT F Cands IsTsan = Some A"
      "mapM_option (blockEdge F A) ?Es = Some Es"
      using Es by (auto simp: blockEdges_def split: option.splits)
    from mapM_option_Some [OF A(2) that(1)] obtain e0 where e0: "e0 \<in> set ?Es" "blockEdge F A e0 = Some e" by blast
    then show ?thesis using blockEdge_Some [OF e0(2)] A(1) that(2)
      by (auto simp: active_cover_def collectEdges_iff Cands_def collectCandidates_set)
  qed
  have cands: "set Cands \<subseteq> set Insts"
    unfolding Cands_def collectCandidates_set by (auto simp: collectEdges_iff)
  obtain new where new: "Kept = ?D0 @ new" "set new \<subseteq> set Cands"
    "\<forall>v \<in> set Cands. \<exists>d \<in> set new. (child_rel (RecurringGraph Cands Es))\<^sup>*\<^sup>* d v"
    using fillDominatingSet_covers [of "RecurringGraph Cands Es" ?D0] Kept
    unfolding RecurringGraph_edges(1) by metis
  have rel: "(child_rel (RecurringGraph Cands Es))\<^sup>*\<^sup>* x y \<Longrightarrow>
      (active_cover RPOT F env IsTsan IgnoreCalls Cands)\<^sup>*\<^sup>* x y" for x y :: inst_ref
  proof (rule rtranclp_mono [THEN predicate2D])
    show "child_rel (RecurringGraph Cands Es) \<le> active_cover RPOT F env IsTsan IgnoreCalls Cands"
      using edge unfolding RecurringGraph_edges(2) le_fun_def le_bool_def by metis
  qed
  show ?thesis
  proof (intro conjI ballI)
    show "set Kept \<subseteq> set Insts" using new(1,2) cands by auto
    fix d assume "d \<in> set Insts"
    then show "\<exists>k \<in> set Kept. (active_cover RPOT F env IsTsan IgnoreCalls Cands)\<^sup>*\<^sup>* k d"
      using new rel by (cases "d \<in> set Cands") fastforce+
  qed
qed

lemma active_cover_within:
  assumes "env_sound F env addr" "(active_cover RPOT F env IsTsan IgnoreCalls Cands)\<^sup>*\<^sup>* k d"
    and "\<forall>i \<in> set Cands. \<forall>j \<in> set Cands.
           \<not> wholeObjectOverwrite env i (MemoryLocation_get env i) (MemoryLocation_get env j)"
  shows "check_within F env addr IsTsan d k"
  using assms(2)
proof induction
  case base
  then show ?case by (simp add: check_within_def)
next
  case (step b c)
  have "covers F env IsTsan b c" using step.hyps(2) by (auto simp: covers_def active_cover_def)
  moreover have "b \<in> set Cands" "c \<in> set Cands" using step.hyps(2) by (auto simp: active_cover_def)
  ultimately show ?case
    using covers_within [OF assms(1), of IsTsan b c] assms(3) step.IH by (blast intro: check_within_trans)
qed

section \<open>Properties\<close>

text \<open>
  Environments for the witnesses: one block with two stores and a load of the same
  pointer, and one with two stores into an object of eight bytes, the second store
  past its end.
\<close>

definition same_pointer_env :: llvm_env where
  "same_pointer_env =
     \<lparr>getLoopFor = \<lambda>b. None, ContainsIrreducibleLoops = False, stripPointerCasts = \<lambda>p. p,
      constantGEP = \<lambda>p. None, definingBlock = \<lambda>p. Some 0, getUnderlyingObject = \<lambda>p. p,
      isIdentifiedObject = \<lambda>p. True, getObjectSize = \<lambda>p. Some 64,
      AA_alias = \<lambda>k d. if Ptr k = Ptr d then MustAlias else MayAlias, isMustAlias = (=),
      pointerBaseWithOffset = \<lambda>p. (p, 0),
      DT_dominates = \<lambda>i j. fst i = fst j \<and> snd i < snd j,
      PDT_dominates = \<lambda>i j. fst i = fst j \<and> snd j < snd i,
      MemoryLocation_get = \<lambda>i. \<lparr>Ptr = 1, Size = precise (if snd i = 1 then 8 else 4)\<rparr>,
      isVolatile = \<lambda>i. False, memIntrinsicLength = \<lambda>i. None, maskedStoreArgs = \<lambda>i. None,
      chkLibcallLength = \<lambda>i. None\<rparr>"

definition past_end_env :: llvm_env where
  "past_end_env = same_pointer_env
     \<lparr>getUnderlyingObject := \<lambda>p. 1, getObjectSize := \<lambda>p. Some 8,
      AA_alias := \<lambda>k d. MayAlias,
      pointerBaseWithOffset := \<lambda>p. if p = 2 then (1, 16) else (p, 0),
      MemoryLocation_get := \<lambda>i. \<lparr>Ptr = (if snd i = 1 then 2 else 1), Size = precise 8\<rparr>\<rparr>"

definition three_accesses :: Func where
  "three_accesses =
     [\<lparr>insts = [plain (StoreInst NotAtomic), plain (StoreInst NotAtomic), plain (LoadInst NotAtomic),
                plain OtherInst], succs = []\<rparr>]"

lemma same_pointer_sound: "env_sound three_accesses same_pointer_env int"
  by (auto simp: env_sound_def same_pointer_env_def)

lemma past_end_sound:
  "env_sound three_accesses past_end_env (\<lambda>p. if p = 2 then 1016 else 1000)"
  by (auto simp: env_sound_def past_end_env_def same_pointer_env_def)

text \<open>C1: Every check that distilling removes is within a check it keeps: the kept access
  covers all bytes of the removed one and, for TSan, is a write if the removed one
  is.  This holds as long as the whole-object shortcut of isAccessRangeContains does
  not apply.\<close>
theorem distilled_checks_cover:
  assumes "distillRecurringChecks RPOT F env Insts IsTsan IgnoreCalls = Some Kept"
    and "env_sound F env addr"
    and "\<forall>i \<in> set Insts. \<forall>j \<in> set Insts.
           \<not> wholeObjectOverwrite env i (MemoryLocation_get env i) (MemoryLocation_get env j)"
  shows "set Kept \<subseteq> set Insts \<and> (\<forall>d \<in> set Insts. \<exists>k \<in> set Kept. check_within F env addr IsTsan d k)"
proof -
  let ?C = "collectCandidates (collectEdges F env IsTsan Insts)"
  have "set ?C \<subseteq> set Insts" unfolding collectCandidates_set by (auto simp: collectEdges_iff)
  with assms(3) have "\<forall>i \<in> set ?C. \<forall>j \<in> set ?C.
      \<not> wholeObjectOverwrite env i (MemoryLocation_get env i) (MemoryLocation_get env j)" by blast
  from active_cover_within [OF assms(2) _ this] distill_cover [OF assms(1)] show ?thesis by metis
qed

lemma distilled_checks_cover_witness:
  "\<exists>k \<in> set [(0, 1)]. check_within three_accesses same_pointer_env int False (0, 2) k"
proof -
  have "distillRecurringChecks [0] three_accesses same_pointer_env [(0, 0), (0, 1), (0, 2)] False False
      = Some [(0, 1)]" by code_simp
  from distilled_checks_cover [OF this same_pointer_sound] show ?thesis
    by (simp add: wholeObjectOverwrite_def same_pointer_env_def strengthenLocationSize_def)
qed

text \<open>Every check is linked to a kept check by a chain of pairs, each of which passed
  the dominance, range and write conditions and, unless calls are ignored, was
  found active by the data-flow analysis.\<close>
theorem distilled_checks_chain:
  assumes "distillRecurringChecks RPOT F env Insts IsTsan IgnoreCalls = Some Kept" "d \<in> set Insts"
  shows "\<exists>k \<in> set Kept. (active_cover RPOT F env IsTsan IgnoreCalls
           (collectCandidates (collectEdges F env IsTsan Insts)))\<^sup>*\<^sup>* k d"
  using distill_cover [OF assms(1)] assms(2) by blast

lemma distilled_checks_chain_witness:
  "\<exists>k \<in> set [(0, 1)]. (active_cover [0] three_accesses same_pointer_env False False
     (collectCandidates (collectEdges three_accesses same_pointer_env False [(0, 0), (0, 1), (0, 2)])))\<^sup>*\<^sup>* k (0, 0)"
proof -
  have "distillRecurringChecks [0] three_accesses same_pointer_env [(0, 0), (0, 1), (0, 2)] False False
      = Some [(0, 1)]" by code_simp
  from distilled_checks_chain [OF this] show ?thesis by simp
qed

text \<open>C2: The whole-object shortcut drops a needed check: with a store that covers an
  eight-byte object and a second store past the end of that object, the check of the
  out-of-bounds store is removed although its range is disjoint from the kept one.\<close>
theorem whole_object_shortcut_drops_check:
  "env_sound three_accesses past_end_env (\<lambda>p. if p = 2 then 1016 else 1000) \<and>
   distillRecurringChecks [0] three_accesses past_end_env [(0, 0), (0, 1)] False False = Some [(0, 0)] \<and>
   loc_range (\<lambda>p. if p = 2 then 1016 else 1000) (MemoryLocation_get past_end_env (0, 0)) = {1000..<1008} \<and>
   loc_range (\<lambda>p. if p = 2 then 1016 else 1000) (MemoryLocation_get past_end_env (0, 1)) = {1016..<1024}"
proof (intro conjI)
  show "distillRecurringChecks [0] three_accesses past_end_env [(0, 0), (0, 1)] False False = Some [(0, 0)]"
    by code_simp
  show "env_sound three_accesses past_end_env (\<lambda>p. if p = 2 then 1016 else 1000)"
    by (rule past_end_sound)
qed (simp_all add: loc_range_def past_end_env_def)

text \<open>The dominating set reaches every vertex of the recurrence graph.\<close>
theorem dominating_set_covers:
  "\<exists>new. fillDominatingSet G D0 = D0 @ new \<and> set new \<subseteq> graph_nodes G \<and>
     (\<forall>v \<in> graph_nodes G. \<exists>d \<in> set new. (child_rel G)\<^sup>*\<^sup>* d v)"
  by (rule fillDominatingSet_covers [of G D0]) blast

lemma dominating_set_covers_witness:
  "\<exists>new. fillDominatingSet (RecurringGraph [(0, 0), (0, 1)] []) [] = [] @ new \<and>
     set new \<subseteq> graph_nodes (RecurringGraph [(0, 0), (0, 1)] []) \<and>
     (\<forall>v \<in> graph_nodes (RecurringGraph [(0, 0), (0, 1)] []).
        \<exists>d \<in> set new. (child_rel (RecurringGraph [(0, 0), (0, 1)] []))\<^sup>*\<^sup>* d v)"
  by (rule dominating_set_covers)

text \<open>The dominating set need not be minimal: a vertex with a parent that comes before
  the cycle it hangs off is kept, although the cycle's entry, kept too, reaches it.\<close>
theorem dominating_set_not_minimal:
  "let u = (0, 1); w = (0, 2); v = (0, 0);
       e = (\<lambda>k d. \<lparr>Killing = k, Dead = d, From = k, Blocked = False\<rparr>);
       G = RecurringGraph [v, u, w] [e u w, e w u, e u v]
   in fillDominatingSet G [] = [v, u] \<and> child_rel G u v"
proof -
  let ?e = "\<lambda>k d. \<lparr>Killing = k, Dead = d, From = k, Blocked = False\<rparr>"
  let ?G = "RecurringGraph [(0, 0), (0, 1), (0, 2)] [?e (0, 1) (0, 2), ?e (0, 2) (0, 1), ?e (0, 1) (0, 0)]"
  have "fillDominatingSet ?G [] = [(0, 0), (0, 1)]" by code_simp
  moreover have "child_rel ?G (0, 1) (0, 0)" unfolding RecurringGraph_edges(2) by simp
  ultimately show ?thesis by (simp only: Let_def)
qed

end
