(* ===== verification/Stack_Race.thy ===== *)
theory Stack_Race
  imports XPrelude "HOL-Library.Monad_Syntax"
begin

text \<open>
  \<open>instrumentation/Analysis/TsanMopAnalysis.{h,cpp}\<close>: which accesses to a stack object
  may race, namely those between a call that might spawn a thread and a call that
  might join one.  A function is a list of blocks; an instruction carries what the
  analysis asks LLVM about it.  A \<open>const Use *\<close> is its user and operand number, so
  that the uses of a value are found by searching the operands; the order of an LLVM
  use list is not modelled (every result of the analysis is a set).  A \<open>Type *\<close> is an
  index into a table of types, because a named struct type may contain a pointer to
  itself.  Sets of blocks and instructions are lists.
\<close>

section \<open>Types\<close>

datatype TypeNode = IntegerTy nat | PointerTy "nat option" | StructTy "nat list"
  | ArrayTy nat | VectorTy nat | OtherTy

text \<open>\<open>PointerTy None\<close> is an opaque pointer.\<close>

type_synonym types = "nat \<Rightarrow> TypeNode"

fun element_types :: "TypeNode \<Rightarrow> nat list" where
  "element_types (StructTy es) = es"
| "element_types (ArrayTy e) = [e]"
| "element_types (VectorTy e) = [e]"
| "element_types _ = []"

text \<open>
  Both recursions are written over a list of types, of which one is to qualify: the
  struct loop of the code is the same list walk.  \<open>None\<close> is a call that does not
  return.
\<close>

partial_function (option) containsI64 :: "types \<Rightarrow> nat list \<Rightarrow> bool option" where
  "containsI64 D Tys =
     (case Tys of [] \<Rightarrow> Some False
      | Ty # rest \<Rightarrow>
          if D Ty = IntegerTy 64 then Some True
          else do {
            b \<leftarrow> containsI64 D (element_types (D Ty));
            if b then Some True else containsI64 D rest
          })"

partial_function (option) containsSuspiciousPointer ::
  "types \<Rightarrow> (nat \<rightharpoonup> bool) \<Rightarrow> nat list \<Rightarrow> ((nat \<rightharpoonup> bool) \<times> bool) option" where
  "containsSuspiciousPointer D PlausibleTypes Tys =
     (case Tys of [] \<Rightarrow> Some (PlausibleTypes, False)
      | Ty # rest \<Rightarrow> do {
          (Plausible, Suspicious) \<leftarrow>
            (case PlausibleTypes Ty of
               Some b \<Rightarrow> Some (PlausibleTypes, b)
             | None \<Rightarrow>
                 (case D Ty of
                    PointerTy None \<Rightarrow> Some (PlausibleTypes(Ty \<mapsto> True), True)
                  | PointerTy (Some e) \<Rightarrow>
                      if D e = IntegerTy 64 then Some (PlausibleTypes(Ty \<mapsto> True), True)
                      else do {
                        (P, s) \<leftarrow> containsSuspiciousPointer D PlausibleTypes [e];
                        Some (P(Ty \<mapsto> s), s)
                      }
                  | _ \<Rightarrow> do {
                        (P, s) \<leftarrow> containsSuspiciousPointer D PlausibleTypes (element_types (D Ty));
                        Some (P(Ty \<mapsto> s), s)
                      }));
          if Suspicious then Some (Plausible, True)
          else containsSuspiciousPointer D Plausible rest
        })"

declare containsI64.simps [code] containsSuspiciousPointer.simps [code]

section \<open>Functions\<close>

type_synonym iref = "nat \<times> nat"

datatype Opc = AllocaOp | CallOp | CallBrOp | InvokeOp | StoreOp | LoadOp | AtomicRMWOp
  | AtomicCmpXchgOp | BitCastOp | GetElementPtrOp | PHIOp | SelectOp | AddrSpaceCastOp | OtherOp

datatype Operand = InstOperand iref | OtherOperand nat

record IRInst =
  Opcode_of :: Opc
  Operands :: "Operand list"
  NoSanitize :: bool
  DelegatesToXSan :: bool
  IsIntrinsic :: bool
  ReadsMemory :: bool
  WritesMemory :: bool
  ReturnsAliasedArgument :: bool
  CalleeOperand :: nat
  DataOperands :: "nat list"
  NoCaptureOperands :: "nat list"
  RetTy :: nat
  ArgTys :: "nat list"

record IRBlock =
  Insts :: "IRInst list"
  Succs :: "nat list"

type_synonym IRFunc = "IRBlock list"

definition successors :: "IRFunc \<Rightarrow> nat \<Rightarrow> nat list" where
  "successors F b = (if b < length F then Succs (F ! b) else [])"

definition predecessors :: "IRFunc \<Rightarrow> nat \<Rightarrow> nat list" where
  "predecessors F b =
     (if b < length F then filter (\<lambda>p. b \<in> set (successors F p)) [0..<length F] else [])"

definition all_insts :: "IRFunc \<Rightarrow> (iref \<times> IRInst) list" where
  "all_insts F = concat (map (\<lambda>b. map (\<lambda>i. ((b, i), Insts (F ! b) ! i)) [0..<length (Insts (F ! b))])
                      [0..<length F])"

definition is_call :: "IRInst \<Rightarrow> bool" where
  "is_call I \<longleftrightarrow> Opcode_of I = CallOp \<or> Opcode_of I = CallBrOp \<or> Opcode_of I = InvokeOp"

definition comesBefore :: "iref \<Rightarrow> iref \<Rightarrow> bool" where
  "comesBefore a b \<longleftrightarrow> snd a < snd b"

definition isNoSanitize :: "IRInst \<Rightarrow> bool" where
  "isNoSanitize I = NoSanitize I"

definition shouldSkip :: "IRInst \<Rightarrow> bool" where
  "shouldSkip I \<longleftrightarrow> isNoSanitize I \<or> DelegatesToXSan I"

type_synonym Use = "iref \<times> nat"

definition all_uses :: "IRFunc \<Rightarrow> (Use \<times> Operand) list" where
  "all_uses F = concat (map (\<lambda>(r, I). map (\<lambda>n. ((r, n), Operands I ! n)) [0..<length (Operands I)])
                     (all_insts F))"

definition uses :: "IRFunc \<Rightarrow> iref \<Rightarrow> Use list" where
  "uses F V = map fst (filter (\<lambda>(u, x). x = InstOperand V) (all_uses F))"

definition inst_of :: "IRFunc \<Rightarrow> iref \<Rightarrow> IRInst" where
  "inst_of F r = Insts (F ! fst r) ! snd r"

definition getStackObjects :: "IRFunc \<Rightarrow> iref list" where
  "getStackObjects F =
     (case F of [] \<Rightarrow> []
      | EntryBB # _ \<Rightarrow>
          map (\<lambda>i. (0, i)) (filter (\<lambda>i. Opcode_of (Insts EntryBB ! i) = AllocaOp)
                                   [0..<length (Insts EntryBB)]))"

section \<open>Which calls spawn and join\<close>

definition maySpawnThread ::
  "types \<Rightarrow> IRFunc \<Rightarrow> (nat \<rightharpoonup> bool) \<Rightarrow> iref \<Rightarrow> Use \<Rightarrow> bool \<Rightarrow> ((nat \<rightharpoonup> bool) \<times> bool) option" where
  "maySpawnThread D F PlausibleTypes CB U FromGlobal =
     (let I = inst_of F CB
      in if shouldSkip I then Some (PlausibleTypes, False)
         else if IsIntrinsic I then Some (PlausibleTypes, False)
         else if FromGlobal \<and> \<not> ReadsMemory I then Some (PlausibleTypes, False)
         else if \<not> FromGlobal \<and>
                 (snd U \<notin> set (DataOperands I) \<or> snd U \<in> set (NoCaptureOperands I))
           then Some (PlausibleTypes, False)
         else if WritesMemory I then Some (PlausibleTypes, True)
         else do {
           b \<leftarrow> containsI64 D [RetTy I];
           if b then Some (PlausibleTypes, True)
           else containsSuspiciousPointer D PlausibleTypes (ArgTys I)
         })"

definition mayJoinThread :: "IRFunc \<Rightarrow> iref \<Rightarrow> iref list \<Rightarrow> bool" where
  "mayJoinThread F CB MightSpawnCalls =
     (let I = inst_of F CB
      in if shouldSkip I then False
         else if IsIntrinsic I then False
         else if ReadsMemory I then True
         else True)"

section \<open>The def-use walk\<close>

definition AddUses :: "IRFunc \<Rightarrow> iref \<Rightarrow> Use list \<times> Use list \<Rightarrow> Use list \<times> Use list" where
  "AddUses F V st =
     foldl (\<lambda>(Worklist, Visited) U.
        if U \<in> set Visited then (Worklist, Visited) else (Worklist @ [U], Visited @ [U]))
       st (uses F V)"

record walk_state =
  CandidateMops :: "iref list"
  MightSpawns :: "iref list"
  Plausible :: "nat \<rightharpoonup> bool"

text \<open>
  One turn of the switch over the opcode of the user, with its fall-through from the
  call cases into the store case and from there into the load case.  The result says
  also whether the uses of the user are added to the worklist.
\<close>

definition push_candidate :: "iref \<Rightarrow> walk_state \<Rightarrow> walk_state" where
  "push_candidate I st = st\<lparr>CandidateMops := CandidateMops st @ [I]\<rparr>"

definition store_case :: "Use \<Rightarrow> walk_state \<Rightarrow> walk_state" where
  "store_case U st = (if snd U = 0 then st else push_candidate (fst U) st)"

definition visit_use :: "types \<Rightarrow> IRFunc \<Rightarrow> Use \<Rightarrow> walk_state \<Rightarrow> (walk_state \<times> bool) option" where
  "visit_use D F U st =
     (let I = inst_of F (fst U); opc = Opcode_of I
      in if isNoSanitize I then Some (st, False)
         else if is_call I then do {
           (P, spawns) \<leftarrow> maySpawnThread D F (Plausible st) (fst U) U False;
           let st = st\<lparr>Plausible := P\<rparr>;
           let st = (if spawns then st\<lparr>MightSpawns := MightSpawns st @ [fst U]\<rparr> else st);
           let st = (if snd U = CalleeOperand I then st else store_case U st);
           Some (st, ReturnsAliasedArgument I)
         }
         else if opc = StoreOp then Some (store_case U st, False)
         else if opc = LoadOp then Some (push_candidate (fst U) st, False)
         else if opc \<in> {AtomicRMWOp, AtomicCmpXchgOp, BitCastOp, GetElementPtrOp, PHIOp, SelectOp,
                        AddrSpaceCastOp}
           then Some (st, True)
         else Some (st, False))"

lemma AddUses_measure:
  assumes "AddUses F V (Worklist, Visited) = (W, Vis)"
  shows "2 * card (fst ` set (all_uses F) - set Vis) + length W
       \<le> 2 * card (fst ` set (all_uses F) - set Visited) + length Worklist"
proof -
  let ?m = "\<lambda>(W, Vis). 2 * card (fst ` set (all_uses F) - set Vis) + length W"
  let ?f = "\<lambda>(Worklist, Visited) U. if U \<in> set Visited then (Worklist, Visited)
              else (Worklist @ [U], Visited @ [U])"
  have "?m (foldl ?f st us) \<le> ?m st" if "set us \<subseteq> fst ` set (all_uses F)" for us st
    using that
  proof (induction us arbitrary: st)
    case (Cons u us)
    obtain W Vis where st: "st = (W, Vis)" by fastforce
    have "?m (?f st u) \<le> ?m st"
    proof (cases "u \<in> set Vis")
      case False
      then have "card (fst ` set (all_uses F) - set (Vis @ [u])) < card (fst ` set (all_uses F) - set Vis)"
        using Cons.prems by (intro psubset_card_mono) auto
      then show ?thesis using False by (simp add: st)
    qed (simp add: st)
    then show ?case using Cons.IH [of "?f st u"] Cons.prems by (simp del: split_paired_All)
  qed simp
  from this [of "uses F V" "(Worklist, Visited)"] assms
  show ?thesis by (auto simp: AddUses_def uses_def)
qed

text \<open>\<open>Worklist.pop_back_val()\<close> takes the last element.\<close>

function walk_uses ::
  "types \<Rightarrow> IRFunc \<Rightarrow> Use list \<times> Use list \<Rightarrow> walk_state \<Rightarrow> walk_state option" where
  "walk_uses D F (Worklist, Visited) st =
     (if Worklist = [] then Some st
      else
        let U = last Worklist
        in case visit_use D F U st of
             None \<Rightarrow> None
           | Some (st, follow) \<Rightarrow>
               walk_uses D F (if follow then AddUses F (fst U) (butlast Worklist, Visited)
                              else (butlast Worklist, Visited)) st)"
  by pat_completeness auto
termination
proof (relation "measure (\<lambda>(D, F, (W, Vis), st). 2 * card (fst ` set (all_uses F) - set Vis) + length W)")
  fix D F and Worklist Visited :: "Use list" and st U x st' follow
  assume "Worklist \<noteq> []" "U = last Worklist"
  obtain W Vis where W: "AddUses F (fst U) (butlast Worklist, Visited) = (W, Vis)" by fastforce
  have "length (butlast Worklist) < length Worklist" using \<open>Worklist \<noteq> []\<close> by simp
  with AddUses_measure [OF W] show "((D, F, if follow then AddUses F (fst U) (butlast Worklist, Visited)
                     else (butlast Worklist, Visited), st'), (D, F, (Worklist, Visited), st))
    \<in> measure (\<lambda>(D, F, (W, Vis), st). 2 * card (fst ` set (all_uses F) - set Vis) + length W)"
    by (cases follow) (simp_all only: W if_True if_False in_measure prod.case)
qed simp

declare walk_uses.simps [simp del]

definition walkOverAllocaDefUseChains ::
  "types \<Rightarrow> IRFunc \<Rightarrow> (nat \<rightharpoonup> bool) \<Rightarrow> iref \<Rightarrow> (walk_state \<times> iref list) option" where
  "walkOverAllocaDefUseChains D F P Alloc = do {
     st \<leftarrow> walk_uses D F (AddUses F Alloc ([], []))
            \<lparr>CandidateMops = [], MightSpawns = [], Plausible = P\<rparr>;
     let MightJoins = map fst (filter (\<lambda>(r, I). is_call I \<and> mayJoinThread F r (MightSpawns st))
                                      (all_insts F));
     Some (st, MightJoins)
   }"

section \<open>Traversals\<close>

text \<open>
  \<open>depth_first_ext\<close> with its external visited set, and \<open>idf_begin\<close> with the set of its
  own, whose iteration the caller steers with \<open>skipChildren\<close>.  The stack holds the
  blocks still to be entered.
\<close>

function df_ext :: "IRFunc \<Rightarrow> nat list \<Rightarrow> nat list \<Rightarrow> nat list" where
  "df_ext F stack Visited =
     (case stack of [] \<Rightarrow> Visited
      | BB # rest \<Rightarrow> if BB \<in> set Visited then df_ext F rest Visited
                     else df_ext F (successors F BB @ rest) (BB # Visited))"
  by pat_completeness auto
termination
proof (relation "(\<lambda>(F, stack, Visited). card ({..<length F} - set Visited)) <*mlex*>
                 measure (\<lambda>(F, stack, Visited). length stack)")
  fix F :: IRFunc and stack Visited BB rest
  assume "stack = BB # rest" "BB \<notin> set (Visited :: nat list)"
  then show "((F, successors F BB @ rest, BB # Visited), (F, stack, Visited)) \<in>
      (\<lambda>(F, stack, Visited). card ({..<length F} - set Visited)) <*mlex*>
      measure (\<lambda>(F, stack, Visited). length stack)"
  proof (cases "BB < length F")
    case True
    then have "{..<length F} - set (BB # Visited) \<subset> {..<length F} - set Visited"
      using \<open>BB \<notin> set Visited\<close> by auto
    then show ?thesis by (intro mlex_less) (simp add: psubset_card_mono)
  next
    case False
    then have "{..<length F} - set (BB # Visited) = {..<length F} - set Visited" by auto
    then show ?thesis using False \<open>stack = BB # rest\<close>
      by (intro mlex_leq) (simp_all add: successors_def)
  qed
qed (auto intro!: mlex_leq wf_mlex)

function idf :: "IRFunc \<Rightarrow> (nat \<Rightarrow> bool) \<Rightarrow> nat list \<Rightarrow> nat list \<Rightarrow> nat list \<Rightarrow> nat list" where
  "idf F Prune stack own Visited =
     (case stack of [] \<Rightarrow> Visited
      | BB # rest \<Rightarrow>
          if BB \<in> set own then idf F Prune rest own Visited
          else if Prune BB \<or> BB \<in> set Visited then idf F Prune rest (BB # own) Visited
          else idf F Prune (predecessors F BB @ rest) (BB # own) (BB # Visited))"
  by pat_completeness auto
termination
proof (relation "(\<lambda>(F, Prune, stack, own, Visited). card ({..<length F} - set own)) <*mlex*>
                 measure (\<lambda>(F, Prune, stack, own, Visited). length stack)")
  fix F :: IRFunc and Prune stack Visited own BB rest
  assume "stack = BB # rest" "BB \<notin> set (own :: nat list)"
  then show "((F, Prune, predecessors F BB @ rest, BB # own, BB # Visited),
       (F, Prune, stack, own, Visited)) \<in>
      (\<lambda>(F, Prune, stack, own, Visited). card ({..<length F} - set own)) <*mlex*>
      measure (\<lambda>(F, Prune, stack, own, Visited). length stack)"
  proof (cases "BB < length F")
    case True
    then have "{..<length F} - set (BB # own) \<subset> {..<length F} - set own"
      using \<open>BB \<notin> set own\<close> by auto
    then show ?thesis by (intro mlex_less) (simp add: psubset_card_mono)
  next
    case False
    then have "{..<length F} - set (BB # own) = {..<length F} - set own" by auto
    then show ?thesis using False \<open>stack = BB # rest\<close>
      by (intro mlex_leq) (simp_all add: predecessors_def)
  qed
qed (auto intro!: mlex_leq wf_mlex card_mono)

declare df_ext.simps [simp del] idf.simps [simp del]

text \<open>
  Constructing the iterator \<open>df_ext_begin(Start, Visited)\<close> inserts \<open>Start\<close> into the external
  set.  The loop of \<open>depthFirstTraversal\<close> constructs one that it does not use before it starts
  the traversal from the same block.
\<close>

definition df_ext_begin :: "nat \<Rightarrow> nat list \<Rightarrow> nat list" where
  "df_ext_begin Start Visited = (if Start \<in> set Visited then Visited else Start # Visited)"

definition depthFirstTraversal :: "IRFunc \<Rightarrow> nat list \<Rightarrow> nat list" where
  "depthFirstTraversal F Starts =
     foldl (\<lambda>Visited Start. let Visited = df_ext_begin Start Visited in df_ext F [Start] Visited) [] Starts"

definition inverseDepthFirstTraversal :: "IRFunc \<Rightarrow> nat list \<Rightarrow> (nat \<Rightarrow> bool) \<Rightarrow> nat list" where
  "inverseDepthFirstTraversal F Starts Prune =
     foldl (\<lambda>Visited Start. idf F Prune [Start] [] Visited) [] Starts"

section \<open>Which accesses may race\<close>

text \<open>
  \<open>loop_of\<close> is \<open>LoopInfo::getLoopFor\<close>, \<open>reachable_from_many\<close> is LLVM's
  \<open>isPotentiallyReachableFromMany\<close>.
\<close>

record cfg_env =
  loop_of :: "nat \<Rightarrow> nat option"
  reachable_from_many :: "nat list \<Rightarrow> nat \<Rightarrow> bool"

definition isPotentiallyReachable_from :: "cfg_env \<Rightarrow> iref list \<Rightarrow> iref \<Rightarrow> bool" where
  "isPotentiallyReachable_from env Froms To =
     (if \<exists>From \<in> set Froms. fst From = fst To \<and> (loop_of env (fst From) \<noteq> None \<or> comesBefore From To)
      then True
      else
        let FromBBs = map fst (filter (\<lambda>From. fst From \<noteq> fst To) Froms)
        in if FromBBs = [] then False else reachable_from_many env FromBBs (fst To))"

definition isPotentiallyReachable_to :: "IRFunc \<Rightarrow> cfg_env \<Rightarrow> iref \<Rightarrow> iref list \<Rightarrow> bool" where
  "isPotentiallyReachable_to F env From Tos =
     (if \<exists>To \<in> set Tos. fst From = fst To \<and> (loop_of env (fst From) \<noteq> None \<or> comesBefore From To)
      then True
      else
        let ToBBs = map fst (filter (\<lambda>To. fst From \<noteq> fst To) Tos)
        in if ToBBs = [] then False
           else list_ex (\<lambda>BB. BB \<in> set ToBBs) (df_ext F [fst From] []))"

definition collectSeveralMopsMayRace ::
  "IRFunc \<Rightarrow> cfg_env \<Rightarrow> iref list \<Rightarrow> iref list \<Rightarrow> iref list \<Rightarrow> iref list" where
  "collectSeveralMopsMayRace F env Mops Spawns Joins =
     filter (\<lambda>Mop. isPotentiallyReachable_from env Spawns Mop \<and>
                    isPotentiallyReachable_to F env Mop Joins) Mops"

definition DeriveBounds ::
  "IRFunc \<Rightarrow> nat list \<Rightarrow> bool \<Rightarrow> iref list \<Rightarrow> (nat \<rightharpoonup> iref)" where
  "DeriveBounds F BlocksBetween IsUpperBounds OrigBounds =
     foldl (\<lambda>Bounds CB.
        let BB = fst CB
        in if \<exists>b \<in> set (if IsUpperBounds then predecessors F BB else successors F BB).
                b \<in> set BlocksBetween
           then Bounds
           else case Bounds BB of
                  None \<Rightarrow> Bounds(BB \<mapsto> CB)
                | Some LastCB \<Rightarrow>
                    Bounds(BB \<mapsto> (if comesBefore LastCB CB \<noteq> IsUpperBounds then CB else LastCB)))
       Map.empty OrigBounds"

definition MustNoRaceInBounds :: "(nat \<rightharpoonup> iref) \<Rightarrow> iref \<Rightarrow> bool \<Rightarrow> bool" where
  "MustNoRaceInBounds Bounds Mop IsUpperBounds =
     (case Bounds (fst Mop) of
        None \<Rightarrow> False
      | Some Bound \<Rightarrow> if IsUpperBounds then comesBefore Mop Bound else comesBefore Bound Mop)"

definition blocksBetween :: "IRFunc \<Rightarrow> iref list \<Rightarrow> iref list \<Rightarrow> nat list" where
  "blocksBetween F Spawns Joins =
     (let ForwardBBs = depthFirstTraversal F (map fst Spawns)
      in inverseDepthFirstTraversal F (map fst Joins) (\<lambda>BB. BB \<notin> set ForwardBBs))"

definition collectManyMopsMayRace ::
  "IRFunc \<Rightarrow> iref list \<Rightarrow> iref list \<Rightarrow> iref list \<Rightarrow> iref list" where
  "collectManyMopsMayRace F Mops Spawns Joins =
     (let BlocksBetween = blocksBetween F Spawns Joins;
          UpperBounds = DeriveBounds F BlocksBetween True Spawns;
          LowerBounds = DeriveBounds F BlocksBetween False Joins
      in filter (\<lambda>Mop. fst Mop \<in> set BlocksBetween \<and>
                        \<not> (MustNoRaceInBounds UpperBounds Mop True \<or>
                           MustNoRaceInBounds LowerBounds Mop False)) Mops)"

definition MopThreshold :: nat where "MopThreshold = 2"

definition allMopsMightRace ::
  "types \<Rightarrow> IRFunc \<Rightarrow> cfg_env \<Rightarrow> (nat \<rightharpoonup> bool) \<Rightarrow> iref \<Rightarrow> ((nat \<rightharpoonup> bool) \<times> iref list) option" where
  "allMopsMightRace D F env P Alloc = do {
     (st, Joins) \<leftarrow> walkOverAllocaDefUseChains D F P Alloc;
     Some (Plausible st,
       if CandidateMops st = [] \<or> MightSpawns st = [] \<or> Joins = [] then []
       else if length (CandidateMops st) \<le> MopThreshold
         then collectSeveralMopsMayRace F env (CandidateMops st) (MightSpawns st) Joins
       else collectManyMopsMayRace F (CandidateMops st) (MightSpawns st) Joins)
   }"

section \<open>The result of the analysis\<close>

type_synonym StackObjRaceResult = "iref \<rightharpoonup> iref list"

fun run_allocas ::
  "types \<Rightarrow> IRFunc \<Rightarrow> cfg_env \<Rightarrow> (nat \<rightharpoonup> bool) \<Rightarrow> StackObjRaceResult \<Rightarrow> iref list \<Rightarrow>
   StackObjRaceResult option" where
  "run_allocas D F env P R [] = Some R"
| "run_allocas D F env P R (Alloc # rest) = do {
     (P, RacyMOPs) \<leftarrow> allMopsMightRace D F env P Alloc;
     run_allocas D F env P (R(Alloc \<mapsto> RacyMOPs)) rest
   }"

definition run_StackObjRaceAnalysis :: "types \<Rightarrow> IRFunc \<Rightarrow> cfg_env \<Rightarrow> StackObjRaceResult option" where
  "run_StackObjRaceAnalysis D F env = run_allocas D F env Map.empty Map.empty (getStackObjects F)"

text \<open>The pointer operand of a load is operand 0, that of a store operand 1.\<close>

definition extractAddrFromLoadStoreInst :: "IRFunc \<Rightarrow> iref \<Rightarrow> Operand option" where
  "extractAddrFromLoadStoreInst F r =
     (let I = inst_of F r
      in if Opcode_of I = LoadOp then Some (Operands I ! 0)
         else if Opcode_of I = StoreOp then Some (Operands I ! 1)
         else None)"

definition mightRace :: "IRFunc \<Rightarrow> StackObjRaceResult \<Rightarrow> iref \<Rightarrow> bool option" where
  "mightRace F R Mop =
     (case extractAddrFromLoadStoreInst F Mop of
        None \<Rightarrow> None
      | Some (OtherOperand v) \<Rightarrow> Some True
      | Some (InstOperand a) \<Rightarrow>
          (case R a of None \<Rightarrow> Some True | Some racy \<Rightarrow> Some (Mop \<in> set racy)))"

definition getRacyMOPsForAllocaInst :: "StackObjRaceResult \<Rightarrow> iref \<Rightarrow> iref list option" where
  "getRacyMOPsForAllocaInst R Addr = R Addr"

end
