(* ===== verification/Mop_IR.thy ===== *)
theory Mop_IR
  imports Recurrence_Props
begin

text \<open>
  \<open>instrumentation/MopIR\<close>: an intermediate list of memory operations (MOPs) with its
  builder, its analyses and its pipeline.  Every MOP is built from one instruction, so a
  \<open>Mop *\<close> is the reference of its original instruction.  LLVM's answers are the record
  \<open>llvm_env\<close> of the recurring-check reducer; the strings a callee name starts with are
  in \<open>builder_env\<close>.  The access pattern analysis is declared but has no code.  The
  debug output of the analyses is left out.
\<close>

section \<open>Memory operations\<close>

datatype MopType = Load | Store | Atomic | Memcpy | Memset

datatype AccessPattern = UnknownPattern | Simple | Range | Periodic | Cyclic

record AccessPatternInfo =
  Pattern :: AccessPattern
  RangeBegin :: "value option"
  RangeEnd :: "value option"
  PeriodicBegin :: "value option"
  PeriodicEnd :: "value option"
  AccessSize :: u64
  Step :: "value option"
  StepIsConstant :: bool
  StepConstant :: u64
  CyclicBegin :: "value option"
  CyclicEnd :: "value option"
  CyclicAccessBeg :: "value option"
  CyclicAccessEnd :: "value option"
  AssociatedLoop :: "nat option"
  MopSize :: u64

definition new_AccessPatternInfo :: AccessPatternInfo where
  "new_AccessPatternInfo =
     \<lparr>Pattern = UnknownPattern, RangeBegin = None, RangeEnd = None, PeriodicBegin = None,
      PeriodicEnd = None, AccessSize = 0, Step = None, StepIsConstant = False, StepConstant = 0,
      CyclicBegin = None, CyclicEnd = None, CyclicAccessBeg = None, CyclicAccessEnd = None,
      AssociatedLoop = None, MopSize = 0\<rparr>"

definition hasKnownPattern :: "AccessPatternInfo \<Rightarrow> bool" where
  "hasKnownPattern p \<longleftrightarrow> Pattern p \<noteq> UnknownPattern"

record MopObj =
  MType :: MopType
  Location :: MemoryLocation
  OriginalInst :: inst_ref
  Dependencies :: "inst_ref list"
  IsRedundant :: bool
  CoveringMop :: "inst_ref option"
  PatternInfo :: AccessPatternInfo

type_synonym MopList = "MopObj list"

definition new_Mop :: "MopType \<Rightarrow> MemoryLocation \<Rightarrow> inst_ref \<Rightarrow> MopObj" where
  "new_Mop Ty L I =
     \<lparr>MType = Ty, Location = L, OriginalInst = I, Dependencies = [], IsRedundant = False,
      CoveringMop = None, PatternInfo = new_AccessPatternInfo\<rparr>"

definition mop_isWrite :: "MopObj \<Rightarrow> bool" where
  "mop_isWrite M \<longleftrightarrow> MType M = Store \<or> MType M = Memset \<or> MType M = Memcpy"

definition mop_isRead :: "MopObj \<Rightarrow> bool" where
  "mop_isRead M \<longleftrightarrow> MType M = Load"

definition addDependency :: "inst_ref \<Rightarrow> MopObj \<Rightarrow> MopObj" where
  "addDependency Dep M = M\<lparr>Dependencies := Dependencies M @ [Dep]\<rparr>"

definition isContiguousWith :: "MemoryLocation \<Rightarrow> MemoryLocation \<Rightarrow> bool" where
  "isContiguousWith Loc1 Loc2 = (if Ptr Loc1 \<noteq> Ptr Loc2 then False else False)"

definition overlapsWith :: "MemoryLocation \<Rightarrow> MemoryLocation \<Rightarrow> bool" where
  "overlapsWith Loc1 Loc2 =
     (if Ptr Loc1 \<noteq> Ptr Loc2 then False
      else if Size Loc1 = beforeOrAfterPointer \<or> Size Loc2 = beforeOrAfterPointer then True
      else True)"

definition canMergeWith :: "MopObj \<Rightarrow> MopObj \<Rightarrow> bool" where
  "canMergeWith M Other =
     (if MType M \<noteq> MType Other then False
      else if MType M = Atomic then False
      else isContiguousWith (Location M) (Location Other))"

definition mergeWith :: "MopObj \<Rightarrow> MopObj \<Rightarrow> MopObj option" where
  "mergeWith M Other = (if \<not> canMergeWith M Other then None else None)"

section \<open>The builder\<close>

record builder_env =
  mayReadOrWriteMemory :: "inst_ref \<Rightarrow> bool"
  CalledFunction :: "inst_ref \<Rightarrow> string option"
  ArgOperands :: "inst_ref \<Rightarrow> value list"
  ConstantArg :: "inst_ref \<Rightarrow> nat \<Rightarrow> u64 option"

definition startswith :: "string \<Rightarrow> string \<Rightarrow> bool" where
  "startswith s p \<longleftrightarrow> take (length p) s = p"

text \<open>The destination of a transfer: its size is 0 unless the length is a constant.\<close>

definition transfer_mop :: "builder_env \<Rightarrow> MopType \<Rightarrow> inst_ref \<Rightarrow> MopObj option" where
  "transfer_mop B Ty I =
     (if length (ArgOperands B I) \<ge> 3
      then Some (new_Mop Ty \<lparr>Ptr = ArgOperands B I ! 0,
                  Size = precise (case ConstantArg B I 2 of None \<Rightarrow> 0 | Some n \<Rightarrow> n)\<rparr> I)
      else None)"

definition createMop :: "Func \<Rightarrow> llvm_env \<Rightarrow> builder_env \<Rightarrow> inst_ref \<Rightarrow> MopObj option" where
  "createMop F env B I =
     (let L = MemoryLocation_get env I
      in case opcode (inst_at F I) of
           LoadInst _ \<Rightarrow> Some (new_Mop Load L I)
         | StoreInst _ \<Rightarrow> Some (new_Mop Store L I)
         | AtomicRMWInst _ \<Rightarrow> Some (new_Mop Atomic L I)
         | AtomicCmpXchgInst _ _ \<Rightarrow> Some (new_Mop Atomic L I)
         | _ \<Rightarrow>
             if isa_CallBase (inst_at F I)
             then (case CalledFunction B I of
                     None \<Rightarrow> None
                   | Some FuncName \<Rightarrow>
                       if startswith FuncName ''llvm.memcpy'' \<or> startswith FuncName ''memcpy''
                       then transfer_mop B Memcpy I
                       else if startswith FuncName ''llvm.memset'' \<or> startswith FuncName ''memset''
                       then transfer_mop B Memset I
                       else None)
             else None)"

definition buildMop :: "Func \<Rightarrow> llvm_env \<Rightarrow> builder_env \<Rightarrow> inst_ref \<Rightarrow> MopObj option" where
  "buildMop F env B I = (if \<not> mayReadOrWriteMemory B I then None else createMop F env B I)"

definition all_refs :: "Func \<Rightarrow> inst_ref list" where
  "all_refs F = concat (map (\<lambda>b. map (Pair b) [0..<length (insts (F ! b))]) [0..<length F])"

definition buildMopList :: "Func \<Rightarrow> llvm_env \<Rightarrow> builder_env \<Rightarrow> MopList" where
  "buildMopList F env B =
     fold (\<lambda>I ms. case buildMop F env B I of None \<Rightarrow> ms | Some m \<Rightarrow> ms @ [m]) (all_refs F) []"

section \<open>MOPState\<close>

text \<open>The copy of the reducer's MOPState in \<open>MopIR/lib/MOPState.cpp\<close>.\<close>

definition MOPState_isMaskedStoreOverwrite :: "llvm_env \<Rightarrow> inst_ref \<Rightarrow> inst_ref \<Rightarrow> bool" where
  "MOPState_isMaskedStoreOverwrite env KillingI DeadI =
     (case maskedStoreArgs env KillingI of None \<Rightarrow> False
      | Some (kp, km) \<Rightarrow>
          (case maskedStoreArgs env DeadI of None \<Rightarrow> False
           | Some (dp, dm) \<Rightarrow>
               let KillingPtr = stripPointerCasts env kp; DeadPtr = stripPointerCasts env dp
               in (KillingPtr = DeadPtr \<or> isMustAlias env KillingPtr DeadPtr) \<and> km = dm))"

definition MOPState_isGuaranteedLoopInvariant :: "llvm_env \<Rightarrow> value \<Rightarrow> bool" where
  "MOPState_isGuaranteedLoopInvariant env p =
     (let p = stripPointerCasts env p;
          p = (case constantGEP env p of None \<Rightarrow> p | Some q \<Rightarrow> stripPointerCasts env q)
      in case definingBlock env p of
           None \<Rightarrow> True
         | Some b \<Rightarrow>
             if b = 0 then True
             else if \<not> ContainsIrreducibleLoops env \<and> getLoopFor env b = None then True
             else False)"

definition MOPState_isGuaranteedLoopIndependent ::
  "llvm_env \<Rightarrow> inst_ref \<Rightarrow> inst_ref \<Rightarrow> MemoryLocation \<Rightarrow> bool" where
  "MOPState_isGuaranteedLoopIndependent env Current KillingDef CurrentLoc =
     (if fst Current = fst KillingDef then True
      else
        let CurrentLI = getLoopFor env (fst Current)
        in if \<not> ContainsIrreducibleLoops env \<and> CurrentLI \<noteq> None \<and>
              CurrentLI = getLoopFor env (fst KillingDef) then True
           else MOPState_isGuaranteedLoopInvariant env (Ptr CurrentLoc))"

definition MOPState_strengthenLocationSize ::
  "llvm_env \<Rightarrow> inst_ref \<Rightarrow> LocationSize \<Rightarrow> LocationSize" where
  "MOPState_strengthenLocationSize env I sz =
     (case chkLibcallLength env I of None \<Rightarrow> sz | Some len \<Rightarrow> precise len)"

definition MOPState_isAccessRangeContains ::
  "llvm_env \<Rightarrow> inst_ref \<Rightarrow> inst_ref \<Rightarrow> MemoryLocation \<Rightarrow> MemoryLocation \<Rightarrow> bool" where
  "MOPState_isAccessRangeContains env KillingI DeadI KillingLoc DeadLoc =
     (if \<not> MOPState_isGuaranteedLoopIndependent env DeadI KillingI DeadLoc then False
      else
        let KillingLocSize = MOPState_strengthenLocationSize env KillingI (Size KillingLoc);
            DeadPtr = stripPointerCasts env (Ptr DeadLoc);
            KillingPtr = stripPointerCasts env (Ptr KillingLoc);
            DeadUndObj = getUnderlyingObject env DeadPtr;
            KillingUndObj = getUnderlyingObject env KillingPtr
        in if DeadUndObj = KillingUndObj \<and> isPrecise KillingLocSize \<and>
              isIdentifiedObject env KillingUndObj \<and>
              getObjectSize env KillingUndObj = Some (getValue KillingLocSize) then True
           else if \<not> isPrecise (Size KillingLoc) \<or> \<not> isPrecise (Size DeadLoc) then
             (case (memIntrinsicLength env KillingI, memIntrinsicLength env DeadI) of
                (Some kv, Some dv) \<Rightarrow>
                  if kv = dv \<and> AA_alias env DeadLoc KillingLoc = MustAlias then True
                  else MOPState_isMaskedStoreOverwrite env KillingI DeadI
              | _ \<Rightarrow> MOPState_isMaskedStoreOverwrite env KillingI DeadI)
           else
             let KillingSize = getValue (Size KillingLoc);
                 DeadSize = getValue (Size DeadLoc);
                 AAR = AA_alias env KillingLoc DeadLoc
             in if AAR = MustAlias \<and> KillingSize \<ge> DeadSize then True
                else if (case AAR of PartialAlias (Some Off) \<Rightarrow>
                                       0 \<le> sint Off \<and> ucast Off + DeadSize \<le> KillingSize
                                   | _ \<Rightarrow> False) then True
                else if DeadUndObj \<noteq> KillingUndObj then False
                else
                  let (DeadBasePtr, DeadOff) = pointerBaseWithOffset env DeadPtr;
                      (KillingBasePtr, KillingOff) = pointerBaseWithOffset env KillingPtr
                  in if DeadBasePtr \<noteq> KillingBasePtr then False
                     else if sint DeadOff \<ge> sint KillingOff
                       then (DeadOff - KillingOff) + DeadSize \<le> KillingSize
                     else False)"

section \<open>Redundancy\<close>

text \<open>
  \<open>SetOrder\<close> is the order in which a \<open>SmallPtrSet<Mop *, 32>\<close> that has outgrown its inline
  array yields the elements inserted in the given order: the order of the hashes of their
  addresses.  Up to 32 elements lie in the inline array, in insertion order.
\<close>

record mop_ctx =
  RPOT :: "nat list"
  Fn :: Func
  Env :: llvm_env
  BEnv :: builder_env
  SetOrder :: "inst_ref list \<Rightarrow> inst_ref list"

definition iterate_CandSet :: "mop_ctx \<Rightarrow> inst_ref list \<Rightarrow> inst_ref list" where
  "iterate_CandSet C xs = (if length xs \<le> 32 then xs else SetOrder C xs)"

definition mop_isMopCheckRecurring :: "mop_ctx \<Rightarrow> MopObj \<Rightarrow> MopObj \<Rightarrow> bool \<Rightarrow> bool" where
  "mop_isMopCheckRecurring C KillingMop DeadMop WriteSensitive =
     (let KillingI = OriginalInst KillingMop; DeadI = OriginalInst DeadMop; env = Env C
      in if WriteSensitive \<and> \<not> mop_isWrite KillingMop \<and> mop_isWrite KillingMop \<noteq> mop_isWrite DeadMop
         then False
         else if \<not> WriteSensitive \<and> \<not> mop_isWrite KillingMop \<and> mop_isWrite DeadMop then False
         else if \<not> DT_dominates env KillingI DeadI \<and> \<not> PDT_dominates env KillingI DeadI then False
         else MOPState_isAccessRangeContains env KillingI DeadI (Location KillingMop) (Location DeadMop))"

text \<open>
  The edges, with the reducer's record \<open>Edge\<close>; its \<open>To\<close> end is the other of the two
  instructions.
\<close>

definition mop_edges :: "mop_ctx \<Rightarrow> bool \<Rightarrow> MopList \<Rightarrow> Edge list" where
  "mop_edges C WriteSensitive Mops =
     concat (map (\<lambda>Km. concat (map (\<lambda>Dm.
       let KI = OriginalInst Km; DI = OriginalInst Dm
       in if \<not> isInterestingMop True (inst_at (Fn C) KI) then []
          else if KI = DI then []
          else if \<not> isInterestingMop True (inst_at (Fn C) DI) then []
          else if \<not> mop_isMopCheckRecurring C Km Dm WriteSensitive then []
          else if DT_dominates (Env C) KI DI
            then [\<lparr>Killing = KI, Dead = DI, From = KI, Blocked = False\<rparr>]
          else if PDT_dominates (Env C) KI DI
            then [\<lparr>Killing = KI, Dead = DI, From = DI, Blocked = False\<rparr>]
          else []) Mops)) Mops)"

definition mop_block :: "Func \<Rightarrow> ActiveMopAnalysis \<Rightarrow> Edge \<Rightarrow> Edge option" where
  "mop_block F AMA E =
     (let IsToDead = (From E = Killing E);
          ToI = (if IsToDead then Dead E else Killing E)
      in case isOneMopActiveToAnother F AMA (From E) ToI IsToDead of
           None \<Rightarrow> None | Some Active \<Rightarrow> Some (E\<lparr>Blocked := \<not> Active\<rparr>))"

definition mop_blockEdges ::
  "mop_ctx \<Rightarrow> bool \<Rightarrow> bool \<Rightarrow> inst_ref list \<Rightarrow> Edge list \<Rightarrow> Edge list option" where
  "mop_blockEdges C IsTsan IgnoreCalls Candidates Edges =
     (if \<not> IgnoreCalls \<and> Edges \<noteq> []
      then case new_ActiveMopAnalysis (RPOT C) (Fn C) Candidates IsTsan of
             None \<Rightarrow> None
           | Some AMA \<Rightarrow> mapM_option (mop_block (Fn C) AMA) Edges
      else Some Edges)"

definition covering_map :: "Edge list \<Rightarrow> (inst_ref \<rightharpoonup> inst_ref)" where
  "covering_map Edges =
     foldl (\<lambda>m E. if Blocked E then m
                  else case m (Dead E) of Some _ \<Rightarrow> m | None \<Rightarrow> m(Dead E \<mapsto> Killing E))
       Map.empty Edges"

text \<open>
  The recursive \<open>Dfs\<close> is \<open>depth_first_ext\<close>, whose stack is the list of the children
  still to be visited by the enclosing calls.
\<close>

definition buildRecurringGraphAndFindDominatingSet ::
  "mop_ctx \<Rightarrow> bool \<Rightarrow> bool \<Rightarrow> MopList \<Rightarrow> (inst_ref list \<times> (inst_ref \<rightharpoonup> inst_ref)) option" where
  "buildRecurringGraphAndFindDominatingSet C IsTsan IgnoreCalls Mops =
     (let Edges = mop_edges C IsTsan Mops;
          CandSet = collectCandidates Edges;
          Candidates = iterate_CandSet C CandSet
      in case mop_blockEdges C IsTsan IgnoreCalls Candidates Edges of
           None \<Rightarrow> None
         | Some Edges \<Rightarrow>
             let Verts = RecurringGraph Candidates Edges;
                 (DomSet, Visited) = dominating_loop Verts (\<lambda>V Visited. HasParent V) Verts ([], []);
                 (DomSet, Visited) =
                   dominating_loop Verts (\<lambda>V Visited. Mop V \<in> set Visited) Verts (DomSet, Visited)
             in Some (DomSet @ filter (\<lambda>I. I \<notin> set CandSet) (map OriginalInst Mops),
                      covering_map Edges))"

record redundancy =
  RedundantMops :: "inst_ref list"
  CoveringMopMap :: "inst_ref \<rightharpoonup> inst_ref"
  RIsTsan :: bool
  RIgnoreCalls :: bool

definition mark_mop :: "inst_ref list \<Rightarrow> (inst_ref \<rightharpoonup> inst_ref) \<Rightarrow> MopObj \<Rightarrow> MopObj" where
  "mark_mop DomSet Covering M =
     (let IsDom = OriginalInst M \<in> set DomSet; M = M\<lparr>IsRedundant := \<not> IsDom\<rparr>
      in if IsDom then M\<lparr>CoveringMop := None\<rparr>
         else M\<lparr>CoveringMop := Covering (OriginalInst M)\<rparr>)"

definition redundancy_analyze ::
  "mop_ctx \<Rightarrow> redundancy \<Rightarrow> MopList \<Rightarrow> (redundancy \<times> MopList) option" where
  "redundancy_analyze C R Mops =
     (case buildRecurringGraphAndFindDominatingSet C (RIsTsan R) (RIgnoreCalls R) Mops of
        None \<Rightarrow> None
      | Some (DomSet, Covering) \<Rightarrow>
          let dead = filter (\<lambda>I. I \<notin> set DomSet) (map OriginalInst Mops)
          in Some (R\<lparr>RedundantMops := dead, CoveringMopMap := Covering |` set dead\<rparr>,
                   map (mark_mop DomSet Covering) Mops))"

definition isRedundant_query :: "redundancy \<Rightarrow> inst_ref \<Rightarrow> bool" where
  "isRedundant_query R M \<longleftrightarrow> M \<in> set (RedundantMops R)"

definition getCoveringMop_query :: "redundancy \<Rightarrow> inst_ref \<Rightarrow> inst_ref option" where
  "getCoveringMop_query R M = CoveringMopMap R M"

section \<open>The other analyses\<close>

type_synonym pair_cache = "inst_ref \<times> inst_ref \<rightharpoonup> bool"

definition alias_analyze :: "mop_ctx \<Rightarrow> MopList \<Rightarrow> pair_cache" where
  "alias_analyze C Mops =
     foldl (\<lambda>AliasResults (i, j).
        let M1 = Mops ! i; M2 = Mops ! j;
            AR = AA_alias (Env C) (Location M1) (Location M2);
            IsAliased = (AR \<noteq> NoAlias)
        in AliasResults((OriginalInst M1, OriginalInst M2) \<mapsto> IsAliased,
                        (OriginalInst M2, OriginalInst M1) \<mapsto> IsAliased))
       Map.empty
       (concat (map (\<lambda>i. map (Pair i) [i + 1..<length Mops]) [0..<length Mops]))"

definition isAliased :: "pair_cache \<Rightarrow> inst_ref \<Rightarrow> inst_ref \<Rightarrow> bool" where
  "isAliased AliasResults M1 M2 = (case AliasResults (M1, M2) of Some b \<Rightarrow> b | None \<Rightarrow> False)"

definition dominance_cache ::
  "(inst_ref \<Rightarrow> inst_ref \<Rightarrow> bool) \<Rightarrow> MopList \<Rightarrow> pair_cache" where
  "dominance_cache DTree Mops =
     foldl (\<lambda>cache (i, j).
        if i = j then cache
        else let I1 = OriginalInst (Mops ! i); I2 = OriginalInst (Mops ! j)
             in cache((I1, I2) \<mapsto> DTree I1 I2))
       Map.empty
       (concat (map (\<lambda>i. map (Pair i) [0..<length Mops]) [0..<length Mops]))"

definition dominates_query :: "pair_cache \<Rightarrow> inst_ref \<Rightarrow> inst_ref \<Rightarrow> bool" where
  "dominates_query cache M1 M2 = (case cache (M1, M2) of Some b \<Rightarrow> b | None \<Rightarrow> False)"

definition dominatesOrPostDominates ::
  "pair_cache \<Rightarrow> pair_cache \<Rightarrow> inst_ref \<Rightarrow> inst_ref \<Rightarrow> bool" where
  "dominatesOrPostDominates D P M1 M2 \<longleftrightarrow> dominates_query D M1 M2 \<or> dominates_query P M1 M2"

section \<open>Pipelines\<close>

datatype Analysis =
    MopAliasAnalysis pair_cache
  | MopDataflowAnalysis
  | MopDominanceAnalysis pair_cache pair_cache
  | MopRedundancyAnalysis redundancy

text \<open>\<open>Analysis->analyze(Mops)\<close> with the context of the pipeline, the null check apart.\<close>

fun analyze_with :: "mop_ctx \<Rightarrow> Analysis \<Rightarrow> MopList \<Rightarrow> (Analysis \<times> MopList) option" where
  "analyze_with C (MopAliasAnalysis _) Mops = Some (MopAliasAnalysis (alias_analyze C Mops), Mops)"
| "analyze_with C MopDataflowAnalysis Mops = Some (MopDataflowAnalysis, Mops)"
| "analyze_with C (MopDominanceAnalysis _ _) Mops =
     Some (MopDominanceAnalysis (dominance_cache (DT_dominates (Env C)) Mops)
             (dominance_cache (PDT_dominates (Env C)) Mops), Mops)"
| "analyze_with C (MopRedundancyAnalysis R) Mops =
     (case redundancy_analyze C R Mops of
        None \<Rightarrow> None | Some (R, Mops) \<Rightarrow> Some (MopRedundancyAnalysis R, Mops))"

fun run_analyses :: "mop_ctx \<Rightarrow> Analysis list \<Rightarrow> MopList \<Rightarrow> (Analysis list \<times> MopList) option" where
  "run_analyses C [] Mops = Some ([], Mops)"
| "run_analyses C (A # As) Mops =
     (case analyze_with C A Mops of
        None \<Rightarrow> None
      | Some (A, Mops) \<Rightarrow>
          (case run_analyses C As Mops of None \<Rightarrow> None | Some (As, Mops) \<Rightarrow> Some (A # As, Mops)))"

record analysis_pipeline =
  Analyses :: "Analysis list"
  AContext :: "mop_ctx option"

definition analysis_pipeline_run ::
  "analysis_pipeline \<Rightarrow> MopList \<Rightarrow> (analysis_pipeline \<times> MopList) option" where
  "analysis_pipeline_run P Mops =
     (case AContext P of
        None \<Rightarrow> Some (P, Mops)
      | Some C \<Rightarrow>
          (case run_analyses C (Analyses P) Mops of
             None \<Rightarrow> None | Some (As, Mops) \<Rightarrow> Some (P\<lparr>Analyses := As\<rparr>, Mops)))"

text \<open>Both optimizers are placeholders that leave the list as it is.\<close>

datatype Optimizer = ContiguousReadMerger | RedundantWriteEliminator

fun optimize_with :: "Optimizer \<Rightarrow> MopList \<Rightarrow> MopList" where
  "optimize_with ContiguousReadMerger Mops = Mops"
| "optimize_with RedundantWriteEliminator Mops = Mops"

record optimization_pipeline =
  Optimizers :: "Optimizer list"
  OContext :: "mop_ctx option"

definition optimization_pipeline_run :: "optimization_pipeline \<Rightarrow> MopList \<Rightarrow> MopList" where
  "optimization_pipeline_run P Mops =
     (case OContext P of None \<Rightarrow> Mops | Some _ \<Rightarrow> foldl (\<lambda>ms Opt. optimize_with Opt ms) Mops (Optimizers P))"

section \<open>MopIR\<close>

record MopIR =
  Context :: mop_ctx
  Mops :: MopList
  AnalysisPipeline :: analysis_pipeline
  OptimizationPipeline :: optimization_pipeline
  Built :: bool
  Analyzed :: bool
  Optimized :: bool

definition initializeDefaultPipeline :: "MopIR \<Rightarrow> MopIR" where
  "initializeDefaultPipeline st =
     st\<lparr>AnalysisPipeline := (AnalysisPipeline st)\<lparr>AContext := Some (Context st)\<rparr>,
        OptimizationPipeline := (OptimizationPipeline st)\<lparr>OContext := Some (Context st)\<rparr>\<rparr>"

definition new_MopIR :: "mop_ctx \<Rightarrow> MopIR" where
  "new_MopIR C =
     initializeDefaultPipeline
       \<lparr>Context = C, Mops = [], AnalysisPipeline = \<lparr>Analyses = [], AContext = None\<rparr>,
        OptimizationPipeline = \<lparr>Optimizers = [], OContext = None\<rparr>,
        Built = False, Analyzed = False, Optimized = False\<rparr>"

definition built_list :: "mop_ctx \<Rightarrow> MopList" where
  "built_list C = buildMopList (Fn C) (Env C) (BEnv C)"

definition build :: "MopIR \<Rightarrow> MopIR" where
  "build st = (if Built st then st else st\<lparr>Mops := built_list (Context st), Built := True\<rparr>)"

definition analyze :: "MopIR \<Rightarrow> MopIR option" where
  "analyze st =
     (let st = (if \<not> Built st then build st else st)
      in if Analyzed st then Some st
         else
           let P = (AnalysisPipeline st)\<lparr>AContext := Some (Context st)\<rparr>
           in case analysis_pipeline_run P (Mops st) of
                None \<Rightarrow> None
              | Some (P, ms) \<Rightarrow> Some (st\<lparr>AnalysisPipeline := P, Mops := ms, Analyzed := True\<rparr>))"

definition optimize :: "MopIR \<Rightarrow> MopIR option" where
  "optimize st =
     (case (if \<not> Analyzed st then analyze st else Some st) of
        None \<Rightarrow> None
      | Some st \<Rightarrow>
          if Optimized st then Some st
          else
            let P = (OptimizationPipeline st)\<lparr>OContext := Some (Context st)\<rparr>
            in Some (st\<lparr>OptimizationPipeline := P, Mops := optimization_pipeline_run P (Mops st),
                        Optimized := True\<rparr>))"

definition buildAnalyzeAndOptimize :: "MopIR \<Rightarrow> MopIR option" where
  "buildAnalyzeAndOptimize st =
     (case analyze (build st) of None \<Rightarrow> None | Some st \<Rightarrow> optimize st)"

definition reset :: "MopIR \<Rightarrow> MopIR" where
  "reset st = st\<lparr>Mops := [], Built := False, Analyzed := False, Optimized := False\<rparr>"

definition addAnalysis :: "Analysis \<Rightarrow> MopIR \<Rightarrow> MopIR" where
  "addAnalysis A st =
     st\<lparr>AnalysisPipeline := (AnalysisPipeline st)\<lparr>Analyses := Analyses (AnalysisPipeline st) @ [A]\<rparr>\<rparr>"

definition addOptimizer :: "Optimizer \<Rightarrow> MopIR \<Rightarrow> MopIR" where
  "addOptimizer Opt st =
     st\<lparr>OptimizationPipeline :=
          (OptimizationPipeline st)\<lparr>Optimizers := Optimizers (OptimizationPipeline st) @ [Opt]\<rparr>\<rparr>"

definition getInstrumentationPoints :: "MopIR \<Rightarrow> inst_ref list" where
  "getInstrumentationPoints st = map OriginalInst (filter (\<lambda>M. \<not> IsRedundant M) (Mops st))"

definition getMopsWithPattern :: "AccessPattern \<Rightarrow> MopIR \<Rightarrow> MopObj list" where
  "getMopsWithPattern p st = filter (\<lambda>M. \<not> IsRedundant M \<and> Pattern (PatternInfo M) = p) (Mops st)"

end
