(* ===== verification/Mop_IR_Props.thy ===== *)
theory Mop_IR_Props
  imports Mop_IR
begin

text \<open>
  MopIR against the recurring-check reducer it replaces: the copied state answers alike,
  the surviving checks agree in TSan mode for up to 32 candidates, and they cover every
  removed check in both modes, whatever the order of the candidates.  The pipeline's flags
  and list are an invariant of its operations.
\<close>

section \<open>The copied MOPState\<close>

lemma MOPState_simps:
  "MOPState_isMaskedStoreOverwrite = isMaskedStoreOverwrite"
  "MOPState_isGuaranteedLoopInvariant = isGuaranteedLoopInvariant"
  "MOPState_isGuaranteedLoopIndependent = isGuaranteedLoopIndependent"
  "MOPState_strengthenLocationSize = strengthenLocationSize"
proof -
  show "MOPState_isMaskedStoreOverwrite = isMaskedStoreOverwrite"
    by (intro ext) (auto simp: MOPState_isMaskedStoreOverwrite_def isMaskedStoreOverwrite_def Let_def
        split: option.splits prod.splits)
  show inv: "MOPState_isGuaranteedLoopInvariant = isGuaranteedLoopInvariant"
    by (intro ext) (auto simp: MOPState_isGuaranteedLoopInvariant_def isGuaranteedLoopInvariant_def Let_def
        split: option.splits)
  show "MOPState_isGuaranteedLoopIndependent = isGuaranteedLoopIndependent"
    by (intro ext) (auto simp: MOPState_isGuaranteedLoopIndependent_def isGuaranteedLoopIndependent_def inv Let_def)
  show "MOPState_strengthenLocationSize = strengthenLocationSize"
    by (intro ext) (simp add: MOPState_strengthenLocationSize_def strengthenLocationSize_def)
qed

lemma MOPState_contains_eq: "MOPState_isAccessRangeContains = isAccessRangeContains"
proof (intro ext)
  fix env :: llvm_env and KI DI and KL DL :: MemoryLocation
  let ?dp = "stripPointerCasts env (Ptr DL)" and ?kp = "stripPointerCasts env (Ptr KL)"
  have whole: "wholeObjectOverwrite env KI KL DL \<longleftrightarrow>
      getUnderlyingObject env ?dp = getUnderlyingObject env ?kp \<and>
      isPrecise (strengthenLocationSize env KI (Size KL)) \<and>
      isIdentifiedObject env (getUnderlyingObject env ?kp) \<and>
      getObjectSize env (getUnderlyingObject env ?kp) =
        Some (getValue (strengthenLocationSize env KI (Size KL)))"
    by (auto simp: wholeObjectOverwrite_def Let_def)
  have mem: "(case (memIntrinsicLength env KI, memIntrinsicLength env DI) of
        (Some kv, Some dv) \<Rightarrow> if kv = dv \<and> AA_alias env DL KL = MustAlias then True
                              else isMaskedStoreOverwrite env KI DI
      | _ \<Rightarrow> isMaskedStoreOverwrite env KI DI) =
      (if case (memIntrinsicLength env KI, memIntrinsicLength env DI) of
            (Some kv, Some dv) \<Rightarrow> kv = dv \<and> AA_alias env DL KL = MustAlias | _ \<Rightarrow> False
       then True else isMaskedStoreOverwrite env KI DI)"
    by (simp split: option.split)
  show "MOPState_isAccessRangeContains env KI DI KL DL = isAccessRangeContains env KI DI KL DL"
    unfolding MOPState_isAccessRangeContains_def isAccessRangeContains_def MOPState_simps Let_def
      whole [symmetric] mem offset_contains_def
    by (intro if_cong refl) (auto split: prod.split)
qed

section \<open>The edges\<close>

lemma mop_edges_mode: "mop_edges C ws ms = mop_edges C True ms"
proof -
  have "mop_isMopCheckRecurring C K D ws = mop_isMopCheckRecurring C K D True" for K D
    by (auto simp: mop_isMopCheckRecurring_def Let_def)
  then show ?thesis unfolding mop_edges_def by (simp only:)
qed

text \<open>
  \<open>plain_mops\<close>: the list holds one MOP per instruction, with the location LLVM gives, and
  LLVM's \<open>mayWriteToMemory\<close> tells the plain loads and stores apart.
\<close>

definition plain_mops :: "mop_ctx \<Rightarrow> MopList \<Rightarrow> bool" where
  "plain_mops C ms \<longleftrightarrow>
     distinct (map OriginalInst ms) \<and>
     (\<forall>M \<in> set ms. interesting (inst_at (Fn C) (OriginalInst M)) \<longrightarrow>
        Location M = MemoryLocation_get (Env C) (OriginalInst M) \<and>
        mop_isWrite M = isWrite (new_MemoryOperation (Fn C) (Env C) (OriginalInst M)))"

lemma mop_edges_eq:
  assumes "plain_mops C ms"
  shows "mop_edges C ws ms = collectEdges (Fn C) (Env C) True (map OriginalInst ms)"
proof -
  let ?new = "new_MemoryOperation (Fn C) (Env C)"
  have "(let KI = OriginalInst Km; DI = OriginalInst Dm
       in if \<not> isInterestingMop True (inst_at (Fn C) KI) then []
          else if KI = DI then []
          else if \<not> isInterestingMop True (inst_at (Fn C) DI) then []
          else if \<not> mop_isMopCheckRecurring C Km Dm True then []
          else if DT_dominates (Env C) KI DI
            then [\<lparr>Killing = KI, Dead = DI, From = KI, Blocked = False\<rparr>]
          else if PDT_dominates (Env C) KI DI
            then [\<lparr>Killing = KI, Dead = DI, From = DI, Blocked = False\<rparr>]
          else []) =
       (if OriginalInst Km = OriginalInst Dm then []
        else case isMopCheckRecurring (Fn C) (Env C) (?new (OriginalInst Km)) (?new (OriginalInst Dm)) True of
               None \<Rightarrow> []
             | Some FromI \<Rightarrow> [\<lparr>Killing = OriginalInst Km, Dead = OriginalInst Dm, From = FromI, Blocked = False\<rparr>])"
    if "Km \<in> set ms" "Dm \<in> set ms" for Km Dm
    using that assms
    by (auto simp: mop_isMopCheckRecurring_def isMopCheckRecurring_def Let_def MOPState_contains_eq plain_mops_def
        split: if_splits)
  then have "mop_edges C True ms = collectEdges (Fn C) (Env C) True (map OriginalInst ms)"
    unfolding mop_edges_def collectEdges_def map_map comp_def
    by (intro arg_cong [where f = concat] map_cong refl) (simp add: Let_def)
  then show ?thesis using mop_edges_mode by metis
qed

lemma mop_block_eq: "mop_block = blockEdge"
  by (intro ext) (simp add: mop_block_def blockEdge_def)

section \<open>The surviving set\<close>

lemma dfs_mono: "set stack \<union> set V \<subseteq> set (depth_first_ext G stack V)"
  by (induction G stack V rule: depth_first_ext.induct) auto

lemma dominating_loop_prefix:
  "dominating_loop G skip Vs (D0 @ D, V) =
     (let (D', V') = dominating_loop G skip Vs (D, V) in (D0 @ D', V'))"
  by (induction Vs arbitrary: D V) simp_all

lemma dominating_loop_mono:
  "dominating_loop G skip Vs (D, V) = (D', V') \<Longrightarrow> set V \<subseteq> set V'"
  by (induction Vs arbitrary: D V) (use dfs_mono in \<open>fastforce split: if_splits\<close>)+

lemma dominating_loop_roots:
  "dominating_loop G (\<lambda>v V. HasParent v) Vs (D, V) = (D', V') \<Longrightarrow> v \<in> set Vs \<Longrightarrow> \<not> HasParent v \<Longrightarrow>
   Mop v \<in> set V'"
proof (induction Vs arbitrary: D V)
  case (Cons u Vs)
  show ?case
  proof (cases "v = u")
    case True
    then have "dominating_loop G (\<lambda>v V. HasParent v) Vs (D @ [Mop u], depth_first_ext G [Mop u] V) = (D', V')"
      using Cons.prems by simp
    from dominating_loop_mono [OF this] dfs_mono [of "[Mop u]" V G] True show ?thesis by auto
  next
    case False
    then show ?thesis using Cons by (auto split: if_splits)
  qed
qed simp

lemma dominating_loop_skip:
  assumes "\<forall>v \<in> set Vs. \<not> HasParent v \<longrightarrow> Mop v \<in> set V"
  shows "dominating_loop G (\<lambda>v V. \<not> HasParent v \<or> Mop v \<in> set V) Vs (D, V) =
         dominating_loop G (\<lambda>v V. Mop v \<in> set V) Vs (D, V)"
  using assms
proof (induction Vs arbitrary: D V)
  case (Cons u Vs)
  have sub: "set V \<subseteq> set (depth_first_ext G [Mop u] V)" using dfs_mono by fastforce
  have rest: "\<forall>v \<in> set Vs. \<not> HasParent v \<longrightarrow> Mop v \<in> set V"
    "\<forall>v \<in> set Vs. \<not> HasParent v \<longrightarrow> Mop v \<in> set (depth_first_ext G [Mop u] V)"
    using Cons.prems sub by auto
  show ?case using Cons.IH [OF rest(1)] Cons.IH [OF rest(2)] Cons.prems
    by (simp del: depth_first_ext.simps)
qed simp

lemma survivors_eq:
  "fillDominatingSet G D0 =
     D0 @ fst (let (D, V) = dominating_loop G (\<lambda>v V. HasParent v) G ([], [])
               in dominating_loop G (\<lambda>v V. Mop v \<in> set V) G (D, V))"
proof -
  obtain D V where l1: "dominating_loop G (\<lambda>v V. HasParent v) G ([], []) = (D, V)" by fastforce
  have "\<forall>v \<in> set G. \<not> HasParent v \<longrightarrow> Mop v \<in> set V" using dominating_loop_roots [OF l1] by blast
  note skip = dominating_loop_skip [OF this]
  show ?thesis
    using dominating_loop_prefix [of G "\<lambda>v V. HasParent v" G D0 "[]" "[]"] l1
      dominating_loop_prefix [of G "\<lambda>v V. \<not> HasParent v \<or> Mop v \<in> set V" G D0 D V] skip [of G D]
    by (simp add: fillDominatingSet_def split: prod.splits)
qed

text \<open>Iterating over a set yields its elements.\<close>

definition set_order_ok :: "mop_ctx \<Rightarrow> bool" where
  "set_order_ok C \<longleftrightarrow> (\<forall>xs. set (SetOrder C xs) = set xs)"

lemma set_iterate: "set_order_ok C \<Longrightarrow> set (iterate_CandSet C xs) = set xs"
  by (simp add: iterate_CandSet_def set_order_ok_def)

text \<open>The graph search returns the reducer's dominating set, then the MOPs outside the graph.\<close>

lemma find_dominating_eq:
  assumes "plain_mops C ms"
    and "buildRecurringGraphAndFindDominatingSet C IsTsan IgnoreCalls ms = Some (S, cov)"
  defines "Is \<equiv> map OriginalInst ms"
  defines "Es \<equiv> collectEdges (Fn C) (Env C) True Is"
  shows "\<exists>Bs. mop_blockEdges C IsTsan IgnoreCalls (iterate_CandSet C (collectCandidates Es)) Es = Some Bs \<and>
    cov = covering_map Bs \<and>
    S = fillDominatingSet (RecurringGraph (iterate_CandSet C (collectCandidates Es)) Bs) [] @
          filter (\<lambda>I. I \<notin> set (collectCandidates Es)) Is"
  using assms(2) survivors_eq [of "RecurringGraph (iterate_CandSet C (collectCandidates Es)) Bs" "[]" for Bs]
  unfolding buildRecurringGraphAndFindDominatingSet_def mop_edges_eq [OF assms(1)] Is_def [symmetric]
    Es_def [symmetric] Let_def
  by (auto split: option.splits prod.splits)

lemma blockEdges_agree:
  assumes "blockEdges (RPOT C) (Fn C) t ig Cands Es = Some Bs"
  shows "mop_blockEdges C t ig Cands Es = Some Bs"
  using assms by (auto simp: blockEdges_def mop_blockEdges_def mop_block_eq split: if_splits option.splits)

lemma mop_blockEdges_keeps:
  assumes "mop_blockEdges C t ig Cands Es = Some Bs" "b \<in> set Bs"
  shows "\<exists>e \<in> set Es. Killing e = Killing b \<and> Dead e = Dead b"
proof (cases "\<not> ig \<and> Es \<noteq> []")
  case True
  then obtain A where "mapM_option (blockEdge (Fn C) A) Es = Some Bs"
    using assms(1) by (auto simp: mop_blockEdges_def mop_block_eq split: option.splits)
  from mapM_option_Some [OF this assms(2)] obtain e where "e \<in> set Es" "blockEdge (Fn C) A e = Some b" by blast
  with blockEdge_Some [OF this(2)] show ?thesis by auto
qed (use assms in \<open>auto simp: mop_blockEdges_def\<close>)

lemma dominating_agrees:
  assumes plain: "plain_mops C ms"
    and legacy: "distillRecurringChecks (RPOT C) (Fn C) (Env C) (map OriginalInst ms) True ig = Some Kept"
    and few: "length (collectCandidates (collectEdges (Fn C) (Env C) True (map OriginalInst ms))) \<le> 32"
  shows "\<exists>S cov. buildRecurringGraphAndFindDominatingSet C True ig ms = Some (S, cov) \<and> set S = set Kept"
proof -
  let ?Is = "map OriginalInst ms"
  let ?Es = "collectEdges (Fn C) (Env C) True ?Is"
  let ?Cs = "collectCandidates ?Es"
  have order: "iterate_CandSet C ?Cs = ?Cs" using few by (simp add: iterate_CandSet_def)
  have built: "\<exists>S cov. buildRecurringGraphAndFindDominatingSet C True ig ms = Some (S, cov) \<and>
      set S = set (fillDominatingSet (RecurringGraph ?Cs Bs) []) \<union> set (filter (\<lambda>I. I \<notin> set ?Cs) ?Is)"
    if "mop_blockEdges C True ig ?Cs ?Es = Some Bs" for Bs
    using that survivors_eq [of "RecurringGraph ?Cs Bs" "[]"]
    unfolding buildRecurringGraphAndFindDominatingSet_def mop_edges_eq [OF plain] Let_def order
    by (auto split: prod.splits)
  have fill: "set (fillDominatingSet G D0) = set D0 \<union> set (fillDominatingSet G [])" for G D0
    using survivors_eq [of G D0] survivors_eq [of G "[]"] by simp
  show ?thesis
  proof (cases "length ?Is < 2")
    case True
    then have "?Es = []" by (cases ms; cases "tl ms") (auto simp: collectEdges_def)
    moreover from this have "mop_blockEdges C True ig ?Cs ?Es = Some []" by (simp add: mop_blockEdges_def)
    ultimately show ?thesis
      using built [of "[]"] legacy True
      by (auto simp: distillRecurringChecks_def collectCandidates_def fillDominatingSet_def RecurringGraph_def)
  next
    case False
    then obtain Bs where Bs: "blockEdges (RPOT C) (Fn C) True ig ?Cs ?Es = Some Bs"
      and Kept: "Kept = fillDominatingSet (RecurringGraph ?Cs Bs) (filter (\<lambda>I. I \<notin> set ?Cs) ?Is)"
      using legacy by (auto simp: distillRecurringChecks_def Let_def split: option.splits)
    show ?thesis using built [OF blockEdges_agree [OF Bs]] unfolding Kept fill [of _ "filter _ _"] by blast
  qed
qed

lemma survivors_candidates: "set (fillDominatingSet (RecurringGraph Cs Bs) []) \<subseteq> set Cs"
proof -
  obtain new where "fillDominatingSet (RecurringGraph Cs Bs) [] = [] @ new"
    "set new \<subseteq> graph_nodes (RecurringGraph Cs Bs)"
    using fillDominatingSet_covers [of "RecurringGraph Cs Bs" "[]"] by blast
  then show ?thesis by (simp add: RecurringGraph_edges(1))
qed

lemma dominating_covers:
  assumes plain: "plain_mops C ms" and order: "set_order_ok C" and env: "env_sound (Fn C) (Env C) addr"
    and whole: "\<forall>i \<in> set (map OriginalInst ms). \<forall>j \<in> set (map OriginalInst ms).
      \<not> wholeObjectOverwrite (Env C) i (MemoryLocation_get (Env C) i) (MemoryLocation_get (Env C) j)"
    and S: "buildRecurringGraphAndFindDominatingSet C t ig ms = Some (S, cov)"
    and d: "d \<in> set (map OriginalInst ms)"
  shows "\<exists>k \<in> set S. check_within (Fn C) (Env C) addr True d k"
proof -
  let ?Is = "map OriginalInst ms"
  let ?Es = "collectEdges (Fn C) (Env C) True ?Is"
  let ?Cs = "iterate_CandSet C (collectCandidates ?Es)"
  obtain Bs where Bs: "mop_blockEdges C t ig ?Cs ?Es = Some Bs"
    and S_eq: "S = fillDominatingSet (RecurringGraph ?Cs Bs) [] @ filter (\<lambda>I. I \<notin> set ?Cs) ?Is"
    using find_dominating_eq [OF plain S] by (auto simp: set_iterate [OF order])
  show ?thesis
  proof (cases "d \<in> set ?Cs")
    case False
    then show ?thesis using d by (auto simp: S_eq check_within_def)
  next
    case True
    let ?G = "RecurringGraph ?Cs Bs"
    obtain k where k: "k \<in> set S" "(child_rel ?G)\<^sup>*\<^sup>* k d"
    proof -
      have "\<forall>v \<in> set ?Cs. \<exists>d \<in> set (fillDominatingSet ?G []). (child_rel ?G)\<^sup>*\<^sup>* d v"
        using fillDominatingSet_covers [of ?G "[]"] unfolding RecurringGraph_edges(1) by force
      then show ?thesis using True that unfolding S_eq by (metis Un_iff set_append)
    qed
    have edge: "check_within (Fn C) (Env C) addr True y x" if xy: "child_rel ?G x y" for x y
    proof -
      obtain b where b: "b \<in> set Bs" "Killing b = x" "Dead b = y"
        using xy unfolding RecurringGraph_edges(2) by blast
      from mop_blockEdges_keeps [OF Bs b(1)] obtain e where e: "e \<in> set ?Es" "Killing e = x" "Dead e = y"
        using b by auto
      have "covers (Fn C) (Env C) True x y" "x \<in> set ?Is" "y \<in> set ?Is"
        using e by (auto simp: collectEdges_iff covers_def)
      then show ?thesis using covers_within [OF env] whole by blast
    qed
    have "check_within (Fn C) (Env C) addr True d k" using k(2)
      by (induction rule: rtranclp_induct) (use edge check_within_trans in \<open>fastforce simp: check_within_def\<close>)+
    then show ?thesis using k(1) by blast
  qed
qed

section \<open>The pipeline\<close>

definition skeleton :: "MopObj \<Rightarrow> MopObj" where
  "skeleton M = M\<lparr>IsRedundant := False, CoveringMop := None\<rparr>"

lemma mark_mop_simps [simp]:
  "OriginalInst (mark_mop D c M) = OriginalInst M" "skeleton (mark_mop D c M) = skeleton M"
  "IsRedundant (mark_mop D c M) \<longleftrightarrow> OriginalInst M \<notin> set D"
  by (simp_all add: mark_mop_def skeleton_def Let_def)

lemma analyze_with_skeleton:
  "analyze_with C A ms = Some (A', ms') \<Longrightarrow> map skeleton ms' = map skeleton ms"
  by (induction C A ms rule: analyze_with.induct)
     (auto simp: redundancy_analyze_def Let_def split: option.splits prod.splits)

lemma run_analyses_skeleton:
  "run_analyses C As ms = Some (As', ms') \<Longrightarrow> map skeleton ms' = map skeleton ms"
  by (induction As arbitrary: ms As' ms')
     (use analyze_with_skeleton in \<open>fastforce split: option.splits prod.splits\<close>)+

lemma optimize_with_id [simp]: "optimize_with Opt ms = ms"
  by (cases Opt) simp_all

lemma optimization_run_id [simp]: "optimization_pipeline_run P ms = ms"
proof -
  have "foldl (\<lambda>ms Opt. optimize_with Opt ms) ms Os = ms" for Os by (induction Os) simp_all
  then show ?thesis by (simp add: optimization_pipeline_run_def split: option.split)
qed

inductive mopir_step :: "MopIR \<Rightarrow> MopIR \<Rightarrow> bool" where
  "mopir_step st (build st)"
| "analyze st = Some st' \<Longrightarrow> mopir_step st st'"
| "optimize st = Some st' \<Longrightarrow> mopir_step st st'"
| "buildAnalyzeAndOptimize st = Some st' \<Longrightarrow> mopir_step st st'"
| "mopir_step st (reset st)"
| "mopir_step st (addAnalysis A st)"
| "mopir_step st (addOptimizer Opt st)"

definition mopir_inv :: "mop_ctx \<Rightarrow> MopIR \<Rightarrow> bool" where
  "mopir_inv C st \<longleftrightarrow>
     Context st = C \<and> (Optimized st \<longrightarrow> Analyzed st) \<and> (Analyzed st \<longrightarrow> Built st) \<and>
     map skeleton (Mops st) = (if Built st then map skeleton (built_list C) else [])"

lemma inv_new: "mopir_inv C (new_MopIR C)"
  by (simp add: mopir_inv_def new_MopIR_def initializeDefaultPipeline_def)

lemma inv_build: "mopir_inv C st \<Longrightarrow> mopir_inv C (build st)"
  by (auto simp: mopir_inv_def build_def)

lemma build_Built [simp]: "Built (build st)"
  by (simp add: build_def)

lemma inv_analyze:
  assumes "mopir_inv C st" "analyze st = Some st'"
  shows "mopir_inv C st' \<and> Analyzed st'"
proof -
  let ?b = "if \<not> Built st then build st else st"
  have b: "mopir_inv C ?b" "Built ?b" using assms(1) inv_build by simp_all
  from assms(2) consider "Analyzed ?b" "st' = ?b"
    | As ms where "run_analyses (Context ?b) (Analyses (AnalysisPipeline ?b)) (Mops ?b) = Some (As, ms)"
        "\<not> Analyzed ?b" "Context st' = Context ?b" "Mops st' = ms" "Analyzed st'" "Optimized st' = Optimized ?b"
        "Built st' = Built ?b"
    unfolding analyze_def Let_def analysis_pipeline_run_def
    by (auto split: if_splits option.splits prod.splits)
  then show ?thesis
  proof cases
    case 2
    from run_analyses_skeleton [OF 2(1)] 2 b show ?thesis by (simp add: mopir_inv_def)
  qed (use b in simp)
qed

lemma inv_optimize:
  assumes "mopir_inv C st" "optimize st = Some st'"
  shows "mopir_inv C st'"
proof -
  obtain st1 where st1: "mopir_inv C st1" "Analyzed st1"
      "st' = st1 \<or> (\<exists>P. st' = st1\<lparr>OptimizationPipeline := P, Mops := Mops st1, Optimized := True\<rparr>)"
    using assms inv_analyze [OF assms(1)]
    by (auto simp: optimize_def Let_def split: if_splits option.splits)
  then show ?thesis by (auto simp: mopir_inv_def)
qed

lemma inv_step: "mopir_step st st' \<Longrightarrow> mopir_inv C st \<Longrightarrow> mopir_inv C st'"
proof (induction rule: mopir_step.induct)
  case (1 st)
  then show ?case by (rule inv_build)
next
  case (2 st st')
  then show ?case using inv_analyze by blast
next
  case (3 st st')
  then show ?case using inv_optimize by blast
next
  case (4 st st')
  then obtain st1 where "analyze (build st) = Some st1" "optimize st1 = Some st'"
    by (auto simp: buildAnalyzeAndOptimize_def split: option.splits)
  then show ?case using inv_analyze [OF inv_build [OF 4(2)]] inv_optimize by blast
qed (simp_all add: mopir_inv_def reset_def addAnalysis_def addOptimizer_def)

lemma inv_reachable: "mopir_step\<^sup>*\<^sup>* (new_MopIR C) st \<Longrightarrow> mopir_inv C st"
  by (induction rule: rtranclp_induct) (simp_all add: inv_new inv_step)

section \<open>The built list\<close>

lemma buildMopList_eq: "buildMopList F env B = List.map_filter (buildMop F env B) (all_refs F)"
proof -
  have "fold (\<lambda>I ms. case buildMop F env B I of None \<Rightarrow> ms | Some m \<Rightarrow> ms @ [m]) Is acc =
      acc @ List.map_filter (buildMop F env B) Is" for Is acc
    by (induction Is arbitrary: acc) (auto simp: List.map_filter_simps split: option.split)
  then show ?thesis by (simp add: buildMopList_def)
qed

lemma createMop_Some:
  assumes "createMop F env B I = Some M"
  shows "OriginalInst M = I" "skeleton M = M"
    "MType M = Load \<longleftrightarrow> isa_LoadInst (opcode (inst_at F I))"
    "MType M = Store \<longleftrightarrow> isa_StoreInst (opcode (inst_at F I))"
    "isa_LoadInst (opcode (inst_at F I)) \<or> isa_StoreInst (opcode (inst_at F I)) \<Longrightarrow>
     Location M = MemoryLocation_get env I"
    "MType M = Memcpy \<or> MType M = Memset \<Longrightarrow> isa_CallBase (inst_at F I)"
  using assms by (auto simp: createMop_def new_Mop_def transfer_mop_def skeleton_def Let_def
      split: Opcode.splits if_splits option.splits)

lemma createMop_access:
  "isa_LoadInst (opcode (inst_at F I)) \<or> isa_StoreInst (opcode (inst_at F I)) \<Longrightarrow> createMop F env B I \<noteq> None"
  by (cases "opcode (inst_at F I)") (simp_all add: createMop_def Let_def)

lemma in_built_list:
  "M \<in> set (built_list C) \<longleftrightarrow>
     (\<exists>I \<in> set (all_refs (Fn C)). mayReadOrWriteMemory (BEnv C) I \<and> createMop (Fn C) (Env C) (BEnv C) I = Some M)"
proof -
  have "y \<in> set (List.map_filter f xs) \<longleftrightarrow> (\<exists>x \<in> set xs. f x = Some y)"
    for f :: "inst_ref \<Rightarrow> MopObj option" and xs y
    by (induction xs) (auto simp: List.map_filter_simps split: option.split)
  then show ?thesis by (simp add: built_list_def buildMopList_eq buildMop_def) (metis option.distinct(1))
qed

lemma distinct_all_refs: "distinct (all_refs F)"
proof -
  have "distinct (concat (map (\<lambda>b. map (Pair b) [0..<n b]) bs))" if "distinct bs" for bs :: "nat list" and n
    using that by (induction bs) (auto simp: distinct_map inj_on_def)
  then show ?thesis by (simp add: all_refs_def)
qed

lemma distinct_built: "distinct (map OriginalInst (built_list C))"
proof -
  have *: "map OriginalInst (List.map_filter (buildMop (Fn C) (Env C) (BEnv C)) Is) =
      filter (\<lambda>I. buildMop (Fn C) (Env C) (BEnv C) I \<noteq> None) Is" for Is
  proof (induction Is)
    case (Cons I Is)
    then show ?case using createMop_Some(1) [of "Fn C" "Env C" "BEnv C" I]
      by (cases "buildMop (Fn C) (Env C) (BEnv C) I")
         (auto simp: List.map_filter_simps buildMop_def split: if_splits)
  qed (simp add: List.map_filter_simps)
  show ?thesis unfolding built_list_def buildMopList_eq * by (simp add: distinct_all_refs)
qed

text \<open>LLVM: a store may write memory, a load may do so only when it is volatile.\<close>

definition llvm_plain :: "mop_ctx \<Rightarrow> bool" where
  "llvm_plain C \<longleftrightarrow>
     (\<forall>I \<in> set (all_refs (Fn C)). interesting (inst_at (Fn C) I) \<longrightarrow>
        (if isa_StoreInst (opcode (inst_at (Fn C) I)) then mayWriteToMemory (inst_at (Fn C) I)
         else \<not> mayWriteToMemory (inst_at (Fn C) I) \<or> isVolatile (Env C) I))"

lemma plain_built:
  assumes "llvm_plain C"
  shows "plain_mops C (built_list C)"
  unfolding plain_mops_def
proof (intro conjI ballI impI distinct_built)
  fix M assume M: "M \<in> set (built_list C)" and int: "interesting (inst_at (Fn C) (OriginalInst M))"
  then obtain I where I: "I \<in> set (all_refs (Fn C))" "createMop (Fn C) (Env C) (BEnv C) I = Some M"
    unfolding in_built_list by blast
  note c = createMop_Some [OF I(2)]
  have op: "isa_LoadInst (opcode (inst_at (Fn C) I)) \<or> isa_StoreInst (opcode (inst_at (Fn C) I))"
    "\<not> (isa_LoadInst (opcode (inst_at (Fn C) I)) \<and> isa_StoreInst (opcode (inst_at (Fn C) I)))"
    using int c(1) by (cases "opcode (inst_at (Fn C) I)"; auto simp: isInterestingMop_def split: if_splits)+
  show "Location M = MemoryLocation_get (Env C) (OriginalInst M)" using c(1,5) op by simp
  have "mop_isWrite M \<longleftrightarrow> isa_StoreInst (opcode (inst_at (Fn C) I))"
    using c(3,4,6) op by (auto simp: mop_isWrite_def isa_CallBase_def)
  moreover have "isWrite (new_MemoryOperation (Fn C) (Env C) I) \<longleftrightarrow> isa_StoreInst (opcode (inst_at (Fn C) I))"
    using assms I(1) int c(1) op
    by (auto simp: llvm_plain_def new_MemoryOperation_def Recurrence.isWrite_def Let_def
        ReadOnly_def WriteOnly_def ReadWrite_def split: if_splits)
  ultimately show "mop_isWrite M = isWrite (new_MemoryOperation (Fn C) (Env C) (OriginalInst M))"
    using c(1) by simp
qed

lemma pipeline_run_eq:
  "buildAnalyzeAndOptimize (addAnalysis (MopRedundancyAnalysis R) (new_MopIR C)) = Some st \<Longrightarrow>
   \<exists>S cov. buildRecurringGraphAndFindDominatingSet C (RIsTsan R) (RIgnoreCalls R) (built_list C) = Some (S, cov) \<and>
     Mops st = map (mark_mop S cov) (built_list C)"
  by (auto simp: buildAnalyzeAndOptimize_def optimize_def analyze_def build_def addAnalysis_def new_MopIR_def
      initializeDefaultPipeline_def analysis_pipeline_run_def redundancy_analyze_def Let_def
      split: option.splits prod.splits if_splits)

lemma points_eq:
  "Mops st = map (mark_mop S cov) ms \<Longrightarrow>
   getInstrumentationPoints st = filter (\<lambda>I. I \<in> set S) (map OriginalInst ms)"
  by (simp add: getInstrumentationPoints_def filter_map comp_def)

section \<open>Properties\<close>

text \<open>The copy of MOPState that MopIR carries decides containment of two accesses exactly
  as the recurring-check reducer does.\<close>
theorem mopstate_copy_agrees:
  "MOPState_isAccessRangeContains env KillingI DeadI KillingLoc DeadLoc =
   isAccessRangeContains env KillingI DeadI KillingLoc DeadLoc"
  by (simp add: MOPState_contains_eq)

text \<open>C12: In TSan mode, as long as at most 32 operations take part in the graph (so that its set of
  candidates is iterated in insertion order), the MopIR pipeline with the redundancy analysis selects
  exactly the instrumentation points that the recurring-check reducer keeps of the same
  operations.  Beyond that the set is iterated in the order of the addresses of its elements, and
  of operations that cover each other a different one may be kept.\<close>
theorem mopir_tsan_refines_reducer:
  assumes "llvm_plain C" "RIsTsan R"
    and "buildAnalyzeAndOptimize (addAnalysis (MopRedundancyAnalysis R) (new_MopIR C)) = Some st"
    and "distillRecurringChecks (RPOT C) (Fn C) (Env C) (map OriginalInst (built_list C)) True (RIgnoreCalls R)
         = Some Kept"
    and "length (collectCandidates (collectEdges (Fn C) (Env C) True (map OriginalInst (built_list C)))) \<le> 32"
  shows "set (getInstrumentationPoints st) = set Kept"
proof -
  obtain S cov where S: "buildRecurringGraphAndFindDominatingSet C True (RIgnoreCalls R) (built_list C) = Some (S, cov)"
    "Mops st = map (mark_mop S cov) (built_list C)"
    using pipeline_run_eq [OF assms(3)] assms(2) by auto
  have "set S = set Kept" using dominating_agrees [OF plain_built [OF assms(1)] assms(4,5)] S(1) by auto
  moreover have "set Kept \<subseteq> set (map OriginalInst (built_list C))" using distill_cover [OF assms(4)] by blast
  ultimately show ?thesis by (auto simp: points_eq [OF S(2)])
qed

text \<open>
  Contexts for the witnesses: the three accesses of the reducer's example, a load before a
  store of the same bytes, and two loads before such a store.
\<close>

definition any_access :: builder_env where
  "any_access = \<lparr>mayReadOrWriteMemory = (\<lambda>I. True), CalledFunction = (\<lambda>I. None),
                 ArgOperands = (\<lambda>I. []), ConstantArg = (\<lambda>I n. None)\<rparr>"

definition mop_example :: "u64 \<Rightarrow> Opcode list \<Rightarrow> mop_ctx" where
  "mop_example sz os =
     \<lparr>RPOT = [0],
      Fn = [\<lparr>insts = map (\<lambda>opc. (plain opc)\<lparr>mayWriteToMemory := isa_StoreInst opc\<rparr>) os @ [plain OtherInst],
             succs = []\<rparr>],
      Env = same_pointer_env\<lparr>MemoryLocation_get := \<lambda>I. \<lparr>Ptr = 1, Size = precise (if snd I = 0 then sz else 4)\<rparr>\<rparr>,
      BEnv = any_access, SetOrder = (\<lambda>xs. xs)\<rparr>"

definition redundancy_of :: "bool \<Rightarrow> redundancy" where
  "redundancy_of tsan = \<lparr>RedundantMops = [], CoveringMopMap = Map.empty, RIsTsan = tsan, RIgnoreCalls = False\<rparr>"

definition run_example :: "bool \<Rightarrow> u64 \<Rightarrow> Opcode list \<Rightarrow> MopIR option" where
  "run_example tsan sz os =
     buildAnalyzeAndOptimize (addAnalysis (MopRedundancyAnalysis (redundancy_of tsan)) (new_MopIR (mop_example sz os)))"

lemma mopir_tsan_refines_reducer_witness:
  "\<exists>st. run_example True 4 [StoreInst NotAtomic, LoadInst NotAtomic] = Some st \<and>
     set (getInstrumentationPoints st) = set [(0, 0)]"
proof -
  let ?C = "mop_example 4 [StoreInst NotAtomic, LoadInst NotAtomic]"
  have "run_example True 4 [StoreInst NotAtomic, LoadInst NotAtomic] \<noteq> None" by code_simp
  then obtain st where st: "run_example True 4 [StoreInst NotAtomic, LoadInst NotAtomic] = Some st" by blast
  have "llvm_plain ?C" unfolding llvm_plain_def by code_simp
  moreover have "distillRecurringChecks (RPOT ?C) (Fn ?C) (Env ?C) (map OriginalInst (built_list ?C)) True
      (RIgnoreCalls (redundancy_of True)) = Some [(0, 0)]" by code_simp
  moreover have "length (collectCandidates (collectEdges (Fn ?C) (Env ?C) True (map OriginalInst (built_list ?C)))) \<le> 32"
    by code_simp
  ultimately show ?thesis
    using mopir_tsan_refines_reducer [OF _ _ st [unfolded run_example_def]] st by (simp add: redundancy_of_def)
qed

text \<open>In ASan mode MopIR keeps a check the reducer removes: of a load followed by a store
  into part of its bytes the reducer keeps the load only, MopIR both.\<close>
theorem mopir_asan_keeps_more:
  "let C = mop_example 8 [LoadInst NotAtomic, StoreInst NotAtomic]
   in distillRecurringChecks (RPOT C) (Fn C) (Env C) (map OriginalInst (built_list C)) False False = Some [(0, 0)] \<and>
      map_option getInstrumentationPoints (run_example False 8 [LoadInst NotAtomic, StoreInst NotAtomic])
        = Some [(0, 0), (0, 1)]"
  by code_simp

text \<open>In both modes, and in whatever order the set of candidates is iterated, every check the
  pipeline drops lies within a check it keeps: the kept access covers all its bytes and is a write
  if the dropped one is.  This supposes that the whole-object shortcut applies to no pair of
  operations.\<close>
theorem mopir_dropped_checks_covered:
  assumes "llvm_plain C" "set_order_ok C" "env_sound (Fn C) (Env C) addr"
    and "buildAnalyzeAndOptimize (addAnalysis (MopRedundancyAnalysis R) (new_MopIR C)) = Some st"
    and "\<forall>i \<in> set (map OriginalInst (built_list C)). \<forall>j \<in> set (map OriginalInst (built_list C)).
           \<not> wholeObjectOverwrite (Env C) i (MemoryLocation_get (Env C) i) (MemoryLocation_get (Env C) j)"
    and "M \<in> set (Mops st)"
  shows "\<exists>k \<in> set (getInstrumentationPoints st). check_within (Fn C) (Env C) addr True (OriginalInst M) k"
proof -
  obtain S cov where S: "buildRecurringGraphAndFindDominatingSet C (RIsTsan R) (RIgnoreCalls R) (built_list C)
      = Some (S, cov)" "Mops st = map (mark_mop S cov) (built_list C)"
    using pipeline_run_eq [OF assms(4)] by auto
  note plain = plain_built [OF assms(1)]
  have "OriginalInst M \<in> set (map OriginalInst (built_list C))" using assms(6) S(2) by auto
  from dominating_covers [OF plain assms(2,3,5) S(1) this] obtain k where
    k: "k \<in> set S" "check_within (Fn C) (Env C) addr True (OriginalInst M) k" by blast
  have "set S \<subseteq> set (map OriginalInst (built_list C))"
  proof -
    let ?Is = "map OriginalInst (built_list C)"
    let ?Cs = "iterate_CandSet C (collectCandidates (collectEdges (Fn C) (Env C) True ?Is))"
    obtain Bs where Bs: "S = fillDominatingSet (RecurringGraph ?Cs Bs) [] @ filter (\<lambda>I. I \<notin> set ?Cs) ?Is"
      using find_dominating_eq [OF plain S(1)] by (auto simp: set_iterate [OF assms(2)])
    have "set (fillDominatingSet (RecurringGraph ?Cs Bs) []) \<subseteq> set ?Cs"
      by (rule survivors_candidates)
    moreover have "set ?Cs \<subseteq> set ?Is"
      unfolding set_iterate [OF assms(2)] collectCandidates_set by (auto simp: collectEdges_iff)
    ultimately show ?thesis unfolding Bs by auto
  qed
  then show ?thesis using k by (auto simp: points_eq [OF S(2)])
qed

lemma mopir_dropped_checks_covered_witness:
  "\<exists>st. run_example False 4 [StoreInst NotAtomic, LoadInst NotAtomic] = Some st \<and>
     (\<exists>k \<in> set (getInstrumentationPoints st).
        check_within (Fn (mop_example 4 [StoreInst NotAtomic, LoadInst NotAtomic]))
          (Env (mop_example 4 [StoreInst NotAtomic, LoadInst NotAtomic])) int True (0, 1) k)"
proof -
  let ?C = "mop_example 4 [StoreInst NotAtomic, LoadInst NotAtomic]"
  have "map_option (\<lambda>st. map OriginalInst (Mops st)) (run_example False 4 [StoreInst NotAtomic, LoadInst NotAtomic])
      = Some [(0, 0), (0, 1)]" by code_simp
  then have "\<exists>st. run_example False 4 [StoreInst NotAtomic, LoadInst NotAtomic] = Some st \<and>
      map OriginalInst (Mops st) = [(0, 0), (0, 1)]" by (simp only: map_option_eq_Some)
  then obtain st where st: "run_example False 4 [StoreInst NotAtomic, LoadInst NotAtomic] = Some st"
    "map OriginalInst (Mops st) = [(0, 0), (0, 1)]" by (elim exE conjE)
  have "(0, 1) \<in> set (map OriginalInst (Mops st))" unfolding st(2) by simp
  then obtain M where M: "M \<in> set (Mops st)" "OriginalInst M = (0, 1)" by auto
  have "llvm_plain ?C" unfolding llvm_plain_def by code_simp
  moreover have "env_sound (Fn ?C) (Env ?C) int"
    by (auto simp: env_sound_def mop_example_def same_pointer_env_def)
  moreover have "\<forall>i \<in> set (map OriginalInst (built_list ?C)). \<forall>j \<in> set (map OriginalInst (built_list ?C)).
      \<not> wholeObjectOverwrite (Env ?C) i (MemoryLocation_get (Env ?C) i) (MemoryLocation_get (Env ?C) j)"
    by code_simp
  moreover have "set_order_ok ?C" by (simp add: set_order_ok_def mop_example_def)
  ultimately show ?thesis
    using mopir_dropped_checks_covered [OF _ _ _ st(1) [unfolded run_example_def] _ M(1)] st(1) M(2) by auto
qed

text \<open>The recorded covering operations need not lead to a kept one: two loads before a
  store of the same bytes are dropped for the store, but each is recorded as the
  covering operation of the other.\<close>
theorem covering_chain_cyclic:
  "map_option (\<lambda>st. map (\<lambda>M. (OriginalInst M, IsRedundant M, CoveringMop M)) (Mops st))
     (run_example True 4 [LoadInst NotAtomic, LoadInst NotAtomic, StoreInst NotAtomic]) =
   Some [((0, 0), True, Some (0, 1)), ((0, 1), True, Some (0, 0)), ((0, 2), False, None)]"
  by code_simp

text \<open>C13: Whatever the order of build, analyze, optimize, reset and additions to the
  pipelines, an optimized MopIR is analyzed, an analyzed one is built, and apart from
  the redundancy marks its list is the list built from the function, or empty.\<close>
theorem mopir_pipeline_invariant:
  assumes "mopir_step\<^sup>*\<^sup>* (new_MopIR C) st"
  shows "(Optimized st \<longrightarrow> Analyzed st) \<and> (Analyzed st \<longrightarrow> Built st) \<and>
     map skeleton (Mops st) = (if Built st then map skeleton (built_list C) else [])"
  using inv_reachable [OF assms] by (simp add: mopir_inv_def)

lemma mopir_pipeline_invariant_witness:
  "\<exists>st. optimize (new_MopIR (mop_example 4 [StoreInst NotAtomic])) = Some st \<and> Built st \<and>
     map skeleton (Mops st) = map skeleton (built_list (mop_example 4 [StoreInst NotAtomic]))"
proof -
  let ?C = "mop_example 4 [StoreInst NotAtomic]"
  have "map_option Built (optimize (new_MopIR ?C)) = Some True" by code_simp
  then obtain st where st: "optimize (new_MopIR ?C) = Some st" "Built st" by auto
  have "mopir_step\<^sup>*\<^sup>* (new_MopIR ?C) st" using mopir_step.intros(3) [OF st(1)] by blast
  from mopir_pipeline_invariant [OF this] st show ?thesis by simp
qed

text \<open>C14: The operations of a reachable MopIR are well typed: each belongs to an instruction
  that may access memory, and is a load, a store or a transfer exactly according to that
  instruction; once built, every such load and store of the function is present.\<close>
theorem mopir_mops_typed:
  assumes "mopir_step\<^sup>*\<^sup>* (new_MopIR C) st"
  shows "(\<forall>M \<in> set (Mops st).
      OriginalInst M \<in> set (all_refs (Fn C)) \<and> mayReadOrWriteMemory (BEnv C) (OriginalInst M) \<and>
      (MType M = Load \<longleftrightarrow> isa_LoadInst (opcode (inst_at (Fn C) (OriginalInst M)))) \<and>
      (MType M = Store \<longleftrightarrow> isa_StoreInst (opcode (inst_at (Fn C) (OriginalInst M)))) \<and>
      (MType M = Memcpy \<or> MType M = Memset \<longrightarrow> isa_CallBase (inst_at (Fn C) (OriginalInst M)))) \<and>
    (Built st \<longrightarrow> (\<forall>I \<in> set (all_refs (Fn C)). mayReadOrWriteMemory (BEnv C) I \<longrightarrow>
      isa_LoadInst (opcode (inst_at (Fn C) I)) \<or> isa_StoreInst (opcode (inst_at (Fn C) I)) \<longrightarrow>
      I \<in> set (map OriginalInst (Mops st))))"
proof -
  have inv: "map skeleton (Mops st) = (if Built st then map skeleton (built_list C) else [])"
    using inv_reachable [OF assms] by (simp add: mopir_inv_def)
  have skel: "OriginalInst (skeleton M) = OriginalInst M" "MType (skeleton M) = MType M" for M
    by (simp_all add: skeleton_def)
  have built: "\<exists>M' \<in> set (built_list C). OriginalInst M' = OriginalInst M \<and> MType M' = MType M"
    if "M \<in> set (Mops st)" for M
  proof -
    have "skeleton M \<in> skeleton ` set (built_list C)"
      using that arg_cong [OF inv, of set] by (auto split: if_splits)
    then show ?thesis using skel by (metis imageE)
  qed
  have "map OriginalInst (Mops st) = map OriginalInst (map skeleton (Mops st))" by (simp add: skel comp_def)
  then have all: "Built st \<Longrightarrow> map OriginalInst (Mops st) = map OriginalInst (built_list C)"
    by (simp add: inv skel comp_def)
  show ?thesis
  proof (intro conjI ballI impI)
    fix M assume "M \<in> set (Mops st)"
    from built [OF this] obtain M' where M': "M' \<in> set (built_list C)" "OriginalInst M' = OriginalInst M"
      "MType M' = MType M" by blast
    then obtain I where I: "I \<in> set (all_refs (Fn C))" "mayReadOrWriteMemory (BEnv C) I"
      "createMop (Fn C) (Env C) (BEnv C) I = Some M'" unfolding in_built_list by blast
    note c = createMop_Some [OF I(3)]
    show "OriginalInst M \<in> set (all_refs (Fn C))" "mayReadOrWriteMemory (BEnv C) (OriginalInst M)"
      "MType M = Load \<longleftrightarrow> isa_LoadInst (opcode (inst_at (Fn C) (OriginalInst M)))"
      "MType M = Store \<longleftrightarrow> isa_StoreInst (opcode (inst_at (Fn C) (OriginalInst M)))"
      using I(1,2) c(1,3,4) M'(2,3) by auto
    show "isa_CallBase (inst_at (Fn C) (OriginalInst M))" if "MType M = Memcpy \<or> MType M = Memset"
      using that c(1,6) M'(2,3) by auto
  next
    fix I assume I: "Built st" "I \<in> set (all_refs (Fn C))" "mayReadOrWriteMemory (BEnv C) I"
      "isa_LoadInst (opcode (inst_at (Fn C) I)) \<or> isa_StoreInst (opcode (inst_at (Fn C) I))"
    then obtain M where "M \<in> set (built_list C)" "OriginalInst M = I"
      using createMop_access [OF I(4)] createMop_Some(1) unfolding in_built_list by blast
    then show "I \<in> set (map OriginalInst (Mops st))" using all [OF I(1)] by auto
  qed
qed

lemma mopir_mops_typed_witness:
  "(0, 0) \<in> set (map OriginalInst (Mops (build (new_MopIR (mop_example 4 [LoadInst NotAtomic])))))"
proof -
  let ?C = "mop_example 4 [LoadInst NotAtomic]"
  have "mopir_step\<^sup>*\<^sup>* (new_MopIR ?C) (build (new_MopIR ?C))" using mopir_step.intros(1) by blast
  note typed = mopir_mops_typed [OF this]
  have "(0, 0) \<in> set (all_refs (Fn ?C))" "mayReadOrWriteMemory (BEnv ?C) (0, 0)"
    "isa_LoadInst (opcode (inst_at (Fn ?C) (0, 0)))" by code_simp+
  with typed show ?thesis by simp
qed

end
