(* ===== verification/Asan_Poison.thy ===== *)
theory Asan_Poison
  imports Shadow_Layout "HOL-Library.Monad_Syntax"
begin

unbundle bit_operations_syntax

text \<open>
  \<open>runtime/lib/xsan/asan/asan_poisoning.cpp\<close> with the inline functions of
  \<open>asan/asan_poisoning.h\<close>: poisoning and unpoisoning of shadow memory, region checks
  and container annotations.  Shadow memory is a function from addresses to bytes; a
  failed \<open>CHECK\<close>, a fatal report and a loop that does not end are \<open>None\<close>.  Logging and
  the debug-only checks are left out.
\<close>

section \<open>Shadow memory\<close>

type_synonym shadow = "uptr \<Rightarrow> u8"

record asan_env =
  Layout :: asan_layout
  allow_user_poisoning :: bool
  poison_array_cookie :: bool
  detect_container_overflow :: bool
  poison_partial :: bool
  clear_shadow_mmap_threshold :: uptr
  PageSize :: uptr

record asan_state =
  Shadow :: shadow
  can_poison_memory :: bool

definition REAL_memset :: "shadow \<Rightarrow> uptr \<Rightarrow> u8 \<Rightarrow> uptr \<Rightarrow> shadow" where
  "REAL_memset S p v n = (\<lambda>q. if q - p < n then v else S q)"

definition internal_memmove :: "shadow \<Rightarrow> uptr \<Rightarrow> uptr \<Rightarrow> uptr \<Rightarrow> shadow" where
  "internal_memmove S dst src n = (\<lambda>q. if q - dst < n then S (src + (q - dst)) else S q)"

definition RoundUpTo :: "uptr \<Rightarrow> uptr \<Rightarrow> uptr" where
  "RoundUpTo sz boundary = (sz + boundary - 1) AND NOT (boundary - 1)"

definition RoundDownTo :: "uptr \<Rightarrow> uptr \<Rightarrow> uptr" where
  "RoundDownTo x boundary = x AND NOT (boundary - 1)"

definition IsAligned :: "uptr \<Rightarrow> uptr \<Rightarrow> bool" where
  "IsAligned a alignment \<longleftrightarrow> a AND (alignment - 1) = 0"

definition kAsanHeapFreeMagic :: u8 where "kAsanHeapFreeMagic = 0xfd"
definition kAsanUserPoisonedMemoryMagic :: u8 where "kAsanUserPoisonedMemoryMagic = 0xf7"
definition kAsanContiguousContainerOOBMagic :: u8 where "kAsanContiguousContainerOOBMagic = 0xfc"
definition kAsanStackUseAfterScopeMagic :: u8 where "kAsanStackUseAfterScopeMagic = 0xf8"
definition kAsanArrayCookieMagic :: u8 where "kAsanArrayCookieMagic = 0xac"
definition kAsanIntraObjectRedzone :: u8 where "kAsanIntraObjectRedzone = 0xbb"

lemmas magic_defs = kAsanHeapFreeMagic_def kAsanUserPoisonedMemoryMagic_def
  kAsanContiguousContainerOOBMagic_def kAsanStackUseAfterScopeMagic_def kAsanArrayCookieMagic_def
  kAsanIntraObjectRedzone_def

definition Asan_MemToShadow :: "asan_env \<Rightarrow> uptr \<Rightarrow> uptr" where
  "Asan_MemToShadow E p = MEM_TO_SHADOW (ASAN_SHADOW_OFFSET (Layout E)) p"

definition AddressIsPoisoned :: "asan_env \<Rightarrow> shadow \<Rightarrow> uptr \<Rightarrow> bool" where
  "AddressIsPoisoned E S a =
     (let shadow_value = S (MEM_TO_SHADOW (ASAN_SHADOW_OFFSET (Layout E)) a)
      in if shadow_value \<noteq> 0
         then let last_accessed_byte = (ucast ((a AND (ASAN_SHADOW_GRANULARITY - 1)) + 1 - 1) :: u8)
              in uint last_accessed_byte \<ge> sint shadow_value
         else False)"

text \<open>\<open>Min\<close> and \<open>Max\<close> of two \<open>s8\<close>.\<close>

definition Min_s8 :: "u8 \<Rightarrow> u8 \<Rightarrow> u8" where "Min_s8 a b = (if sint a < sint b then a else b)"
definition Max_s8 :: "u8 \<Rightarrow> u8 \<Rightarrow> u8" where "Max_s8 a b = (if sint a > sint b then a else b)"

section \<open>Poisoning by the runtime\<close>

definition SetCanPoisonMemory :: "bool \<Rightarrow> asan_state \<Rightarrow> asan_state" where
  "SetCanPoisonMemory b st = st\<lparr>can_poison_memory := b\<rparr>"

text \<open>\<open>ReserveShadowMemoryRange\<close> maps fresh pages, which read as zero.\<close>

definition FastPoisonShadow :: "asan_env \<Rightarrow> uptr \<Rightarrow> uptr \<Rightarrow> u8 \<Rightarrow> shadow \<Rightarrow> shadow" where
  "FastPoisonShadow E aligned_beg aligned_size value S =
     (let shadow_beg = MEM_TO_SHADOW (ASAN_SHADOW_OFFSET (Layout E)) aligned_beg;
          shadow_end = MEM_TO_SHADOW (ASAN_SHADOW_OFFSET (Layout E))
                         (aligned_beg + aligned_size - ASAN_SHADOW_GRANULARITY) + 1
      in if value \<noteq> 0 \<or> shadow_end - shadow_beg < clear_shadow_mmap_threshold E
         then REAL_memset S shadow_beg value (shadow_end - shadow_beg)
         else
           let page_size = PageSize E;
               page_beg = RoundUpTo shadow_beg page_size;
               page_end = RoundDownTo shadow_end page_size
           in if page_beg \<ge> page_end then REAL_memset S shadow_beg 0 (shadow_end - shadow_beg)
              else
                let S = (if page_beg \<noteq> shadow_beg then REAL_memset S shadow_beg 0 (page_beg - shadow_beg) else S);
                    S = (if page_end \<noteq> shadow_end then REAL_memset S page_end 0 (shadow_end - page_end) else S)
                in REAL_memset S page_beg 0 (page_end - page_beg))"

definition PoisonShadow :: "asan_env \<Rightarrow> uptr \<Rightarrow> uptr \<Rightarrow> u8 \<Rightarrow> asan_state \<Rightarrow> asan_state option" where
  "PoisonShadow E addr sz value st =
     (if value \<noteq> 0 \<and> \<not> can_poison_memory st then Some st
      else if AddrIsAlignedByGranularity addr \<and> AddrIsInMem (Layout E) addr \<and>
              AddrIsAlignedByGranularity (addr + sz) \<and>
              AddrIsInMem (Layout E) (addr + sz - ASAN_SHADOW_GRANULARITY)
           then Some (st\<lparr>Shadow := FastPoisonShadow E addr sz value (Shadow st)\<rparr>)
           else None)"

fun partial_redzone_loop ::
  "asan_env \<Rightarrow> nat \<Rightarrow> uptr \<Rightarrow> uptr \<Rightarrow> uptr \<Rightarrow> u8 \<Rightarrow> uptr \<Rightarrow> shadow \<Rightarrow> shadow" where
  "partial_redzone_loop E 0 i sz redzone_size value shadow S = S"
| "partial_redzone_loop E (Suc n) i sz redzone_size value shadow S =
     (if i < redzone_size
      then
        let S = S(shadow :=
              (if i + ASAN_SHADOW_GRANULARITY \<le> sz then 0
               else if i \<ge> sz then (if ASAN_SHADOW_GRANULARITY = 128 then 0xff else value)
               else if poison_partial E then ucast (sz - i) else 0))
        in partial_redzone_loop E n (i + ASAN_SHADOW_GRANULARITY) sz redzone_size value (shadow + 1) S
      else S)"

text \<open>The loop runs once per granule of the redzone, which bounds its fuel.\<close>

definition FastPoisonShadowPartialRightRedzone ::
  "asan_env \<Rightarrow> uptr \<Rightarrow> uptr \<Rightarrow> uptr \<Rightarrow> u8 \<Rightarrow> shadow \<Rightarrow> shadow" where
  "FastPoisonShadowPartialRightRedzone E aligned_addr sz redzone_size value S =
     partial_redzone_loop E (Suc (unat redzone_size div 8)) 0 sz redzone_size value
       (MEM_TO_SHADOW (ASAN_SHADOW_OFFSET (Layout E)) aligned_addr) S"

definition PoisonShadowPartialRightRedzone ::
  "asan_env \<Rightarrow> uptr \<Rightarrow> uptr \<Rightarrow> uptr \<Rightarrow> u8 \<Rightarrow> asan_state \<Rightarrow> asan_state option" where
  "PoisonShadowPartialRightRedzone E addr sz redzone_size value st =
     (if \<not> can_poison_memory st then Some st
      else if AddrIsAlignedByGranularity addr \<and> AddrIsInMem (Layout E) addr
      then Some (st\<lparr>Shadow := FastPoisonShadowPartialRightRedzone E addr sz redzone_size value (Shadow st)\<rparr>)
      else None)"

record ShadowSegmentEndpoint =
  chunk :: uptr
  offset :: u8
  endpoint_value :: u8

definition new_ShadowSegmentEndpoint :: "asan_env \<Rightarrow> shadow \<Rightarrow> uptr \<Rightarrow> ShadowSegmentEndpoint" where
  "new_ShadowSegmentEndpoint E S address =
     \<lparr>chunk = Asan_MemToShadow E address, offset = ucast (address AND (ASAN_SHADOW_GRANULARITY - 1)),
      endpoint_value = S (Asan_MemToShadow E address)\<rparr>"

fun intra_object_loop :: "asan_env \<Rightarrow> nat \<Rightarrow> uptr \<Rightarrow> uptr \<Rightarrow> bool \<Rightarrow> shadow \<Rightarrow> shadow" where
  "intra_object_loop E 0 p e poison S = S"
| "intra_object_loop E (Suc n) p e poison S =
     (if p < e
      then intra_object_loop E n (p + ASAN_SHADOW_GRANULARITY) e poison
             (S(Asan_MemToShadow E p := (if poison then kAsanIntraObjectRedzone else 0)))
      else S)"

text \<open>The size is at most 4096, so the loop runs at most 512 times.\<close>

definition AsanPoisonOrUnpoisonIntraObjectRedzone ::
  "asan_env \<Rightarrow> uptr \<Rightarrow> uptr \<Rightarrow> bool \<Rightarrow> shadow \<Rightarrow> shadow option" where
  "AsanPoisonOrUnpoisonIntraObjectRedzone E p sz poison S =
     (let e = p + sz
      in if sz \<noteq> 0 \<and> sz \<le> 4096 \<and> IsAligned e ASAN_SHADOW_GRANULARITY then
           Some (if \<not> IsAligned p ASAN_SHADOW_GRANULARITY
             then intra_object_loop E 513 ((p OR (ASAN_SHADOW_GRANULARITY - 1)) + 1) e poison
                    (S(Asan_MemToShadow E p := (if poison then ucast (p mod ASAN_SHADOW_GRANULARITY) else 0)))
             else intra_object_loop E 513 p e poison S)
         else None)"

definition asan_poison_intra_object_redzone :: "asan_env \<Rightarrow> uptr \<Rightarrow> uptr \<Rightarrow> shadow \<Rightarrow> shadow option" where
  "asan_poison_intra_object_redzone E p sz S = AsanPoisonOrUnpoisonIntraObjectRedzone E p sz True S"

definition asan_unpoison_intra_object_redzone :: "asan_env \<Rightarrow> uptr \<Rightarrow> uptr \<Rightarrow> shadow \<Rightarrow> shadow option" where
  "asan_unpoison_intra_object_redzone E p sz S = AsanPoisonOrUnpoisonIntraObjectRedzone E p sz False S"

section \<open>Poisoning by the user\<close>

definition asan_poison_memory_region :: "asan_env \<Rightarrow> uptr \<Rightarrow> uptr \<Rightarrow> shadow \<Rightarrow> shadow option" where
  "asan_poison_memory_region E addr sz S =
     (if \<not> allow_user_poisoning E \<or> sz = 0 then Some S
      else
        let beg_addr = addr; end_addr = beg_addr + sz;
            b = new_ShadowSegmentEndpoint E S beg_addr;
            e = new_ShadowSegmentEndpoint E S end_addr
        in if chunk b = chunk e then
             (if sint (offset b) < sint (offset e) \<and> endpoint_value b = endpoint_value e then
                let value = endpoint_value b
                in if sint value > 0 \<and> sint value \<le> sint (offset e)
                   then Some (S(chunk b := (if sint (offset b) > 0 then Min_s8 value (offset b)
                                            else kAsanUserPoisonedMemoryMagic)))
                   else Some S
              else None)
           else if chunk b < chunk e then
             let (S, c) =
                   (if sint (offset b) > 0
                    then (S(chunk b := (if endpoint_value b = 0 then offset b
                                        else Min_s8 (endpoint_value b) (offset b))), chunk b + 1)
                    else (S, chunk b));
                 S = REAL_memset S c kAsanUserPoisonedMemoryMagic (chunk e - c)
             in Some (if sint (endpoint_value e) > 0 \<and> sint (endpoint_value e) \<le> sint (offset e)
                      then S(chunk e := kAsanUserPoisonedMemoryMagic) else S)
           else None)"

definition asan_unpoison_memory_region :: "asan_env \<Rightarrow> uptr \<Rightarrow> uptr \<Rightarrow> shadow \<Rightarrow> shadow option" where
  "asan_unpoison_memory_region E addr sz S =
     (if \<not> allow_user_poisoning E \<or> sz = 0 then Some S
      else
        let beg_addr = addr; end_addr = beg_addr + sz;
            b = new_ShadowSegmentEndpoint E S beg_addr;
            e = new_ShadowSegmentEndpoint E S end_addr
        in if chunk b = chunk e then
             (if sint (offset b) < sint (offset e) \<and> endpoint_value b = endpoint_value e then
                let value = endpoint_value b
                in if value \<noteq> 0 then Some (S(chunk b := Max_s8 value (offset e))) else Some S
              else None)
           else if chunk b < chunk e then
             let S = REAL_memset S (chunk b) 0 (chunk e - chunk b)
             in Some (if sint (offset e) > 0 \<and> endpoint_value e \<noteq> 0
                      then S(chunk e := Max_s8 (endpoint_value e) (offset e)) else S)
           else None)"

section \<open>Checking regions\<close>

definition asan_address_is_poisoned :: "asan_env \<Rightarrow> shadow \<Rightarrow> uptr \<Rightarrow> bool" where
  "asan_address_is_poisoned E S addr = AddressIsPoisoned E S addr"

text \<open>
  The bytes from \<open>a\<close> to \<open>b\<close> are zero: one of the three loops of \<open>mem_is_zero\<close>, the
  second of which reads eight bytes at a time.
\<close>

definition bytes_zero :: "shadow \<Rightarrow> uptr \<Rightarrow> uptr \<Rightarrow> bool" where
  "bytes_zero S a b \<longleftrightarrow> (a < b \<longrightarrow> list_all (\<lambda>i. S (a + word_of_nat i) = 0) [0..<unat (b - a)])"

definition mem_is_zero :: "shadow \<Rightarrow> uptr \<Rightarrow> uptr \<Rightarrow> bool option" where
  "mem_is_zero S p sz =
     (if sz \<le> push_bit 40 1 then
        let e = p + sz;
            aligned_beg = RoundUpTo p 8; aligned_end = RoundDownTo e 8
        in Some (bytes_zero S p (if aligned_beg < e then aligned_beg else e) \<and>
                 bytes_zero S aligned_beg aligned_end \<and>
                 (aligned_end \<ge> p \<longrightarrow> bytes_zero S aligned_end e))
      else None)"

fun find_poisoned :: "asan_env \<Rightarrow> shadow \<Rightarrow> uptr \<Rightarrow> nat \<Rightarrow> uptr option" where
  "find_poisoned E S p 0 = None"
| "find_poisoned E S p (Suc n) = (if AddressIsPoisoned E S p then Some p else find_poisoned E S (p + 1) n)"

text \<open>The \<open>UNREACHABLE\<close> at the end is \<open>None\<close> too.\<close>

definition asan_region_is_poisoned :: "asan_env \<Rightarrow> shadow \<Rightarrow> uptr \<Rightarrow> uptr \<Rightarrow> uptr option" where
  "asan_region_is_poisoned E S p sz =
     (if sz = 0 then Some 0
      else
        let e = p + sz
        in if \<not> AddrIsInMem (Layout E) p then Some p
           else if \<not> AddrIsInMem (Layout E) e then Some e
           else if p < e then
             let aligned_b = RoundUpTo p ASAN_SHADOW_GRANULARITY;
                 aligned_e = RoundDownTo e ASAN_SHADOW_GRANULARITY;
                 shadow_beg = Asan_MemToShadow E aligned_b;
                 shadow_end = Asan_MemToShadow E aligned_e
             in do {
               fast \<leftarrow>
                 (if AddressIsPoisoned E S p \<or> AddressIsPoisoned E S (e - 1) then Some False
                  else if shadow_end \<le> shadow_beg then Some True
                  else mem_is_zero S shadow_beg (shadow_end - shadow_beg));
               if fast then Some 0 else find_poisoned E S p (unat (e - p))
             }
           else None)"

definition WordIsPoisoned :: "asan_env \<Rightarrow> shadow \<Rightarrow> uptr \<Rightarrow> bool option" where
  "WordIsPoisoned E S addr = map_option (\<lambda>r. r \<noteq> 0) (asan_region_is_poisoned E S addr 8)"

text \<open>The address that \<open>CHECK_SMALL_REGION\<close> reports, if it reports one.\<close>

definition CHECK_SMALL_REGION :: "asan_env \<Rightarrow> shadow \<Rightarrow> uptr \<Rightarrow> uptr \<Rightarrow> uptr option option" where
  "CHECK_SMALL_REGION E S p sz =
     (if AddressIsPoisoned E S p \<or> AddressIsPoisoned E S (p + sz - 1)
      then map_option Some (asan_region_is_poisoned E S p sz) else Some None)"

section \<open>Array cookies and stack memory\<close>

definition asan_poison_cxx_array_cookie :: "asan_env \<Rightarrow> uptr \<Rightarrow> shadow \<Rightarrow> shadow" where
  "asan_poison_cxx_array_cookie E p S =
     (if \<not> poison_array_cookie E then S
      else S(MEM_TO_SHADOW (ASAN_SHADOW_OFFSET (Layout E)) p := kAsanArrayCookieMagic))"

text \<open>\<open>cookie\<close> is the word the pointer points to.\<close>

definition asan_load_cxx_array_cookie :: "asan_env \<Rightarrow> shadow \<Rightarrow> uptr \<Rightarrow> uptr \<Rightarrow> uptr" where
  "asan_load_cxx_array_cookie E S p cookie =
     (if \<not> poison_array_cookie E then cookie
      else
        let sval = S (MEM_TO_SHADOW (ASAN_SHADOW_OFFSET (Layout E)) p)
        in if sval = kAsanArrayCookieMagic then cookie
           else if sval = kAsanHeapFreeMagic then 0 else cookie)"

definition PoisonAlignedStackMemory :: "asan_env \<Rightarrow> uptr \<Rightarrow> uptr \<Rightarrow> bool \<Rightarrow> asan_state \<Rightarrow> asan_state option" where
  "PoisonAlignedStackMemory E addr sz do_poison st =
     (if sz = 0 then Some st
      else
        let aligned_size = sz AND NOT (ASAN_SHADOW_GRANULARITY - 1)
        in do {
          st \<leftarrow> PoisonShadow E addr aligned_size (if do_poison then kAsanStackUseAfterScopeMagic else 0) st;
          if sz = aligned_size then Some st
          else
            let end_offset = (ucast (sz - aligned_size) :: u8);
                shadow_end = Asan_MemToShadow E (addr + aligned_size);
                end_value = Shadow st shadow_end
            in if do_poison
               then Some (if sint end_value > 0 \<and> sint end_value \<le> sint end_offset
                          then st\<lparr>Shadow := (Shadow st)(shadow_end := kAsanStackUseAfterScopeMagic)\<rparr> else st)
               else Some (if end_value \<noteq> 0
                          then st\<lparr>Shadow := (Shadow st)(shadow_end := Max_s8 end_value end_offset)\<rparr> else st)
        })"

definition asan_set_shadow :: "u8 \<Rightarrow> uptr \<Rightarrow> uptr \<Rightarrow> shadow \<Rightarrow> shadow" where
  "asan_set_shadow v addr sz S = REAL_memset S addr v sz"

definition asan_poison_stack_memory :: "asan_env \<Rightarrow> uptr \<Rightarrow> uptr \<Rightarrow> asan_state \<Rightarrow> asan_state option" where
  "asan_poison_stack_memory E addr sz st = PoisonAlignedStackMemory E addr sz True st"

definition asan_unpoison_stack_memory :: "asan_env \<Rightarrow> uptr \<Rightarrow> uptr \<Rightarrow> asan_state \<Rightarrow> asan_state option" where
  "asan_unpoison_stack_memory E addr sz st = PoisonAlignedStackMemory E addr sz False st"

end
