(* ===== verification/Asan_Container.thy ===== *)
theory Asan_Container
  imports Asan_Poison
begin

unbundle bit_operations_syntax

text \<open>
  Container annotations of \<open>asan_poisoning.cpp\<close>: the interface by which
  \<open>std::vector\<close> and \<open>std::deque\<close> tell ASan which part of their storage is in use, the
  copying of annotations, and the functions that verify them.
\<close>

definition granularity :: uptr where "granularity = ASAN_SHADOW_GRANULARITY"

record storage_bounds =
  old_beg :: uptr
  old_end :: uptr
  new_beg :: uptr
  new_end :: uptr

definition map_bounds :: "(uptr \<Rightarrow> uptr) \<Rightarrow> storage_bounds \<Rightarrow> storage_bounds" where
  "map_bounds f b = \<lparr>old_beg = f (old_beg b), old_end = f (old_end b),
                    new_beg = f (new_beg b), new_end = f (new_end b)\<rparr>"

definition FixUnalignedStorage ::
  "asan_env \<Rightarrow> uptr \<Rightarrow> uptr \<Rightarrow> storage_bounds \<Rightarrow> shadow \<Rightarrow> storage_bounds \<times> shadow" where
  "FixUnalignedStorage E storage_beg storage_end bs S =
     (let bs =
        (if \<not> AddrIsAlignedByGranularity storage_end then
           let end_down = RoundDownTo storage_end granularity
           in if ((old_end bs \<noteq> new_end bs \<and> max (old_end bs) (new_end bs) > end_down) \<or>
                  (old_beg bs \<noteq> new_beg bs \<and> max (old_beg bs) (new_beg bs) > end_down)) \<and>
                 \<not> AddressIsPoisoned E S storage_end
              then map_bounds (min end_down) bs else bs
         else bs)
      in if \<not> AddrIsAlignedByGranularity storage_beg then
           let beg_up = RoundUpTo storage_beg granularity
           in if (new_beg bs = new_end bs \<or> new_beg bs \<ge> beg_up) \<and> old_beg bs \<noteq> old_end bs \<and>
                 old_beg bs < beg_up
              then
                let beg_down = RoundDownTo storage_beg granularity
                in (map_bounds (max beg_up) bs,
                    S(Asan_MemToShadow E beg_down := ucast (storage_beg - beg_down)))
              else (bs, S)
         else (bs, S))"

definition sanitizer_annotate_contiguous_container ::
  "asan_env \<Rightarrow> uptr \<Rightarrow> uptr \<Rightarrow> uptr \<Rightarrow> uptr \<Rightarrow> asan_state \<Rightarrow> asan_state option" where
  "sanitizer_annotate_contiguous_container E storage_beg storage_end old_mid new_mid st =
     (if \<not> detect_container_overflow E then Some st
      else if \<not> (storage_beg \<le> old_mid \<and> storage_beg \<le> new_mid \<and>
                 old_mid \<le> storage_end \<and> new_mid \<le> storage_end) then None
      else if \<not> storage_end - storage_beg \<le> push_bit 40 1 then None
      else if old_mid = new_mid then Some st
      else
        let (bs, S) = FixUnalignedStorage E storage_beg storage_end
              \<lparr>old_beg = storage_beg, old_end = old_mid, new_beg = storage_beg, new_end = new_mid\<rparr> (Shadow st);
            st = st\<lparr>Shadow := S\<rparr>;
            a = RoundDownTo (min (old_end bs) (new_end bs)) granularity;
            c = RoundUpTo (max (old_end bs) (new_end bs)) granularity;
            b1 = RoundDownTo (new_end bs) granularity;
            b2 = RoundUpTo (new_end bs) granularity
        in do {
          st \<leftarrow> (if b1 > a then PoisonShadow E a (b1 - a) 0 st
                else if c > b2 then PoisonShadow E b2 (c - b2) kAsanContiguousContainerOOBMagic st
                else Some st);
          if b1 \<noteq> b2 then
            (if b2 - b1 = granularity
             then Some (st\<lparr>Shadow := (Shadow st)(Asan_MemToShadow E b1 := ucast (new_end bs - b1))\<rparr>)
             else None)
          else Some st
        })"

definition sanitizer_annotate_double_ended_contiguous_container ::
  "asan_env \<Rightarrow> uptr \<Rightarrow> uptr \<Rightarrow> uptr \<Rightarrow> uptr \<Rightarrow> uptr \<Rightarrow> uptr \<Rightarrow> asan_state \<Rightarrow> asan_state option" where
  "sanitizer_annotate_double_ended_contiguous_container E storage_beg storage_end ob oe nb ne st =
     (if \<not> detect_container_overflow E then Some st
      else if \<not> (ob \<le> oe \<and> nb \<le> ne) \<or> \<not> (storage_beg \<le> nb \<and> ne \<le> storage_end) \<or>
              \<not> (storage_beg \<le> ob \<and> oe \<le> storage_end) then None
      else if \<not> storage_end - storage_beg \<le> push_bit 40 1 then None
      else if (ob = oe \<and> nb = ne) \<or> (ob = nb \<and> oe = ne) then Some st
      else
        let (bs, S) = FixUnalignedStorage E storage_beg storage_end
              \<lparr>old_beg = ob, old_end = oe, new_beg = nb, new_end = ne\<rparr> (Shadow st);
            st = st\<lparr>Shadow := S\<rparr>;
            ob = old_beg bs; oe = old_end bs; nb = new_beg bs; ne = new_end bs;
            down = (\<lambda>x. RoundDownTo x granularity); up = (\<lambda>x. RoundUpTo x granularity);
            prefix = (\<lambda>st. if \<not> AddrIsAlignedByGranularity ne
                           then st\<lparr>Shadow := (Shadow st)(Asan_MemToShadow E (down ne) := ucast (ne - down ne))\<rparr>
                           else st)
        in if ob = oe \<or> nb = ne \<or> ne \<le> ob \<or> oe \<le> nb then
             do {
               st \<leftarrow> (if ob \<noteq> oe
                     then PoisonShadow E (down ob) (up oe - down ob) kAsanContiguousContainerOOBMagic st
                     else Some st);
               if nb \<noteq> ne
               then map_option prefix (PoisonShadow E (down nb) (down ne - down nb) 0 st)
               else Some st
             }
           else if \<not> nb < oe \<or> \<not> ne > ob then None
           else do {
             st \<leftarrow> (if nb < ob then PoisonShadow E (down nb) (down ob - down nb) 0 st
                   else if nb > ob
                     then PoisonShadow E (down ob) (down nb - down ob) kAsanContiguousContainerOOBMagic st
                   else Some st);
             if ne > oe then map_option prefix (PoisonShadow E (down oe) (down ne - down oe) 0 st)
             else if ne < oe
               then map_option prefix (PoisonShadow E (up ne) (up oe - up ne) kAsanContiguousContainerOOBMagic st)
             else Some st
           })"

section \<open>Copying annotations\<close>

definition SetContainerGranule :: "asan_env \<Rightarrow> uptr \<Rightarrow> u8 \<Rightarrow> shadow \<Rightarrow> shadow" where
  "SetContainerGranule E p n S =
     S(Asan_MemToShadow E p :=
         (if ucast n = granularity then 0 else if n \<noteq> 0 then n else kAsanContiguousContainerOOBMagic))"

text \<open>The inner loops go over the bytes of one granule.\<close>

fun copy_granule :: "asan_env \<Rightarrow> shadow \<Rightarrow> nat \<Rightarrow> uptr \<Rightarrow> uptr \<Rightarrow> uptr \<Rightarrow> uptr \<Rightarrow> uptr" where
  "copy_granule E S 0 granule_beg src_ptr dst_ptr unpoisoned_bytes = unpoisoned_bytes"
| "copy_granule E S (Suc n) granule_beg src_ptr dst_ptr unpoisoned_bytes =
     copy_granule E S n granule_beg (src_ptr + 1) (dst_ptr + 1)
       (if \<not> AddressIsPoisoned E S src_ptr then dst_ptr - granule_beg + 1 else unpoisoned_bytes)"

partial_function (option) SlowCopyContainerAnnotations_loop ::
  "asan_env \<Rightarrow> uptr \<Rightarrow> uptr \<Rightarrow> uptr \<Rightarrow> uptr \<Rightarrow> shadow \<Rightarrow> shadow option" where
  "SlowCopyContainerAnnotations_loop E dst_beg dst_end src_ptr dst_ptr S =
     (if dst_ptr < dst_end then
        let granule_beg = RoundDownTo dst_ptr granularity;
            granule_end = granule_beg + granularity;
            e = min granule_end dst_end;
            n = unat (e - dst_ptr);
            unpoisoned_bytes = copy_granule E S n granule_beg src_ptr dst_ptr 0;
            S = (if e = dst_end \<and> dst_end \<noteq> RoundDownTo dst_end granularity \<and> \<not> AddressIsPoisoned E S dst_end
                 then S
                 else if unpoisoned_bytes \<noteq> 0 \<or> granule_beg \<ge> dst_beg
                   then SetContainerGranule E granule_beg (ucast unpoisoned_bytes) S
                 else if \<not> AddressIsPoisoned E S dst_beg
                   then SetContainerGranule E granule_beg (ucast (dst_beg - granule_beg)) S
                 else S)
        in SlowCopyContainerAnnotations_loop E dst_beg dst_end (src_ptr + (e - dst_ptr)) e S
      else Some S)"

definition SlowCopyContainerAnnotations ::
  "asan_env \<Rightarrow> uptr \<Rightarrow> uptr \<Rightarrow> uptr \<Rightarrow> uptr \<Rightarrow> shadow \<Rightarrow> shadow option" where
  "SlowCopyContainerAnnotations E src_beg src_end dst_beg dst_end S =
     SlowCopyContainerAnnotations_loop E dst_beg dst_end src_beg dst_beg S"

fun reversed_granule :: "asan_env \<Rightarrow> shadow \<Rightarrow> nat \<Rightarrow> uptr \<Rightarrow> uptr \<Rightarrow> uptr \<Rightarrow> uptr \<Rightarrow> uptr" where
  "reversed_granule E S 0 granule_beg src_ptr dst_ptr unpoisoned_bytes = unpoisoned_bytes"
| "reversed_granule E S (Suc n) granule_beg src_ptr dst_ptr unpoisoned_bytes =
     reversed_granule E S n granule_beg (src_ptr - 1) (dst_ptr - 1)
       (if unpoisoned_bytes = 0 \<and> \<not> AddressIsPoisoned E S (src_ptr - 1)
        then dst_ptr - granule_beg else unpoisoned_bytes)"

partial_function (option) SlowReversedCopyContainerAnnotations_loop ::
  "asan_env \<Rightarrow> uptr \<Rightarrow> uptr \<Rightarrow> uptr \<Rightarrow> uptr \<Rightarrow> shadow \<Rightarrow> shadow option" where
  "SlowReversedCopyContainerAnnotations_loop E dst_beg dst_end src_ptr dst_ptr S =
     (if dst_ptr > dst_beg then
        let granule_beg = RoundDownTo (dst_ptr - 1) granularity;
            e = max granule_beg dst_beg;
            n = unat (dst_ptr - e);
            unpoisoned_bytes = reversed_granule E S n granule_beg src_ptr dst_ptr 0;
            S = (if e \<ge> RoundDownTo dst_end granularity \<and> \<not> AddressIsPoisoned E S dst_end then S
                 else if granule_beg = e \<or> unpoisoned_bytes \<noteq> 0
                   then SetContainerGranule E granule_beg (ucast unpoisoned_bytes) S
                 else if \<not> AddressIsPoisoned E S dst_beg
                   then SetContainerGranule E granule_beg (ucast (dst_beg - granule_beg)) S
                 else S)
        in SlowReversedCopyContainerAnnotations_loop E dst_beg dst_end (src_ptr - (dst_ptr - e)) e S
      else Some S)"

definition SlowReversedCopyContainerAnnotations ::
  "asan_env \<Rightarrow> uptr \<Rightarrow> uptr \<Rightarrow> uptr \<Rightarrow> uptr \<Rightarrow> shadow \<Rightarrow> shadow option" where
  "SlowReversedCopyContainerAnnotations E src_beg src_end dst_beg dst_end S =
     SlowReversedCopyContainerAnnotations_loop E dst_beg dst_end src_end dst_end S"

declare SlowCopyContainerAnnotations_loop.simps [code]
  SlowReversedCopyContainerAnnotations_loop.simps [code]

definition CopyContainerFirstGranuleAnnotation :: "asan_env \<Rightarrow> uptr \<Rightarrow> uptr \<Rightarrow> shadow \<Rightarrow> shadow" where
  "CopyContainerFirstGranuleAnnotation E src_beg dst_beg S =
     (let src_beg_down = RoundDownTo src_beg granularity;
          dst_beg_down = RoundDownTo dst_beg granularity
      in if dst_beg_down = dst_beg then S
         else if \<not> AddressIsPoisoned E S src_beg
           then S(Asan_MemToShadow E dst_beg_down := S (Asan_MemToShadow E src_beg_down))
         else if \<not> AddressIsPoisoned E S dst_beg
           then SetContainerGranule E dst_beg_down (ucast (dst_beg - dst_beg_down)) S
         else S)"

definition CopyContainerLastGranuleAnnotation :: "asan_env \<Rightarrow> uptr \<Rightarrow> uptr \<Rightarrow> shadow \<Rightarrow> shadow" where
  "CopyContainerLastGranuleAnnotation E src_end dst_end S =
     (let src_end_down = RoundDownTo src_end granularity;
          dst_end_down = RoundDownTo dst_end granularity
      in if dst_end_down = dst_end \<or> \<not> AddressIsPoisoned E S dst_end then S
         else if AddressIsPoisoned E S src_end
           then S(Asan_MemToShadow E dst_end_down := S (Asan_MemToShadow E src_end_down))
         else SetContainerGranule E dst_end_down (ucast (src_end - src_end_down)) S)"

definition sanitizer_copy_contiguous_container_annotations ::
  "asan_env \<Rightarrow> uptr \<Rightarrow> uptr \<Rightarrow> uptr \<Rightarrow> uptr \<Rightarrow> shadow \<Rightarrow> shadow option" where
  "sanitizer_copy_contiguous_container_annotations E src_beg src_end dst_beg dst_end S =
     (if \<not> detect_container_overflow E then Some S
      else if src_beg > src_end \<or> dst_end - dst_beg \<noteq> src_end - src_beg then None
      else if src_beg = src_end \<or> src_beg = dst_beg then Some S
      else
        let src_beg_up = RoundUpTo src_beg granularity;
            src_end_up = RoundUpTo src_end granularity;
            copy_in_reversed_order = (src_beg < dst_beg \<and> dst_beg \<le> src_end_up)
        in if src_beg mod granularity \<noteq> dst_beg mod granularity \<or>
              RoundDownTo (dst_end - 1) granularity \<le> dst_beg then
             (if copy_in_reversed_order
              then SlowReversedCopyContainerAnnotations E src_beg src_end dst_beg dst_end S
              else SlowCopyContainerAnnotations E src_beg src_end dst_beg dst_end S)
           else
             let dst_beg_up = RoundUpTo dst_beg granularity;
                 dst_end_down = RoundDownTo dst_end granularity;
                 S = (if copy_in_reversed_order then CopyContainerLastGranuleAnnotation E src_end dst_end S
                      else CopyContainerFirstGranuleAnnotation E src_beg dst_beg S);
                 S = (if dst_beg_up < dst_end_down
                      then internal_memmove S (Asan_MemToShadow E dst_beg_up) (Asan_MemToShadow E src_beg_up)
                             ((dst_end_down - dst_beg_up) div granularity)
                      else S)
             in Some (if copy_in_reversed_order then CopyContainerFirstGranuleAnnotation E src_beg dst_beg S
                      else CopyContainerLastGranuleAnnotation E src_end dst_end S))"

section \<open>Verifying annotations\<close>

fun find_state :: "asan_env \<Rightarrow> shadow \<Rightarrow> bool \<Rightarrow> uptr \<Rightarrow> nat \<Rightarrow> uptr option" where
  "find_state E S poisoned p 0 = None"
| "find_state E S poisoned p (Suc n) =
     (if AddressIsPoisoned E S p \<noteq> poisoned then Some p else find_state E S poisoned (p + 1) n)"

text \<open>
  The two recursive calls are on ranges of 32 bytes, which recurse no further: they are
  the scan itself.  The outer \<open>None\<close> is a failed check, the inner one \<open>nullptr\<close>.
\<close>

definition kMaxRangeToCheck :: uptr where "kMaxRangeToCheck = 32"

definition FindBadAddress :: "asan_env \<Rightarrow> shadow \<Rightarrow> uptr \<Rightarrow> uptr \<Rightarrow> bool \<Rightarrow> uptr option option" where
  "FindBadAddress E S b e poisoned =
     (if \<not> b \<le> e then None
      else
        let scan = find_state E S poisoned b (unat (e - b))
        in Some (if e - b > kMaxRangeToCheck * 2
           then case find_state E S poisoned b (unat kMaxRangeToCheck) of
                  Some bad \<Rightarrow> Some bad
                | None \<Rightarrow>
                    (case find_state E S poisoned (e - kMaxRangeToCheck) (unat kMaxRangeToCheck) of
                       Some bad \<Rightarrow> Some bad | None \<Rightarrow> scan)
           else scan))"

definition sanitizer_contiguous_container_find_bad_address ::
  "asan_env \<Rightarrow> shadow \<Rightarrow> uptr \<Rightarrow> uptr \<Rightarrow> uptr \<Rightarrow> uptr option option" where
  "sanitizer_contiguous_container_find_bad_address E S b m e =
     (if \<not> detect_container_overflow E then Some None
      else if \<not> b \<le> m \<or> \<not> m \<le> e then None
      else
        let annotations_end =
              (if \<not> AddrIsAlignedByGranularity e \<and> \<not> AddressIsPoisoned E S e
               then RoundDownTo e granularity else e);
            b = min b annotations_end; m = min m annotations_end
        in do {
          bad \<leftarrow> FindBadAddress E S b m False;
          if bad \<noteq> None then Some bad
          else do {
            bad \<leftarrow> FindBadAddress E S m annotations_end True;
            if bad \<noteq> None then Some bad else FindBadAddress E S annotations_end e False
          }
        })"

definition sanitizer_verify_contiguous_container ::
  "asan_env \<Rightarrow> shadow \<Rightarrow> uptr \<Rightarrow> uptr \<Rightarrow> uptr \<Rightarrow> bool option" where
  "sanitizer_verify_contiguous_container E S b m e =
     map_option (\<lambda>bad. bad = None) (sanitizer_contiguous_container_find_bad_address E S b m e)"

definition sanitizer_double_ended_contiguous_container_find_bad_address ::
  "asan_env \<Rightarrow> shadow \<Rightarrow> uptr \<Rightarrow> uptr \<Rightarrow> uptr \<Rightarrow> uptr \<Rightarrow> uptr option option" where
  "sanitizer_double_ended_contiguous_container_find_bad_address E S storage_beg b e storage_end =
     (if \<not> detect_container_overflow E then Some None
      else
        let b = (if b \<noteq> e then max storage_beg (RoundDownTo b granularity) else b);
            annotations_end =
              (if \<not> AddrIsAlignedByGranularity storage_end \<and> \<not> AddressIsPoisoned E S storage_end
               then RoundDownTo storage_end granularity else storage_end);
            storage_beg = min storage_beg annotations_end;
            b = min b annotations_end; e = min e annotations_end
        in do {
          bad \<leftarrow> FindBadAddress E S storage_beg b True;
          if bad \<noteq> None then Some bad
          else do {
            bad \<leftarrow> FindBadAddress E S b e False;
            if bad \<noteq> None then Some bad
            else do {
              bad \<leftarrow> FindBadAddress E S e annotations_end True;
              if bad \<noteq> None then Some bad else FindBadAddress E S annotations_end storage_end False
            }
          }
        })"

definition sanitizer_verify_double_ended_contiguous_container ::
  "asan_env \<Rightarrow> shadow \<Rightarrow> uptr \<Rightarrow> uptr \<Rightarrow> uptr \<Rightarrow> uptr \<Rightarrow> bool option" where
  "sanitizer_verify_double_ended_contiguous_container E S storage_beg b e storage_end =
     map_option (\<lambda>bad. bad = None)
       (sanitizer_double_ended_contiguous_container_find_bad_address E S storage_beg b e storage_end)"

end
