(* ===== verification/Asan_Poison_Props.thy ===== *)
theory Asan_Poison_Props
  imports Asan_Container
begin

unbundle bit_operations_syntax

text \<open>
  What poisoning means byte by byte: the exact effect of the (un)poisoning functions on
  \<open>AddressIsPoisoned\<close>, the correctness of the region check, and that a container
  annotation establishes what the verification function checks.
\<close>

section \<open>Granules\<close>

text \<open>
  A shadow address is an index plus the shadow offset; the offset leaves room for the
  whole shadow (\<open>wide\<close>), as it does in every layout of \<open>asan_mapping.h\<close>.
\<close>

definition wide :: "asan_env \<Rightarrow> bool" where
  "wide E \<longleftrightarrow> unat (ASAN_SHADOW_OFFSET (Layout E)) < 2 ^ 62"

definition cell :: "asan_env \<Rightarrow> nat \<Rightarrow> uptr" where
  "cell E k = word_of_nat k + ASAN_SHADOW_OFFSET (Layout E)"

abbreviation gran :: "uptr \<Rightarrow> nat" where "gran a \<equiv> unat a div 8"
abbreviation byte :: "uptr \<Rightarrow> nat" where "byte a \<equiv> unat a mod 8"

lemma unat_bound: "unat (a :: uptr) < 2 ^ 64"
  using unsigned_less [of a] by simp

lemma gran_bound: "gran a < 2 ^ 61"
  using unat_bound [of a] by simp

lemma unat_nat64: "k < 2 ^ 64 \<Longrightarrow> unat (word_of_nat k :: uptr) = k"
  by (simp add: unsigned_of_nat take_bit_nat_eq_self)

lemma mem_cell: "Asan_MemToShadow E a = cell E (gran a)"
proof -
  have "unat (drop_bit 3 a) = gran a" by (simp only: unat_drop_bit_eq) (simp add: drop_bit_eq_div)
  moreover have "unat (word_of_nat (gran a) :: uptr) = gran a"
    using gran_bound [of a] by (intro unat_nat64) simp
  ultimately have "drop_bit 3 a = (word_of_nat (gran a) :: uptr)" by (intro uptr_eqI) simp
  then show ?thesis by (simp add: Asan_MemToShadow_def MEM_TO_SHADOW_def mapping_simps cell_def)
qed

lemma cell_inject: "j < 2 ^ 61 \<Longrightarrow> k < 2 ^ 61 \<Longrightarrow> cell E j = cell E k \<longleftrightarrow> j = k"
proof
  assume j: "j < 2 ^ 61" and k: "k < 2 ^ 61"
  have u: "unat (word_of_nat j :: uptr) = j" "unat (word_of_nat k :: uptr) = k"
    using j k by (simp_all add: unat_nat64)
  assume "cell E j = cell E k"
  then have "(word_of_nat j :: uptr) = word_of_nat k" by (simp only: cell_def add_right_cancel)
  with u show "j = k" by metis
qed simp

lemma unat_cell: "wide E \<Longrightarrow> i < 2 ^ 61 \<Longrightarrow> unat (cell E i) = i + unat (ASAN_SHADOW_OFFSET (Layout E))"
  using unat_nat64 [of i] by (simp add: cell_def wide_def unat_word_ariths)

lemma shadow_cell_less: "wide E \<Longrightarrow> j < 2 ^ 61 \<Longrightarrow> k < 2 ^ 61 \<Longrightarrow> cell E j < cell E k \<longleftrightarrow> j < k"
  by (simp add: word_less_nat_alt unat_cell)

lemma cell_Suc: "cell E k + 1 = cell E (Suc k)"
  by (simp add: cell_def add.commute)

lemma cell_diff: "j \<le> k \<Longrightarrow> cell E k - cell E j = word_of_nat (k - j)"
  by (simp add: cell_def of_nat_diff)

lemma index_less:
  assumes "j < 2 ^ 61" "k < 2 ^ 61" "n < 2 ^ 62"
  shows "(word_of_nat j - word_of_nat k :: uptr) < word_of_nat n \<longleftrightarrow> k \<le> j \<and> j < k + n"
proof (cases "k \<le> j")
  case True
  then have "(word_of_nat j - word_of_nat k :: uptr) = word_of_nat (j - k)" by (simp add: of_nat_diff)
  then show ?thesis using True assms unat_nat64 [of "j - k"] unat_nat64 [of n]
    by (auto simp: word_less_nat_alt)
next
  case False
  have "unat (word_of_nat j - word_of_nat k :: uptr) = 2 ^ 64 + j - k"
    using False assms unat_nat64 [of j] unat_nat64 [of k]
    by (simp add: unat_sub_if')
  then show ?thesis using False assms unat_nat64 [of n] by (simp add: word_less_nat_alt)
qed

lemma memset_cell:
  assumes "j < 2 ^ 61" "k < 2 ^ 61" "n < 2 ^ 62"
  shows "REAL_memset S (cell E k) v (word_of_nat n) (cell E j) =
    (if k \<le> j \<and> j < k + n then v else S (cell E j))"
  using index_less [OF assms] by (simp add: REAL_memset_def cell_def)

section \<open>Shadow values\<close>

text \<open>Is the byte at offset \<open>i\<close> of a granule poisoned by the value \<open>v\<close>?\<close>

definition poisons :: "u8 \<Rightarrow> nat \<Rightarrow> bool" where
  "poisons v i \<longleftrightarrow> v \<noteq> 0 \<and> sint v \<le> int i"

lemma and_7: "a AND 7 = take_bit 3 (a :: uptr)"
  by (simp add: take_bit_eq_mask mask_eq_exp_minus_1)

lemma unat_and_7: "unat (a AND 7 :: uptr) = byte a"
  by (simp add: and_7 unat_take_bit_mod)

lemma ucast_byte: "(ucast (a AND 7 :: uptr) :: u8) = word_of_nat (byte a)"
proof -
  have "unat (ucast (a AND 7) :: u8) = byte a"
    by (simp add: unsigned_ucast_eq unat_and_7 take_bit_nat_eq_self less_trans [of _ 8])
  moreover have "unat (word_of_nat (byte a) :: u8) = byte a"
    by (simp add: unsigned_of_nat take_bit_nat_eq_self less_trans [of _ 8])
  ultimately show ?thesis by (intro uptr_eqI) simp
qed

lemma uint_small: "i < 128 \<Longrightarrow> uint (word_of_nat i :: u8) = int i"
  by (simp add: unsigned_of_nat take_bit_nat_eq_self)

lemma sint_small: "i < 128 \<Longrightarrow> sint (word_of_nat i :: u8) = int i"
  by (simp add: sint_uint uint_small signed_take_bit_eq_if_positive bit_take_bit_iff
      signed_take_bit_int_eq_self)

lemma AddressIsPoisoned_iff: "AddressIsPoisoned E S a \<longleftrightarrow> poisons (S (cell E (gran a))) (byte a)"
proof -
  have "uint (ucast (a AND 7) :: u8) = int (byte a)"
    unfolding ucast_byte by (rule uint_small) simp
  moreover have "MEM_TO_SHADOW (ASAN_SHADOW_OFFSET (Layout E)) a = cell E (gran a)"
    using mem_cell by (simp add: Asan_MemToShadow_def)
  ultimately show ?thesis
    by (simp add: AddressIsPoisoned_def poisons_def mapping_simps Let_def)
qed

lemma endpoint_simps:
  "chunk (new_ShadowSegmentEndpoint E S a) = cell E (gran a)"
  "offset (new_ShadowSegmentEndpoint E S a) = word_of_nat (byte a)"
  "endpoint_value (new_ShadowSegmentEndpoint E S a) = S (cell E (gran a))"
  by (simp_all add: new_ShadowSegmentEndpoint_def mem_cell mapping_simps ucast_byte)

lemma sint_byte [simp]: "sint (word_of_nat (n mod 8) :: u8) = int (n mod 8)"
  by (rule sint_small) (simp add: less_trans [of _ 8])

lemma byte_zero [simp]: "(word_of_nat (n mod 8) :: u8) = 0 \<longleftrightarrow> n mod 8 = 0"
proof
  assume "(word_of_nat (n mod 8) :: u8) = 0"
  then have "int (n mod 8) = sint (0 :: u8)" using sint_byte [of n] by simp
  then show "n mod 8 = 0" by simp
qed simp

lemma poisons_byte: "poisons (word_of_nat (n mod 8)) i \<longleftrightarrow> n mod 8 \<noteq> 0 \<and> n mod 8 \<le> i"
  by (simp add: poisons_def)

lemma poisons_Min: "v \<noteq> 0 \<Longrightarrow> w \<noteq> 0 \<Longrightarrow> poisons (Min_s8 v w) i \<longleftrightarrow> poisons v i \<or> poisons w i"
  by (auto simp: poisons_def Min_s8_def)

lemma poisons_Max:
  assumes "v \<noteq> 0" "sint w > 0"
  shows "poisons (Max_s8 v w) i \<longleftrightarrow> poisons v i \<and> sint w \<le> int i"
proof -
  have "w \<noteq> 0" using assms(2) by auto
  then show ?thesis using assms by (auto simp: poisons_def Max_s8_def)
qed

lemma poisons_magic [simp]:
  "poisons kAsanUserPoisonedMemoryMagic i" "poisons kAsanContiguousContainerOOBMagic i"
  "poisons kAsanStackUseAfterScopeMagic i" "poisons kAsanIntraObjectRedzone i"
  by (simp_all add: poisons_def magic_defs)

lemma poisons_0 [simp]: "\<not> poisons 0 i"
  by (simp add: poisons_def)

section \<open>The exact effect of user poisoning\<close>

lemma unat_add_small: "unat (a :: uptr) + unat b < 2 ^ 64 \<Longrightarrow> unat (a + b) = unat a + unat b"
  by (simp add: unat_word_ariths)

text \<open>Everything in terms of granule numbers and byte offsets.\<close>

lemma digits_le: "r < 8 \<Longrightarrow> r' < 8 \<Longrightarrow> (8 * q + r \<le> 8 * q' + r' \<longleftrightarrow> q < q' \<or> q = q' \<and> r \<le> r')"
  for q q' r r' :: nat
  by (cases q q' rule: linorder_cases) auto

lemma le_digits: "b \<le> x \<longleftrightarrow> b div 8 < x div 8 \<or> b div 8 = x div 8 \<and> b mod 8 \<le> x mod 8"
  for b x :: nat
  using digits_le [of "b mod 8" "x mod 8" "b div 8" "x div 8"] by simp

lemma less_digits: "x < e \<longleftrightarrow> x div 8 < e div 8 \<or> x div 8 = e div 8 \<and> x mod 8 < e mod 8"
  for x e :: nat
  using le_digits [of e x] by (auto simp: not_le [symmetric])

lemma less_down: "x < e - e mod 8 \<longleftrightarrow> x div 8 < e div 8"
  and down_le: "e - e mod 8 \<le> x \<longleftrightarrow> e div 8 \<le> x div 8" for x e :: nat
proof -
  have e: "e - e mod 8 = 8 * (e div 8)" by (simp add: minus_mod_eq_mult_div)
  show "x < e - e mod 8 \<longleftrightarrow> x div 8 < e div 8" unfolding e
    using less_mult_imp_div_less [of x "e div 8" 8] div_times_less_eq_dividend [of x 8]
    by (auto simp: mult.commute div_less_iff_less_mult)
  then show "e - e mod 8 \<le> x \<longleftrightarrow> e div 8 \<le> x div 8" by (simp add: not_less [symmetric])
qed

text \<open>The four ways in which a shadow byte changes.\<close>

lemma poisons_within:
  assumes "rb < re" "re < 8"
  shows "poisons (if sint v > 0 \<and> sint v \<le> int re
      then (if rb > 0 then Min_s8 v (word_of_nat rb) else kAsanUserPoisonedMemoryMagic) else v) i \<longleftrightarrow>
    poisons v i \<or> rb \<le> i \<and> i < re \<and> poisons v re"
proof -
  have rb: "sint (word_of_nat rb :: u8) = int rb" using assms by (intro sint_small) simp
  then have "rb > 0 \<Longrightarrow> (word_of_nat rb :: u8) \<noteq> 0" by auto
  then show ?thesis using assms rb
    by (cases "sint v > 0 \<and> sint v \<le> int re"; cases "rb = 0") (auto simp: Min_s8_def poisons_def magic_defs)
qed

lemma poisons_first:
  assumes "0 < rb" "rb < 8"
  shows "poisons (if v = 0 then word_of_nat rb else Min_s8 v (word_of_nat rb)) i \<longleftrightarrow>
    poisons v i \<or> rb \<le> i"
proof -
  have rb: "sint (word_of_nat rb :: u8) = int rb" using assms by (intro sint_small) simp
  then have "(word_of_nat rb :: u8) \<noteq> 0" using assms by auto
  then show ?thesis using assms rb by (auto simp: Min_s8_def poisons_def)
qed

lemma poisons_last:
  "poisons (if sint v > 0 \<and> sint v \<le> int re then kAsanUserPoisonedMemoryMagic else v) i \<longleftrightarrow>
    poisons v i \<or> i < re \<and> poisons v re"
  by (cases "sint v > 0 \<and> sint v \<le> int re") (auto simp: poisons_def magic_defs)

lemma unpoisons:
  assumes "0 < re" "re < 8"
  shows "poisons (if v \<noteq> 0 then Max_s8 v (word_of_nat re) else v) i \<longleftrightarrow> poisons v i \<and> \<not> i < re"
proof -
  have re: "sint (word_of_nat re :: u8) = int re" using assms by (intro sint_small) simp
  then show ?thesis using assms by (auto simp: poisons_Max not_less)
qed

lemma cell_eq_iff: "cell E (gran x) = cell E (gran y) \<longleftrightarrow> gran x = gran y"
  by (rule cell_inject [OF gran_bound gran_bound])

lemma memset_gran:
  assumes "k \<le> gran y"
  shows "REAL_memset S (cell E k) v (cell E (gran y) - cell E k) (cell E (gran x)) =
    (if k \<le> gran x \<and> gran x < gran y then v else S (cell E (gran x)))"
proof -
  have "k < 2 ^ 61" "gran y - k < 2 ^ 62" using gran_bound [of y] assms by simp_all
  from memset_cell [OF gran_bound this, of S E v x] show ?thesis using assms
    by (simp add: cell_diff)
qed

text \<open>What poisoning the region from \<open>b\<close> up to \<open>e\<close> does to the byte \<open>x\<close>.\<close>

lemma poison_same:
  assumes "allow_user_poisoning E" "sz \<noteq> 0" "unat b + unat sz < 2 ^ 64" "gran b = gran (b + sz)"
  shows "\<exists>S'. asan_poison_memory_region E b sz S = Some S' \<and>
    (\<forall>x. AddressIsPoisoned E S' x \<longleftrightarrow>
       AddressIsPoisoned E S x \<or> unat b \<le> unat x \<and> unat x < unat (b + sz) \<and>
         (unat x < unat (b + sz) - byte (b + sz) \<or> AddressIsPoisoned E S (b + sz)))"
proof -
  define e where "e = b + sz"
  have "unat b < unat e" using assms(2,3) unat_add_small [of b sz] by (simp add: e_def unat_gt_0)
  then have lt: "byte b < byte e" using assms(4) less_digits [of "unat b" "unat e"] by (simp add: e_def)
  have g: "gran b = gran e" using assms(4) by (simp add: e_def)
  define v where "v = S (cell E (gran e))"
  define v' where "v' = (if sint v > 0 \<and> sint v \<le> int (byte e)
       then (if byte b > 0 then Min_s8 v (word_of_nat (byte b)) else kAsanUserPoisonedMemoryMagic) else v)"
  have v': "poisons v' i \<longleftrightarrow> poisons v i \<or> byte b \<le> i \<and> i < byte e \<and> poisons v (byte e)" for i
    unfolding v'_def by (rule poisons_within [OF lt]) simp
  have same: "S(cell E (gran e) := v) = S" by (simp add: v_def)
  have "asan_poison_memory_region E b sz S = Some (S(cell E (gran e) := v'))"
    using lt g assms(1,2) same
    by (simp add: asan_poison_memory_region_def Let_def endpoint_simps e_def [symmetric]
        v_def [symmetric] v'_def)
  moreover have "AddressIsPoisoned E (S(cell E (gran e) := v')) x \<longleftrightarrow> AddressIsPoisoned E S x \<or>
      unat b \<le> unat x \<and> unat x < unat e \<and> (unat x < unat e - byte e \<or> AddressIsPoisoned E S e)" for x
  proof -
    have shadow: "(S(cell E (gran e) := v')) (cell E (gran x)) =
        (if gran x = gran e then v' else S (cell E (gran x)))"
      by (simp add: cell_eq_iff)
    have le: "unat b \<le> unat x \<longleftrightarrow> gran e < gran x \<or> gran e = gran x \<and> byte b \<le> byte x"
      using le_digits [of "unat b" "unat x"] unfolding g .
    note lt = less_digits [of "unat x" "unat e"]
    show ?thesis
    proof (cases "gran x = gran e")
      case True
      then have "\<not> unat x < unat e - byte e" unfolding less_down by simp
      with True v' [of "byte x"] show ?thesis
        unfolding AddressIsPoisoned_iff shadow le lt by (simp add: v_def)
    next
      case False
      then have "\<not> (unat b \<le> unat x \<and> unat x < unat e)" unfolding le lt by (metis less_asym)
      with False show ?thesis unfolding AddressIsPoisoned_iff shadow
        by (simp only: False if_False) blast
    qed
  qed
  ultimately show ?thesis unfolding e_def by blast
qed

lemma across_digits:
  fixes qx qb qe rx rb re :: nat
  assumes "qb < qe" "k = (if rb > 0 then Suc qb else qb)"
    and "poisons w' rx \<longleftrightarrow> poisons w rx \<or> rx < re \<and> poisons w re"
    and "rb > 0 \<Longrightarrow> poisons v' rx \<longleftrightarrow> poisons v rx \<or> rb \<le> rx"
    and "v = T qb" "w = T qe"
  shows "poisons (if qx = qe then w' else if k \<le> qx \<and> qx < qe then kAsanUserPoisonedMemoryMagic
           else if rb > 0 \<and> qx = qb then v' else T qx) rx \<longleftrightarrow>
    poisons (T qx) rx \<or> (qb < qx \<or> qb = qx \<and> rb \<le> rx) \<and> (qx < qe \<or> qx = qe \<and> rx < re) \<and>
      (qx < qe \<or> poisons (T qe) re)"
proof -
  consider "qx < qb" | "qx = qb" | "qb < qx" "qx < qe" | "qx = qe" | "qe < qx" by linarith
  then show ?thesis
  proof cases
    case 2
    then show ?thesis using assms by (cases "rb = 0") auto
  qed (use assms in \<open>auto split: if_splits\<close>)
qed

lemma poison_across:
  assumes "wide E" "allow_user_poisoning E" "sz \<noteq> 0" "gran b < gran (b + sz)"
  shows "\<exists>S'. asan_poison_memory_region E b sz S = Some S' \<and>
    (\<forall>x. AddressIsPoisoned E S' x \<longleftrightarrow>
       AddressIsPoisoned E S x \<or> unat b \<le> unat x \<and> unat x < unat (b + sz) \<and>
         (unat x < unat (b + sz) - byte (b + sz) \<or> AddressIsPoisoned E S (b + sz)))"
proof -
  define e where "e = b + sz"
  have lt: "gran b < gran e" using assms(4) by (simp add: e_def)
  have ne: "cell E (gran b) \<noteq> cell E (gran e)" "cell E (gran b) < cell E (gran e)"
    using lt shadow_cell_less [OF assms(1) gran_bound gran_bound, of b e] by (auto simp: cell_eq_iff)
  define v w where "v = S (cell E (gran b))" and "w = S (cell E (gran e))"
  define k where "k = (if byte b > 0 then Suc (gran b) else gran b)"
  define v' where "v' = (if v = 0 then word_of_nat (byte b) else Min_s8 v (word_of_nat (byte b)))"
  define A where "A = (if byte b > 0 then S(cell E (gran b) := v') else S)"
  define B where "B = REAL_memset A (cell E k) kAsanUserPoisonedMemoryMagic (cell E (gran e) - cell E k)"
  define w' where "w' = (if sint w > 0 \<and> sint w \<le> int (byte e) then kAsanUserPoisonedMemoryMagic else w)"
  have k: "k \<le> gran e" "gran b \<le> k" using lt by (simp_all add: k_def)
  have B: "B (cell E (gran x)) =
      (if k \<le> gran x \<and> gran x < gran e then kAsanUserPoisonedMemoryMagic else A (cell E (gran x)))" for x
    unfolding B_def by (rule memset_gran [OF k(1)])
  have A: "A (cell E (gran x)) = (if byte b > 0 \<and> gran x = gran b then v' else S (cell E (gran x)))" for x
    by (simp add: A_def cell_eq_iff)
  have same: "B(cell E (gran e) := w) = B"
    using B [of e] A [of e] lt by (intro ext) (simp add: w_def)
  let ?fill = "\<lambda>S c. REAL_memset S c kAsanUserPoisonedMemoryMagic (cell E (gran e) - c)"
  have forms: "byte b = 0 \<Longrightarrow> ?fill S (cell E (gran b)) = B"
    "byte b > 0 \<Longrightarrow> v = 0 \<Longrightarrow> ?fill (S(cell E (gran b) := word_of_nat (byte b))) (cell E (gran b) + 1) = B"
    "byte b > 0 \<Longrightarrow> v \<noteq> 0 \<Longrightarrow>
       ?fill (S(cell E (gran b) := Min_s8 v (word_of_nat (byte b)))) (cell E (gran b) + 1) = B"
    by (simp_all add: B_def A_def k_def v'_def cell_Suc)
  have "asan_poison_memory_region E b sz S = Some (B(cell E (gran e) := w'))"
    using ne assms(2,3) same
    by (cases "byte b = 0"; cases "v = 0")
       (simp_all add: asan_poison_memory_region_def Let_def endpoint_simps e_def [symmetric]
          v_def [symmetric] w_def [symmetric] forms w'_def)
  moreover have "AddressIsPoisoned E (B(cell E (gran e) := w')) x \<longleftrightarrow> AddressIsPoisoned E S x \<or>
      unat b \<le> unat x \<and> unat x < unat e \<and> (unat x < unat e - byte e \<or> AddressIsPoisoned E S e)" for x
  proof -
    have shadow: "(B(cell E (gran e) := w')) (cell E (gran x)) =
        (if gran x = gran e then w'
         else if k \<le> gran x \<and> gran x < gran e then kAsanUserPoisonedMemoryMagic
         else if byte b > 0 \<and> gran x = gran b then v' else S (cell E (gran x)))"
      by (simp add: cell_eq_iff A B)
    have w': "poisons w' (byte x) \<longleftrightarrow> poisons w (byte x) \<or> byte x < byte e \<and> poisons w (byte e)"
      unfolding w'_def by (rule poisons_last)
    have v': "byte b > 0 \<Longrightarrow> poisons v' (byte x) \<longleftrightarrow> poisons v (byte x) \<or> byte b \<le> byte x"
      unfolding v'_def by (rule poisons_first) simp_all
    define qb qe qx rb re rx where "qb = gran b" "qe = gran e" "qx = gran x"
      and "rb = byte b" "re = byte e" "rx = byte x"
    note names = this [symmetric]
    note digits = le_digits [of "unat b"] less_digits [of "unat x" "unat e"] less_down
    have "qb < qe" "k = (if rb > 0 then Suc qb else qb)" "v = S (cell E qb)" "w = S (cell E qe)"
      using lt unfolding k_def v_def w_def names by simp_all
    with across_digits [of qb qe k rb w' rx w re v' v "\<lambda>q. S (cell E q)" qx]
      w' [unfolded names] v' [unfolded names]
    show ?thesis unfolding AddressIsPoisoned_iff shadow digits unfolding names by blast
  qed
  ultimately show ?thesis unfolding e_def by blast
qed

lemma gran_cases:
  assumes "unat b + unat sz < 2 ^ 64" "sz \<noteq> 0"
  obtains "gran b = gran (b + sz)" "byte b < byte (b + sz)" | "gran b < gran (b + sz)"
proof -
  have "unat b < unat (b + sz)" using assms unat_add_small [of b sz] by (simp add: unat_gt_0)
  then show ?thesis using that less_digits [of "unat b" "unat (b + sz)"] by metis
qed

lemma poison_region_byte:
  assumes "wide E" "allow_user_poisoning E" "sz \<noteq> 0" "unat b + unat sz < 2 ^ 64"
  shows "\<exists>S'. asan_poison_memory_region E b sz S = Some S' \<and>
    (\<forall>x. AddressIsPoisoned E S' x \<longleftrightarrow>
       AddressIsPoisoned E S x \<or> unat b \<le> unat x \<and> unat x < unat (b + sz) \<and>
         (unat x < unat (b + sz) - byte (b + sz) \<or> AddressIsPoisoned E S (b + sz)))"
  using assms(4,3)
proof (cases rule: gran_cases)
  case 1
  then show ?thesis by (intro poison_same assms)
next
  case 2
  then show ?thesis by (intro poison_across assms)
qed

lemma unpoison_digits:
  fixes qx qb qe rx re :: nat
  assumes "qb \<le> qe" "qx = qe \<Longrightarrow> v = w" "poisons w' rx \<longleftrightarrow> poisons w rx \<and> \<not> rx < re"
  shows "poisons (if qx = qe then w' else if qb \<le> qx \<and> qx < qe then 0 else v) rx \<longleftrightarrow>
    poisons v rx \<and> \<not> (qb \<le> qx \<and> (qx < qe \<or> qx = qe \<and> rx < re))"
  using assms by auto

lemma unpoison_region_byte:
  assumes "wide E" "allow_user_poisoning E" "sz \<noteq> 0" "unat b + unat sz < 2 ^ 64"
  shows "\<exists>S'. asan_unpoison_memory_region E b sz S = Some S' \<and>
    (\<forall>x. AddressIsPoisoned E S' x \<longleftrightarrow>
       AddressIsPoisoned E S x \<and> \<not> (unat b - byte b \<le> unat x \<and> unat x < unat (b + sz)))"
proof -
  define e where "e = b + sz"
  have le: "gran b \<le> gran e" using assms(4,3)
    by (cases rule: gran_cases) (simp_all only: e_def order_refl less_imp_le)
  define w where "w = S (cell E (gran e))"
  define w' where "w' = (if byte e > 0 \<and> w \<noteq> 0 then Max_s8 w (word_of_nat (byte e)) else w)"
  define B where "B = REAL_memset S (cell E (gran b)) 0 (cell E (gran e) - cell E (gran b))"
  have B: "B (cell E (gran x)) = (if gran b \<le> gran x \<and> gran x < gran e then 0 else S (cell E (gran x)))" for x
    unfolding B_def by (rule memset_gran [OF le])
  have same: "B(cell E (gran e) := w) = B" "S(cell E (gran e) := w) = S"
    using B [of e] by (auto intro!: ext simp: w_def)
  have run: "asan_unpoison_memory_region E b sz S = Some (B(cell E (gran e) := w'))"
    using assms(4,3)
  proof (cases rule: gran_cases)
    case 1
    then have "B = S" by (simp add: B_def e_def REAL_memset_def)
    with 1 assms(2,3) same(2) show ?thesis
      by (cases "w = 0") (simp_all add: asan_unpoison_memory_region_def Let_def endpoint_simps e_def [symmetric]
        w_def [symmetric] w'_def)
  next
    case 2
    then have "cell E (gran b) \<noteq> cell E (gran e)" "cell E (gran b) < cell E (gran e)"
      using shadow_cell_less [OF assms(1) gran_bound gran_bound, of b e] by (auto simp: cell_eq_iff e_def)
    with assms(2,3) same(1) show ?thesis
      by (cases "w = 0") (simp_all add: asan_unpoison_memory_region_def Let_def endpoint_simps e_def [symmetric]
        w_def [symmetric] w'_def B_def [symmetric])
  qed
  have w': "poisons w' i \<longleftrightarrow> poisons w i \<and> \<not> i < byte e" for i
    using unpoisons [of "byte e" w i] by (cases "byte e = 0"; cases "w = 0") (simp_all add: w'_def)
  have "AddressIsPoisoned E (B(cell E (gran e) := w')) x \<longleftrightarrow>
      AddressIsPoisoned E S x \<and> \<not> (unat b - byte b \<le> unat x \<and> unat x < unat e)" for x
  proof -
    have "(B(cell E (gran e) := w')) (cell E (gran x)) = (if gran x = gran e then w'
        else if gran b \<le> gran x \<and> gran x < gran e then 0 else S (cell E (gran x)))"
      by (simp add: cell_eq_iff B)
    note shadow = this
    have "gran x = gran e \<Longrightarrow> S (cell E (gran x)) = w" by (simp add: w_def)
    then show ?thesis
      unfolding AddressIsPoisoned_iff shadow down_le less_digits [of "unat x" "unat e"]
      by (rule unpoison_digits [OF le _ w'])
  qed
  with run show ?thesis unfolding e_def by blast
qed

text \<open>A region that wraps around fails the check on the order of its ends.\<close>

lemma wrapped_ends:
  assumes "2 ^ 64 \<le> unat b + unat sz"
  shows "gran (b + sz) < gran b \<or> gran (b + sz) = gran b \<and> byte (b + sz) < byte b"
proof -
  have "unat b + unat sz < 2 ^ 64 + 2 ^ 64" "unat sz < 2 ^ 64"
    using unat_bound [of b] unat_bound [of sz] by linarith+
  then have "unat b + unat sz - 2 ^ 64 < unat b" "unat b + unat sz - 2 ^ 64 < 2 ^ 64"
    using assms by linarith+
  then have "unat (b + sz) < unat b" using assms by (simp add: unat_word_ariths mod_if)
  then show ?thesis by (simp only: less_digits [of "unat (b + sz)"])
qed

lemma wrapped_region_fails:
  assumes "wide E" "allow_user_poisoning E" "sz \<noteq> 0" "2 ^ 64 \<le> unat b + unat sz"
  shows "asan_poison_memory_region E b sz S = None" "asan_unpoison_memory_region E b sz S = None"
proof -
  have "\<not> cell E (gran b) < cell E (gran (b + sz))"
    using wrapped_ends [OF assms(4)] shadow_cell_less [OF assms(1) gran_bound gran_bound, of b "b + sz"] by auto
  moreover have "cell E (gran b) = cell E (gran (b + sz)) \<Longrightarrow> \<not> byte b < byte (b + sz)"
    using wrapped_ends [OF assms(4)] unfolding cell_eq_iff by auto
  ultimately show "asan_poison_memory_region E b sz S = None" "asan_unpoison_memory_region E b sz S = None"
    using assms(2,3)
    by (simp_all add: asan_poison_memory_region_def asan_unpoison_memory_region_def Let_def endpoint_simps)
qed

section \<open>Checking a region\<close>

lemma unat_RoundDownTo: "unat (RoundDownTo x (2 ^ k)) = unat x div 2 ^ k * 2 ^ k"
  unfolding RoundDownTo_def mask_eq_exp_minus_1 [symmetric] by (rule unat_and_not_mask)

lemma unat_exp: "k < 64 \<Longrightarrow> unat (2 ^ k :: uptr) = 2 ^ k"
proof -
  assume k: "k < 64"
  then have "(2 :: nat) ^ k < 2 ^ 64" by (rule power_strict_increasing) simp
  moreover have "unat (push_bit k (1 :: uptr)) = take_bit 64 (2 ^ k)"
    by (simp only: unsigned_push_bit_eq) (simp add: push_bit_eq_mult)
  ultimately show ?thesis using k by (simp add: take_bit_nat_eq_self)
qed

lemma unat_RoundUpTo:
  assumes "unat x + 2 ^ k < 2 ^ 64"
  shows "unat (RoundUpTo x (2 ^ k)) = (unat x + 2 ^ k - 1) div 2 ^ k * 2 ^ k"
proof -
  have "(2 :: nat) ^ k < 2 ^ 64" using assms by simp
  then have k: "unat (2 ^ k :: uptr) = 2 ^ k" by (intro unat_exp) (simp only: power_strict_increasing_iff)
  have "unat (x + 2 ^ k) = unat x + 2 ^ k" using assms k by (simp add: unat_word_ariths)
  moreover have "(1 :: uptr) \<le> x + 2 ^ k" using calculation by (simp add: word_le_nat_alt Suc_le_eq)
  ultimately have "unat (x + 2 ^ k - 1) = unat x + 2 ^ k - 1" by (simp add: unat_sub)
  then show ?thesis
    unfolding RoundUpTo_def mask_eq_exp_minus_1 [symmetric] by (simp only: unat_and_not_mask)
qed

lemma bytes_zero_iff:
  "bytes_zero S a b \<longleftrightarrow> (\<forall>t. unat a \<le> t \<and> t < unat b \<longrightarrow> S (word_of_nat t) = 0)"
proof (cases "a < b")
  case True
  then have "unat (b - a) = unat b - unat a" by (simp add: unat_sub word_less_nat_alt word_le_nat_alt)
  moreover have "a + word_of_nat (t - unat a) = word_of_nat t" if "unat a \<le> t" for t
    using that by (simp add: of_nat_diff)
  ultimately have z: "bytes_zero S a b \<longleftrightarrow> (\<forall>i < unat b - unat a. S (a + word_of_nat i) = 0)"
    and w: "\<And>t. unat a \<le> t \<Longrightarrow> a + word_of_nat (t - unat a) = word_of_nat t"
    using True by (auto simp: bytes_zero_def list_all_iff)
  show ?thesis unfolding z
  proof (intro iffI allI impI)
    fix t assume "\<forall>i < unat b - unat a. S (a + word_of_nat i) = 0" "unat a \<le> t \<and> t < unat b"
    then have "S (a + word_of_nat (t - unat a)) = 0" using diff_less_mono by blast
    then show "S (word_of_nat t) = 0" using w \<open>unat a \<le> t \<and> t < unat b\<close> by simp
  next
    fix i assume "\<forall>t. unat a \<le> t \<and> t < unat b \<longrightarrow> S (word_of_nat t) = 0" "i < unat b - unat a"
    moreover from this have "unat a \<le> unat a + i \<and> unat a + i < unat b" by linarith
    ultimately have "S (word_of_nat (unat a + i)) = 0" by blast
    then show "S (a + word_of_nat i) = 0" by simp
  qed
qed (auto simp: bytes_zero_def word_less_nat_alt)

lemma all_interval:
  fixes a b c :: nat
  assumes "a \<le> b" "b \<le> c"
  shows "(\<forall>t. a \<le> t \<and> t < c \<longrightarrow> P t) \<longleftrightarrow>
    (\<forall>t. a \<le> t \<and> t < b \<longrightarrow> P t) \<and> (\<forall>t. b \<le> t \<and> t < c \<longrightarrow> P t)"
  using assms by (metis le_trans not_le less_le_trans)

lemma mem_is_zero_bytes:
  assumes "unat p + unat sz + 8 < 2 ^ 64" "unat sz \<le> 2 ^ 40"
  shows "mem_is_zero S p sz = Some (\<forall>t. unat p \<le> t \<and> t < unat p + unat sz \<longrightarrow> S (word_of_nat t) = 0)"
proof -
  let ?a = "RoundUpTo p 8" and ?e = "RoundDownTo (p + sz) 8"
  define P N where "P = unat p" and "N = unat sz"
  have e: "unat (p + sz) = P + N" using assms unat_add_small [of p sz] by (simp add: P_def N_def)
  have a: "unat ?a = (P + 7) div 8 * 8" using unat_RoundUpTo [of p 3] assms by (simp add: P_def)
  have d: "unat ?e = (P + N) div 8 * 8" using unat_RoundDownTo [of "p + sz" 3] e by simp
  have "unat (push_bit 40 (1 :: uptr)) = 2 ^ 40" using unat_exp [of 40] by (simp add: push_bit_eq_mult)
  then have sz: "sz \<le> push_bit 40 1" using assms(2) by (simp add: word_le_nat_alt)
  let ?Z = "\<lambda>x y. \<forall>t. x \<le> t \<and> t < y \<longrightarrow> S (word_of_nat t) = 0"
  have up: "P \<le> (P + 7) div 8 * 8" "(P + N) div 8 * 8 \<le> P + N" by simp_all
  have first: "bytes_zero S p (if ?a < p + sz then ?a else p + sz) \<longleftrightarrow> ?Z P (min ((P + 7) div 8 * 8) (P + N))"
    unfolding bytes_zero_iff by (simp add: word_less_nat_alt a e P_def [symmetric] min_def)
  have "mem_is_zero S p sz = Some (?Z P (min ((P + 7) div 8 * 8) (P + N)) \<and>
      ?Z ((P + 7) div 8 * 8) ((P + N) div 8 * 8) \<and>
      (P \<le> (P + N) div 8 * 8 \<longrightarrow> ?Z ((P + N) div 8 * 8) (P + N)))"
    using sz unfolding mem_is_zero_def Let_def first
    by (simp add: bytes_zero_iff a d e word_le_nat_alt P_def)
  also have "\<dots> = Some (?Z P (P + N))"
  proof -
    have split: "P \<le> M div 8 * 8 \<Longrightarrow> (P + 7) div 8 * 8 \<le> M div 8 * 8"
      "\<not> P \<le> M div 8 * 8 \<Longrightarrow> M \<le> (P + 7) div 8 * 8" for M
      using div_le_mono [of "P + 7" "M div 8 * 8 + 7" 8] div_le_mono [of "M div 8 * 8 + 8" "P + 7" 8]
      by (simp_all add: not_le)
    show ?thesis
    proof (cases "P \<le> (P + N) div 8 * 8")
      case True
      with split(1) [OF True] up have m: "min ((P + 7) div 8 * 8) (P + N) = (P + 7) div 8 * 8" by (simp only: min_absorb1)
      show ?thesis unfolding m
        using all_interval [OF up(1) order_trans [OF split(1) [OF True] up(2)]]
          all_interval [OF split(1) [OF True] up(2)] True by simp
    next
      case False
      with split(2) [OF False] have m: "min ((P + 7) div 8 * 8) (P + N) = P + N" by (simp only: min_absorb2)
      have "?Z ((P + 7) div 8 * 8) ((P + N) div 8 * 8)" using False up(1) by auto
      then show ?thesis unfolding m using False by simp
    qed
  qed
  finally show ?thesis by (simp add: P_def N_def)
qed

lemma find_poisoned_None:
  "find_poisoned E S p n = None \<longleftrightarrow> (\<forall>i < n. \<not> AddressIsPoisoned E S (p + word_of_nat i))"
  by (induction n arbitrary: p) (simp_all add: All_less_Suc2 add.assoc)

lemma find_poisoned_Some:
  "find_poisoned E S p n = Some r \<Longrightarrow>
    \<exists>i < n. r = p + word_of_nat i \<and> AddressIsPoisoned E S r \<and>
      (\<forall>j < i. \<not> AddressIsPoisoned E S (p + word_of_nat j))"
proof (induction n arbitrary: p)
  case (Suc n)
  show ?case
  proof (cases "AddressIsPoisoned E S p")
    case False
    with Suc obtain i where "i < n" "r = p + 1 + word_of_nat i" "AddressIsPoisoned E S r"
      "\<forall>j < i. \<not> AddressIsPoisoned E S (p + 1 + word_of_nat j)" by fastforce
    with False have "Suc i < Suc n" "r = p + word_of_nat (Suc i)" "AddressIsPoisoned E S r"
      "\<forall>j < Suc i. \<not> AddressIsPoisoned E S (p + word_of_nat j)"
      by (auto simp: less_Suc_eq_0_disj add.assoc)
    then show ?thesis by blast
  qed (use Suc in auto)
qed simp

text \<open>The values the runtime writes: a partial granule counts at most seven bytes.\<close>

definition valid_shadow :: "asan_env \<Rightarrow> shadow \<Rightarrow> bool" where
  "valid_shadow E S \<longleftrightarrow> (\<forall>a. sint (S (Asan_MemToShadow E a)) < 8)"

lemma poisons_mono: "poisons v i \<Longrightarrow> i \<le> j \<Longrightarrow> poisons v j"
  by (auto simp: poisons_def)

lemma valid_shadow_full: "valid_shadow E S \<Longrightarrow> poisons (S (cell E (gran a))) 7 \<longleftrightarrow> S (cell E (gran a)) \<noteq> 0"
  unfolding valid_shadow_def mem_cell poisons_def by (drule spec [of _ a]) simp

definition fast_clean :: "asan_env \<Rightarrow> shadow \<Rightarrow> uptr \<Rightarrow> uptr \<Rightarrow> bool" where
  "fast_clean E S p e \<longleftrightarrow> \<not> AddressIsPoisoned E S p \<and> \<not> AddressIsPoisoned E S (e - 1) \<and>
     (\<forall>q. (unat p + 7) div 8 \<le> q \<and> q < gran e \<longrightarrow> S (cell E q) = 0)"

lemma cell_range_zero:
  assumes "wide E" "j < k" "k < 2 ^ 61"
  shows "(\<forall>t. unat (cell E j) \<le> t \<and> t < unat (cell E j) + (k - j) \<longrightarrow> S (word_of_nat t) = 0) \<longleftrightarrow>
    (\<forall>q. j \<le> q \<and> q < k \<longrightarrow> S (cell E q) = 0)"
proof -
  have "word_of_nat (unat (cell E j) + i) = cell E (j + i)" for i
    by (simp add: cell_def algebra_simps)
  note shift = this
  show ?thesis
  proof (intro iffI allI impI)
    fix q assume H: "\<forall>t. unat (cell E j) \<le> t \<and> t < unat (cell E j) + (k - j) \<longrightarrow> S (word_of_nat t) = 0"
      and q: "j \<le> q \<and> q < k"
    have "unat (cell E j) \<le> unat (cell E j) + (q - j) \<and> unat (cell E j) + (q - j) < unat (cell E j) + (k - j)"
      using q by linarith
    with H have "S (word_of_nat (unat (cell E j) + (q - j))) = 0" by blast
    with q show "S (cell E q) = 0" unfolding shift by simp
  next
    fix t assume H: "\<forall>q. j \<le> q \<and> q < k \<longrightarrow> S (cell E q) = 0"
      and t: "unat (cell E j) \<le> t \<and> t < unat (cell E j) + (k - j)"
    define i where "i = t - unat (cell E j)"
    have "t = unat (cell E j) + i" "j \<le> j + i \<and> j + i < k" using t by (simp_all add: i_def) linarith
    with H show "S (word_of_nat t) = 0" using shift [of i] by metis
  qed
qed

lemma gran_RoundUpTo: "unat p + 8 < 2 ^ 64 \<Longrightarrow> gran (RoundUpTo p 8) = (unat p + 7) div 8"
  using unat_RoundUpTo [of p 3] by simp

lemma gran_RoundDownTo: "gran (RoundDownTo e 8) = gran e"
  using unat_RoundDownTo [of e 3] by simp

lemma fast_mem_is_zero:
  assumes "wide E" "j < k" "k < 2 ^ 60" "k \<le> j + 2 ^ 40"
  shows "mem_is_zero S (cell E j) (cell E k - cell E j) = Some (\<forall>q. j \<le> q \<and> q < k \<longrightarrow> S (cell E q) = 0)"
proof -
  have n: "unat (word_of_nat (k - j) :: uptr) = k - j" using assms by (intro unat_nat64) simp
  have j: "unat (cell E j) = j + unat (ASAN_SHADOW_OFFSET (Layout E))"
    using assms by (intro unat_cell) simp_all
  have "mem_is_zero S (cell E j) (word_of_nat (k - j)) =
      Some (\<forall>t. unat (cell E j) \<le> t \<and> t < unat (cell E j) + (k - j) \<longrightarrow> S (word_of_nat t) = 0)"
    using mem_is_zero_bytes [of "cell E j" "word_of_nat (k - j)" S] assms unfolding n j wide_def by simp
  also have "\<dots> = Some (\<forall>q. j \<le> q \<and> q < k \<longrightarrow> S (cell E q) = 0)"
    using cell_range_zero [OF assms(1,2), of S] assms(3) by simp
  finally show ?thesis using assms(2) by (simp add: cell_diff)
qed

lemma fast_check:
  assumes "wide E" "unat e < 2 ^ 63" "unat p < unat e" "unat e \<le> unat p + 2 ^ 43"
  shows "(if AddressIsPoisoned E S p \<or> AddressIsPoisoned E S (e - 1) then Some False
      else if Asan_MemToShadow E (RoundDownTo e 8) \<le> Asan_MemToShadow E (RoundUpTo p 8) then Some True
      else mem_is_zero S (Asan_MemToShadow E (RoundUpTo p 8))
             (Asan_MemToShadow E (RoundDownTo e 8) - Asan_MemToShadow E (RoundUpTo p 8))) =
    Some (fast_clean E S p e)"
proof -
  define j k where "j = (unat p + 7) div 8" and "k = gran e"
  have jk: "j < 2 ^ 61" "k < 2 ^ 60" "k \<le> j + 2 ^ 40"
    using assms(2-4) by (simp_all add: j_def k_def)
  have ends: "Asan_MemToShadow E (RoundUpTo p 8) = cell E j" "Asan_MemToShadow E (RoundDownTo e 8) = cell E k"
    using gran_RoundUpTo [of p] assms(2,3) by (simp_all add: mem_cell gran_RoundDownTo j_def k_def)
  have order: "cell E k \<le> cell E j \<longleftrightarrow> k \<le> j"
    using shadow_cell_less [OF assms(1) jk(1), of k] jk(2) by (simp add: not_less [symmetric])
  have "fast_clean E S p e \<longleftrightarrow> \<not> AddressIsPoisoned E S p \<and> \<not> AddressIsPoisoned E S (e - 1) \<and>
      (\<forall>q. j \<le> q \<and> q < k \<longrightarrow> S (cell E q) = 0)"
    by (simp only: fast_clean_def j_def k_def)
  then show ?thesis
    unfolding ends order using fast_mem_is_zero [OF assms(1) _ jk(2,3), of S]
    by (cases "k \<le> j") (auto simp: not_le)
qed

text \<open>If the fast check fails, the scan meets a poisoned byte; if it succeeds there is none.\<close>

lemma poisoned_last:
  assumes "\<not> AddressIsPoisoned E S y" "gran x = gran y" "byte x \<le> byte y"
  shows "\<not> AddressIsPoisoned E S x"
  using assms(1) poisons_mono [OF _ assms(3)] unfolding AddressIsPoisoned_iff assms(2) by blast

lemma fast_clean_sound:
  assumes "fast_clean E S p e" "8 dvd unat p" "unat p \<le> unat x" "unat x < unat e"
  shows "\<not> AddressIsPoisoned E S x"
proof (cases "gran x < gran e")
  case True
  obtain q where "unat p = 8 * q" using assms(2) by (auto elim: dvdE)
  then have "(unat p + 7) div 8 = gran p" by simp
  moreover have "gran p \<le> gran x" using assms(3) by (rule div_le_mono)
  ultimately have "S (cell E (gran x)) = 0" using True assms(1) unfolding fast_clean_def by metis
  then show ?thesis by (simp add: AddressIsPoisoned_iff)
next
  case False
  have "e \<noteq> 0" using assms(4) by auto
  then have "unat (e - 1) = unat e - 1" by (simp add: unat_minus_one)
  then have le: "unat x \<le> unat (e - 1)" "unat (e - 1) \<le> unat e" using assms(4) by simp_all
  have g1: "gran x \<le> gran (e - 1)" by (rule div_le_mono [OF le(1)])
  have "gran (e - 1) \<le> gran e" by (rule div_le_mono [OF le(2)])
  also have "gran e \<le> gran x" using False by (rule leI)
  finally have g: "gran x = gran (e - 1)" using g1 by (intro le_antisym)
  from le(1) have b: "byte x \<le> byte (e - 1)"
    unfolding le_digits [of "unat x" "unat (e - 1)"] g by (simp only: less_irrefl simp_thms)
  have "\<not> AddressIsPoisoned E S (e - 1)" using assms(1) by (simp only: fast_clean_def not_False_eq_True simp_thms)
  then show ?thesis by (rule poisoned_last [OF _ g b])
qed

lemma fast_clean_complete:
  assumes "valid_shadow E S" "unat p < unat e" "unat e < 2 ^ 63" "\<not> fast_clean E S p e"
  shows "\<exists>x. unat p \<le> unat x \<and> unat x < unat e \<and> AddressIsPoisoned E S x"
proof -
  have "e \<noteq> 0" using assms(2) by auto
  then have e: "unat (e - 1) = unat e - 1" by (simp add: unat_minus_one)
  from assms(4) consider "AddressIsPoisoned E S p" | "AddressIsPoisoned E S (e - 1)"
    | q where "(unat p + 7) div 8 \<le> q" "q < gran e" "S (cell E q) \<noteq> 0"
    unfolding fast_clean_def by blast
  then show ?thesis
  proof cases
    case 1
    then show ?thesis using assms(2) by blast
  next
    case 2
    have "unat p \<le> unat e - 1" "unat e - 1 < unat e" using assms(2) by simp_all
    with 2 e show ?thesis by (metis (no_types))
  next
    case 3
    define x where "x = (word_of_nat (8 * q + 7) :: uptr)"
    have "8 * q + 8 \<le> unat e" "unat p \<le> 8 * q" using 3(1,2) by simp_all
    then have q: "8 * q + 7 < unat e" "unat p \<le> 8 * q + 7" by simp_all
    then have x: "unat x = 8 * q + 7" using assms(3) unfolding x_def by (intro unat_nat64) simp
    then have "gran x = q" "byte x = 7" by simp_all
    then have "AddressIsPoisoned E S x"
      using valid_shadow_full [OF assms(1), of x] 3(3) by (simp add: AddressIsPoisoned_iff)
    with q x show ?thesis by metis
  qed
qed

text \<open>Once the ends are known to be application memory, the check never fails.\<close>

lemma region_check_run:
  assumes "sz \<noteq> 0" "AddrIsInMem (Layout E) p" "AddrIsInMem (Layout E) (p + sz)"
    "wide E" "unat p + unat sz < 2 ^ 63" "unat sz \<le> 2 ^ 43"
  shows "asan_region_is_poisoned E S p sz =
    (if fast_clean E S p (p + sz) then Some 0 else find_poisoned E S p (unat sz))"
proof -
  have e: "unat (p + sz) = unat p + unat sz" using assms(5) by (intro unat_add_small) simp
  have "unat sz > 0" using assms(1) by (simp add: unat_gt_0)
  then have ends: "unat (p + sz) < 2 ^ 63" "unat p < unat (p + sz)" "unat (p + sz) \<le> unat p + 2 ^ 43"
    using assms(5,6) e by simp_all
  then have "p < p + sz" by (simp add: word_less_nat_alt)
  then show ?thesis
    using assms(1-3) fast_check [OF assms(4) ends, of S]
    by (simp add: asan_region_is_poisoned_def Let_def mapping_simps)
qed

section \<open>Properties\<close>

text \<open>An XSan process on x86-64 Linux with the default flags.\<close>

definition asan_x64_env :: asan_env where
  "asan_x64_env = \<lparr>Layout = asan_layout_of x86_64, allow_user_poisoning = True,
     poison_array_cookie = True, detect_container_overflow = True, poison_partial = True,
     clear_shadow_mmap_threshold = 0x10000, PageSize = 4096\<rparr>"

lemma wide_linux: "Layout E = asan_layout_of p \<Longrightarrow> wide E"
  by (cases p) (simp_all add: wide_def asan_offset_eq)

lemma x64_env_simps [simp]:
  "wide asan_x64_env" "allow_user_poisoning asan_x64_env" "Layout asan_x64_env = asan_layout_of x86_64"
  by (simp_all add: wide_linux asan_x64_env_def)

lemma poisoned_const:
  "AddressIsPoisoned E (\<lambda>_. 0) x \<longleftrightarrow> False" "AddressIsPoisoned E (\<lambda>_. 0xf7) x \<longleftrightarrow> True"
  by (simp_all add: AddressIsPoisoned_iff poisons_def)

text \<open>C28: User poisoning of the region from \<open>b\<close> up to \<open>e = b + sz\<close> poisons exactly the bytes of
  the region below \<open>e\<close> rounded down to a granule, and those above it as well if \<open>e\<close> itself is
  poisoned; every other byte keeps its state.\<close>
theorem poison_region_exact:
  assumes "wide E" "allow_user_poisoning E" "sz \<noteq> 0" "unat b + unat sz < 2 ^ 64"
  shows "\<exists>S'. asan_poison_memory_region E b sz S = Some S' \<and>
    (\<forall>x. AddressIsPoisoned E S' x \<longleftrightarrow>
       AddressIsPoisoned E S x \<or> unat b \<le> unat x \<and> unat x < unat (b + sz) \<and>
         (unat x < unat (b + sz) - unat (b + sz) mod 8 \<or> AddressIsPoisoned E S (b + sz)))"
  by (rule poison_region_byte [OF assms])

lemma poison_region_exact_witness:
  "\<exists>S'. asan_poison_memory_region asan_x64_env 0x602000000013 10 (\<lambda>_. 0) = Some S' \<and>
     AddressIsPoisoned asan_x64_env S' 0x602000000014 \<and> \<not> AddressIsPoisoned asan_x64_env S' 0x602000000019"
  using poison_region_exact [of asan_x64_env 10 "0x602000000013" "\<lambda>_. 0"]
  by (auto simp: poisoned_const)

text \<open>C29: User unpoisoning of the region from \<open>b\<close> up to \<open>b + sz\<close> unpoisons exactly the bytes from
  \<open>b\<close> rounded down to a granule up to the end; every other byte keeps its state.\<close>
theorem unpoison_region_exact:
  assumes "wide E" "allow_user_poisoning E" "sz \<noteq> 0" "unat b + unat sz < 2 ^ 64"
  shows "\<exists>S'. asan_unpoison_memory_region E b sz S = Some S' \<and>
    (\<forall>x. AddressIsPoisoned E S' x \<longleftrightarrow>
       AddressIsPoisoned E S x \<and> \<not> (unat b - unat b mod 8 \<le> unat x \<and> unat x < unat (b + sz)))"
  by (rule unpoison_region_byte [OF assms])

lemma unpoison_region_exact_witness:
  "\<exists>S'. asan_unpoison_memory_region asan_x64_env 0x602000000013 10 (\<lambda>_. 0xf7) = Some S' \<and>
     \<not> AddressIsPoisoned asan_x64_env S' 0x602000000011 \<and> AddressIsPoisoned asan_x64_env S' 0x60200000001d"
  using unpoison_region_exact [of asan_x64_env 10 "0x602000000013" "\<lambda>_. 0xf7"]
  by (auto simp: poisoned_const)

text \<open>A region that wraps around the address space fails the check on the order of its ends,
  before anything is written, and no other region does.\<close>
theorem region_wrap_fails:
  assumes "wide E" "allow_user_poisoning E" "sz \<noteq> 0"
  shows "(asan_poison_memory_region E b sz S = None \<longleftrightarrow> 2 ^ 64 \<le> unat b + unat sz) \<and>
    (asan_unpoison_memory_region E b sz S = None \<longleftrightarrow> 2 ^ 64 \<le> unat b + unat sz)"
proof (cases "2 ^ 64 \<le> unat b + unat sz")
  case True
  then show ?thesis using wrapped_region_fails [OF assms True] by blast
next
  case False
  then have "unat b + unat sz < 2 ^ 64" by simp
  then show ?thesis
    using poison_region_byte [OF assms, of b S] unpoison_region_byte [OF assms, of b S] False by auto
qed

lemma region_wrap_fails_witness:
  "asan_poison_memory_region asan_x64_env 0xfffffffffffffff8 8 (\<lambda>_. 0) = None \<and>
   asan_unpoison_memory_region asan_x64_env 0xfffffffffffffff8 8 (\<lambda>_. 0) = None"
  using region_wrap_fails [of asan_x64_env 8 "0xfffffffffffffff8" "\<lambda>_. 0"] by simp

lemma first_poisoned:
  assumes "find_poisoned E S p n = Some r" "unat p + n < 2 ^ 64"
  shows "AddressIsPoisoned E S r \<and> unat p \<le> unat r \<and> unat r < unat p + n \<and>
    (\<forall>x. unat p \<le> unat x \<and> unat x < unat r \<longrightarrow> \<not> AddressIsPoisoned E S x)"
proof -
  from find_poisoned_Some [OF assms(1)] obtain i where i: "i < n" "r = p + word_of_nat i"
    "AddressIsPoisoned E S r" "\<forall>j < i. \<not> AddressIsPoisoned E S (p + word_of_nat j)" by blast
  have "unat (word_of_nat i :: uptr) = i" using i(1) assms(2) by (intro unat_nat64) simp
  then have r: "unat r = unat p + i" using i(1,2) assms(2) unat_add_small [of p "word_of_nat i"] by simp
  have "\<not> AddressIsPoisoned E S x" if x: "unat p \<le> unat x" "unat x < unat r" for x
  proof -
    have "x = p + word_of_nat (unat x - unat p)" using x(1) by (simp add: of_nat_diff)
    moreover have "unat x - unat p < i" using x r by simp
    ultimately show ?thesis using i(4) by metis
  qed
  with i r show ?thesis by auto
qed

lemma scan_finds:
  assumes "unat p \<le> unat x" "unat x < unat p + n" "AddressIsPoisoned E S x"
  obtains r where "find_poisoned E S p n = Some r"
proof (cases "find_poisoned E S p n")
  case None
  have "x = p + word_of_nat (unat x - unat p)" using assms(1) by (simp add: of_nat_diff)
  moreover have "unat x - unat p < n" using assms(1,2) by simp
  ultimately show ?thesis using None assms(3) unfolding find_poisoned_None by metis
qed (rule that)

text \<open>C30: The region check never fails on application memory.  An answer other than zero is the
  first poisoned byte of the region; the answer zero for a region that begins on a granule
  boundary means that no byte of it is poisoned.\<close>
theorem region_check_exact:
  assumes "wide E" "valid_shadow E S" "p \<noteq> 0" "sz \<noteq> 0" "unat p + unat sz < 2 ^ 63" "unat sz \<le> 2 ^ 43"
    and "AddrIsInMem (Layout E) p" "AddrIsInMem (Layout E) (p + sz)"
  shows "\<exists>r. asan_region_is_poisoned E S p sz = Some r \<and>
    (r \<noteq> 0 \<longrightarrow> AddressIsPoisoned E S r \<and> unat p \<le> unat r \<and> unat r < unat p + unat sz \<and>
      (\<forall>x. unat p \<le> unat x \<and> unat x < unat r \<longrightarrow> \<not> AddressIsPoisoned E S x)) \<and>
    (r = 0 \<and> 8 dvd unat p \<longrightarrow>
      (\<forall>x. unat p \<le> unat x \<and> unat x < unat p + unat sz \<longrightarrow> \<not> AddressIsPoisoned E S x))"
proof -
  have e: "unat (p + sz) = unat p + unat sz" using assms(5) by (intro unat_add_small) simp
  note run = region_check_run [OF assms(4,7,8,1,5,6), of S]
  show ?thesis
  proof (cases "fast_clean E S p (p + sz)")
    case True
    then show ?thesis using run fast_clean_sound [OF True] unfolding e by simp
  next
    case False
    have "unat p < unat (p + sz)" using e assms(4) by (simp add: unat_gt_0)
    from fast_clean_complete [OF assms(2) this _ False] obtain x
      where "unat p \<le> unat x" "unat x < unat p + unat sz" "AddressIsPoisoned E S x"
      using e assms(5) by auto
    then obtain r where r: "find_poisoned E S p (unat sz) = Some r" by (rule scan_finds)
    have n: "unat p + unat sz < 2 ^ 64" using assms(5) by simp
    have "unat p \<noteq> 0" using assms(3) by (simp add: unat_eq_0)
    with first_poisoned [OF r n] have "r \<noteq> 0" by auto
    with first_poisoned [OF r n] show ?thesis using run r False by simp
  qed
qed

lemmas x64_mem_simps = AddrIsInMem_def asan_addr_defs asan_bound_defs MEM_TO_SHADOW_def mapping_simps
  asan_layout_of_def ASAN_SHADOW_OFFSET_CONST_def

lemma region_check_exact_witness:
  "\<exists>r. asan_region_is_poisoned asan_x64_env (\<lambda>_. 0) 0x602000000010 24 = Some r \<and> r = 0"
proof -
  have "AddrIsInMem (asan_layout_of x86_64) 0x602000000010" "AddrIsInMem (asan_layout_of x86_64) 0x602000000028"
    by (simp_all add: x64_mem_simps)
  then show ?thesis
    using region_check_exact [of asan_x64_env "\<lambda>_. 0" "0x602000000010" 24]
    by (auto simp: poisoned_const valid_shadow_def)
qed

text \<open>Five addressable bytes in the granule at \<open>0x602000000000\<close>, and nothing else poisoned.\<close>

lemma gap_shadow:
  defines "S \<equiv> (\<lambda>_. 0 :: u8)(0xc047fff8000 := 5)"
  shows "asan_poison_memory_region asan_x64_env 0x602000000005 3 (\<lambda>_. 0) = Some S"
    "AddressIsPoisoned asan_x64_env S 0x602000000006"
    "asan_region_is_poisoned asan_x64_env S 0x602000000003 16 = Some 0"
proof -
  show "asan_poison_memory_region asan_x64_env 0x602000000005 3 (\<lambda>_. 0) = Some S"
    by (simp add: asan_poison_memory_region_def new_ShadowSegmentEndpoint_def Asan_MemToShadow_def
        MEM_TO_SHADOW_def mapping_simps REAL_memset_def S_def fun_upd_def)
  show "AddressIsPoisoned asan_x64_env S 0x602000000006"
    by (simp add: AddressIsPoisoned_def MEM_TO_SHADOW_def mapping_simps S_def)
  have mem: "AddrIsInMem (asan_layout_of x86_64) 0x602000000003" "AddrIsInMem (asan_layout_of x86_64) 0x602000000013"
    by (simp_all add: x64_mem_simps)
  have "S (cell asan_x64_env q) = 0" if "0xc0400000001 \<le> q" "q < 0xc0400000002" for q
  proof -
    have "q = 0xc0400000001" using that by simp
    then show ?thesis by (simp add: S_def cell_def mapping_simps)
  qed
  then have "fast_clean asan_x64_env S 0x602000000003 0x602000000013"
    by (simp add: fast_clean_def AddressIsPoisoned_def MEM_TO_SHADOW_def mapping_simps) (simp add: S_def)
  then show "asan_region_is_poisoned asan_x64_env S 0x602000000003 16 = Some 0"
    using region_check_run [of 16 asan_x64_env "0x602000000003" S] mem by simp
qed

text \<open>C31: Two answers of the region check that its contract (the first poisoned byte, or zero)
  does not allow: after the user poisons the last three bytes of a granule, a region that
  begins inside that granule and ends past it is reported clean; and a region that ends
  with the application memory below the shadow is reported poisoned at its end although no
  byte is.\<close>
theorem region_check_gaps:
  "(\<exists>S. asan_poison_memory_region asan_x64_env 0x602000000005 3 (\<lambda>_. 0) = Some S \<and>
      AddressIsPoisoned asan_x64_env S 0x602000000006 \<and>
      asan_region_is_poisoned asan_x64_env S 0x602000000003 16 = Some 0) \<and>
   asan_region_is_poisoned asan_x64_env (\<lambda>_. 0) 0x7fff7ff0 16 = Some 0x7fff8000"
  using gap_shadow by (intro conjI exI) (auto simp: asan_region_is_poisoned_def x64_mem_simps Let_def)

end
