(* ===== verification/Asan_Container_Props.thy ===== *)
theory Asan_Container_Props
  imports Asan_Poison_Props
begin

unbundle bit_operations_syntax

text \<open>
  Container annotations: annotating a change of size establishes what the verification
  function checks, and the page-wise clearing of \<open>FastPoisonShadow\<close> is a plain memset.
\<close>

section \<open>Writing a range of granules\<close>

lemma REAL_memset_between:
  assumes "p \<le> e"
  shows "REAL_memset S p v (e - p) q = (if p \<le> q \<and> q < e then v else S q)"
proof -
  have "q - p < e - p \<longleftrightarrow> p \<le> q \<and> q < e"
  proof (cases "p \<le> q")
    case True
    then show ?thesis using assms by (simp add: word_less_nat_alt word_le_nat_alt unat_sub) linarith
  next
    case False
    have "unat (q - p) = 2 ^ 64 + unat q - unat p" using False by (simp add: unat_sub_if' word_le_nat_alt)
    then show ?thesis using False assms unat_bound [of e] by (simp add: word_less_nat_alt word_le_nat_alt unat_sub)
  qed
  then show ?thesis by (simp add: REAL_memset_def)
qed

text \<open>Clearing the whole pages by mapping fresh ones has the effect of one memset.\<close>

lemma FastPoisonShadow_memset:
  assumes "PageSize E = 2 ^ k" "k < 64"
    and "sb = MEM_TO_SHADOW (ASAN_SHADOW_OFFSET (Layout E)) a"
    and "se = MEM_TO_SHADOW (ASAN_SHADOW_OFFSET (Layout E)) (a + n - ASAN_SHADOW_GRANULARITY) + 1"
    and "sb \<le> se" "unat se + 2 ^ k < 2 ^ 64"
  shows "FastPoisonShadow E a n v S = REAL_memset S sb v (se - sb)"
proof -
  let ?pb = "RoundUpTo sb (PageSize E)" and ?pe = "RoundDownTo se (PageSize E)"
  have pb: "unat ?pb = (unat sb + 2 ^ k - 1) div 2 ^ k * 2 ^ k"
    using unat_RoundUpTo [of sb k] assms(5,6) unfolding assms(1) by (simp add: word_le_nat_alt)
  have pe: "?pe \<le> se" using unat_RoundDownTo [of se k] unfolding assms(1) by (simp add: word_le_nat_alt)
  have "unat sb \<le> unat ?pb"
  proof -
    have "unat sb + 2 ^ k - 1 = unat ?pb + (unat sb + 2 ^ k - 1) mod 2 ^ k"
      unfolding pb by (simp only: div_mult_mod_eq)
    moreover have "(unat sb + 2 ^ k - 1) mod 2 ^ k < 2 ^ k" by simp
    ultimately show ?thesis by linarith
  qed
  then have sb: "sb \<le> ?pb" by (simp add: word_le_nat_alt)
  show ?thesis
  proof (cases "v \<noteq> 0 \<or> se - sb < clear_shadow_mmap_threshold E \<or> ?pb \<ge> ?pe")
    case True
    then show ?thesis
      unfolding FastPoisonShadow_def Let_def assms(3) [symmetric] assms(4) [symmetric] by auto
  next
    case False
    then have "?pb \<le> ?pe" "v = 0" using linear [of ?pb ?pe] by auto
    with False sb pe show ?thesis
      unfolding FastPoisonShadow_def Let_def assms(3) [symmetric] assms(4) [symmetric]
      by (auto intro!: ext simp: REAL_memset_between REAL_memset_between [OF assms(5)])
  qed
qed

text \<open>The granules of a region of whole granules.\<close>

lemma granules_of_region:
  assumes "8 dvd unat a" "8 dvd unat n" "n \<noteq> 0" "unat a + unat n < 2 ^ 63"
  shows "unat (a + n) = unat a + unat n" "gran a < gran (a + n)"
    "MEM_TO_SHADOW (ASAN_SHADOW_OFFSET (Layout E)) (a + n - ASAN_SHADOW_GRANULARITY) + 1 = cell E (gran (a + n))"
proof -
  show sum: "unat (a + n) = unat a + unat n" using assms(4) by (intro unat_add_small) simp
  obtain i j where ij: "unat a = 8 * i" "unat n = 8 * j" using assms(1,2) by (auto elim!: dvdE)
  have "unat n > 0" using assms(3) by (simp add: unat_gt_0)
  then have "j > 0" using ij by simp
  then show "gran a < gran (a + n)" using ij sum by simp
  have "(8 :: uptr) \<le> a + n" using ij sum \<open>j > 0\<close> by (simp add: word_le_nat_alt)
  then have "unat (a + n - 8) = 8 * (i + j - 1)" using ij sum \<open>j > 0\<close> by (simp add: unat_sub)
  moreover have "MEM_TO_SHADOW (ASAN_SHADOW_OFFSET (Layout E)) (a + n - 8) = cell E (gran (a + n - 8))"
    using mem_cell [of E "a + n - 8"] by (simp add: Asan_MemToShadow_def)
  ultimately show "MEM_TO_SHADOW (ASAN_SHADOW_OFFSET (Layout E)) (a + n - ASAN_SHADOW_GRANULARITY) + 1 =
      cell E (gran (a + n))"
    using ij sum \<open>j > 0\<close> by (simp add: mapping_simps cell_Suc)
qed

definition paged :: "asan_env \<Rightarrow> bool" where
  "paged E \<longleftrightarrow> (\<exists>k \<le> 32. PageSize E = 2 ^ k)"

lemma FastPoisonShadow_cells:
  assumes "wide E" "paged E" "8 dvd unat a" "8 dvd unat n" "n \<noteq> 0" "unat a + unat n < 2 ^ 63"
  shows "FastPoisonShadow E a n v S (cell E (gran x)) =
    (if gran a \<le> gran x \<and> gran x < gran (a + n) then v else S (cell E (gran x)))"
proof -
  note region = granules_of_region [OF assms(3-6)]
  obtain k where k: "k \<le> 32" "PageSize E = 2 ^ k" using assms(2) by (auto simp: paged_def)
  have "cell E (gran a) \<le> cell E (gran (a + n))"
    using region(2) shadow_cell_less [OF assms(1) gran_bound gran_bound, of a "a + n"] by (simp add: less_imp_le)
  moreover have "unat (cell E (gran (a + n))) + 2 ^ k < 2 ^ 64"
  proof -
    have "(2 :: nat) ^ k \<le> 2 ^ 32" using k(1) by (intro power_increasing) simp_all
    then show ?thesis
      using unat_cell [OF assms(1) gran_bound, of "a + n"] gran_bound [of "a + n"] assms(1) by (simp add: wide_def)
  qed
  ultimately have "FastPoisonShadow E a n v S =
      REAL_memset S (cell E (gran a)) v (cell E (gran (a + n)) - cell E (gran a))"
    using k mem_cell [of E a] region(3) [of E]
    by (intro FastPoisonShadow_memset [of E k]) (simp_all add: Asan_MemToShadow_def)
  then show ?thesis using memset_gran [of "gran a" "a + n"] region(2) by simp
qed

lemma aligned_iff: "AddrIsAlignedByGranularity a \<longleftrightarrow> 8 dvd unat a"
proof -
  have "a AND 7 = 0 \<longleftrightarrow> byte a = 0" using unat_and_7 [of a] by (metis unsigned_0 unat_eq_0)
  then show ?thesis by (simp add: AddrIsAlignedByGranularity_def mapping_simps dvd_eq_mod_eq_0)
qed

lemma PoisonShadow_cells:
  assumes "wide E" "paged E" "8 dvd unat a" "8 dvd unat n" "n \<noteq> 0" "unat a + unat n < 2 ^ 63"
    and "AddrIsInMem (Layout E) a" "AddrIsInMem (Layout E) (a + n - 8)" "can_poison_memory st"
  shows "\<exists>S'. PoisonShadow E a n v st = Some (st\<lparr>Shadow := S'\<rparr>) \<and>
    (\<forall>x. S' (cell E (gran x)) =
      (if gran a \<le> gran x \<and> gran x < gran (a + n) then v else Shadow st (cell E (gran x))))"
proof -
  have "8 dvd unat (a + n)" using granules_of_region(1) [OF assms(3-6)] assms(3,4) by simp
  then have "PoisonShadow E a n v st = Some (st\<lparr>Shadow := FastPoisonShadow E a n v (Shadow st)\<rparr>)"
    using assms by (simp add: PoisonShadow_def aligned_iff mapping_simps)
  then show ?thesis using FastPoisonShadow_cells [OF assms(1-6)] by blast
qed

section \<open>Annotating a container\<close>

text \<open>The shadow of a granule after the annotation, for storage that begins and ends on a granule.\<close>

definition granule_value :: "nat \<Rightarrow> nat \<Rightarrow> nat \<Rightarrow> nat \<Rightarrow> nat \<Rightarrow> nat \<Rightarrow> u8 \<Rightarrow> u8" where
  "granule_value qo uo qn rn un q v =
     (if rn \<noteq> 0 \<and> q = qn then word_of_nat rn
      else if qo \<le> q \<and> q < qn then 0
      else if un \<le> q \<and> q < uo then kAsanContiguousContainerOOBMagic
      else v)"

definition annotated :: "nat \<Rightarrow> nat \<Rightarrow> nat \<Rightarrow> u8 \<Rightarrow> u8" where
  "annotated om nm = granule_value (om div 8) ((om + 7) div 8) (nm div 8) (nm mod 8) ((nm + 7) div 8)"

definition aligned_storage :: "asan_env \<Rightarrow> uptr \<Rightarrow> uptr \<Rightarrow> bool" where
  "aligned_storage E b e \<longleftrightarrow> 8 dvd unat b \<and> 8 dvd unat e \<and> unat b \<le> unat e \<and>
     unat e < 2 ^ 62 \<and> unat e - unat b \<le> 2 ^ 40 \<and>
     (\<forall>x. unat b \<le> unat x \<and> unat x < unat e \<longrightarrow> AddrIsInMem (Layout E) x)"

lemma up_digit: "(n + 7) div 8 = n div 8 + (if n mod 8 = 0 then 0 else 1)" for n :: nat
proof -
  have "(n + 7) div 8 = n div 8 + (n mod 8 + 7) div 8" using div_add1_eq [of n 7 8] by simp
  also have "(n mod 8 + 7) div 8 = (if n mod 8 = 0 then 0 else 1)"
    by (cases "n mod 8 = 0") (simp_all add: div_nat_eqI)
  finally show ?thesis .
qed

text \<open>Poisoning between two granule boundaries inside the storage.\<close>

lemma poison_between:
  assumes "wide E" "paged E" "can_poison_memory st" "aligned_storage E b e"
    and "8 dvd unat lo" "8 dvd unat hi" "unat b \<le> unat lo" "unat hi \<le> unat e" "lo < hi"
  shows "\<exists>S'. PoisonShadow E lo (hi - lo) v st = Some (st\<lparr>Shadow := S'\<rparr>) \<and>
    (\<forall>x. S' (cell E (gran x)) =
      (if gran lo \<le> gran x \<and> gran x < gran hi then v else Shadow st (cell E (gran x))))"
proof -
  have lt: "unat lo < unat hi" using assms(9) by (simp add: word_less_nat_alt)
  have d: "unat (hi - lo) = unat hi - unat lo" using lt by (simp add: unat_sub word_le_nat_alt)
  obtain i j where ij: "unat lo = 8 * i" "unat hi = 8 * j" using assms(5,6) by (auto elim!: dvdE)
  have sum: "lo + (hi - lo) = hi" by simp
  have "(8 :: uptr) \<le> hi" using lt ij by (simp add: word_le_nat_alt)
  then have "unat (hi - 8) = 8 * j - 8" using ij by (simp add: unat_sub)
  moreover have step: "8 * i + 8 \<le> 8 * j" using lt ij by simp
  ultimately have "unat b \<le> unat (hi - 8) \<and> unat (hi - 8) < unat e" "unat b \<le> unat lo \<and> unat lo < unat e"
    using assms(7,8) lt ij step by linarith+
  then have "AddrIsInMem (Layout E) (hi - 8)" "AddrIsInMem (Layout E) lo"
    using assms(4) unfolding aligned_storage_def by blast+
  moreover have "hi - lo \<noteq> 0" "8 dvd unat (hi - lo)" "unat lo + unat (hi - lo) < 2 ^ 63"
    using lt d assms(4-8) unfolding aligned_storage_def by auto
  ultimately show ?thesis
    using PoisonShadow_cells [OF assms(1,2,5), of "hi - lo" st v] assms(3) unfolding sum by simp
qed

lemma fix_aligned:
  assumes "8 dvd unat b" "8 dvd unat e"
  shows "FixUnalignedStorage E b e bs S = (bs, S)"
  using assms by (simp add: FixUnalignedStorage_def aligned_iff)

lemma granularity_8: "granularity = 8"
  by (simp add: granularity_def mapping_simps)

text \<open>The addresses the annotation works with, by their granules.\<close>

lemma round_grans:
  assumes "unat m < 2 ^ 62"
  shows "8 dvd unat (RoundDownTo m 8)" "8 dvd unat (RoundUpTo m 8)"
    "gran (RoundDownTo m 8) = gran m" "gran (RoundUpTo m 8) = (unat m + 7) div 8"
    "unat (RoundDownTo m 8) = 8 * gran m" "unat (RoundUpTo m 8) = 8 * ((unat m + 7) div 8)"
  using unat_RoundDownTo [of m 3] unat_RoundUpTo [of m 3] assms by simp_all

lemma rounds_eq_iff:
  assumes "unat m < 2 ^ 62"
  shows "RoundDownTo m 8 = RoundUpTo m 8 \<longleftrightarrow> byte m = 0"
    and "byte m \<noteq> 0 \<Longrightarrow> RoundUpTo m 8 - RoundDownTo m 8 = 8"
    and "m - RoundDownTo m 8 = word_of_nat (byte m)"
proof -
  note g = round_grans [OF assms] up_digit [of "unat m"]
  show "RoundDownTo m 8 = RoundUpTo m 8 \<longleftrightarrow> byte m = 0"
    unfolding word_unat_eq_iff g(5,6) g(7) by (cases "byte m = 0") simp_all
  show "RoundUpTo m 8 - RoundDownTo m 8 = 8" if "byte m \<noteq> 0"
    using g(5,6,7) that by (intro uptr_eqI) (simp add: unat_sub_if')
  have "RoundDownTo m 8 \<le> m" using g(5) by (simp add: word_le_nat_alt)
  then have "unat (m - RoundDownTo m 8) = byte m"
    using g(5) by (simp add: unat_sub minus_mult_div_eq_mod)
  moreover have "unat (word_of_nat (byte m) :: uptr) = byte m"
    by (rule unat_nat64) (simp add: less_trans [of _ 8])
  ultimately show "m - RoundDownTo m 8 = word_of_nat (byte m)" by (intro uptr_eqI) simp
qed

lemma up_mono: "x \<le> y \<Longrightarrow> (x + 7) div 8 \<le> (y + 7) div (8 :: nat)"
  by (simp add: div_le_mono)

definition resized :: "nat \<Rightarrow> nat \<Rightarrow> nat \<Rightarrow> u8 \<Rightarrow> u8" where
  "resized om nm q v =
     (if om div 8 \<le> q \<and> q < nm div 8 then 0
      else if (nm + 7) div 8 \<le> q \<and> q < (om + 7) div 8 then kAsanContiguousContainerOOBMagic
      else v)"

lemma resized_grow: "om \<le> nm \<Longrightarrow> resized om nm q v = (if om div 8 \<le> q \<and> q < nm div 8 then 0 else v)"
  using up_mono [of om nm] by (auto simp: resized_def)

lemma resized_shrink:
  "nm \<le> om \<Longrightarrow> resized om nm q v =
    (if (nm + 7) div 8 \<le> q \<and> q < (om + 7) div 8 then kAsanContiguousContainerOOBMagic else v)"
  using div_le_mono [of nm om 8] by (auto simp: resized_def)

text \<open>The step that clears or poisons whole granules.\<close>

definition resize_step :: "asan_env \<Rightarrow> uptr \<Rightarrow> uptr \<Rightarrow> asan_state \<Rightarrow> asan_state option" where
  "resize_step E om nm st =
     (let a = RoundDownTo (min om nm) 8; c = RoundUpTo (max om nm) 8;
          b1 = RoundDownTo nm 8; b2 = RoundUpTo nm 8
      in if b1 > a then PoisonShadow E a (b1 - a) 0 st
         else if c > b2 then PoisonShadow E b2 (c - b2) kAsanContiguousContainerOOBMagic st
         else Some st)"

lemma resize_step_cells:
  assumes "wide E" "paged E" "can_poison_memory st" "aligned_storage E b e"
    and "unat b \<le> unat om" "unat om \<le> unat e" "unat b \<le> unat nm" "unat nm \<le> unat e"
  shows "\<exists>S'. resize_step E om nm st = Some (st\<lparr>Shadow := S'\<rparr>) \<and>
    (\<forall>x. S' (cell E (gran x)) = resized (unat om) (unat nm) (gran x) (Shadow st (cell E (gran x))))"
proof -
  have bounds: "unat om < 2 ^ 62" "unat nm < 2 ^ 62" "8 dvd unat b" "8 dvd unat e"
    using assms unfolding aligned_storage_def by linarith+
  note o = round_grans [OF bounds(1)] and n = round_grans [OF bounds(2)]
  have low: "unat b \<le> unat (RoundDownTo m 8)" if "unat b \<le> unat m" for m
  proof -
    have "8 * (unat b div 8) \<le> 8 * gran m" using that by (simp add: div_le_mono)
    then show ?thesis using unat_RoundDownTo [of m 3] bounds(3) by simp
  qed
  have high: "unat (RoundUpTo m 8) \<le> unat e" if "unat m \<le> unat e" "unat m < 2 ^ 62" for m
  proof -
    have "8 * ((unat m + 7) div 8) \<le> 8 * ((unat e + 7) div 8)" using up_mono [OF that(1)] by simp
    also have "\<dots> = unat e" using bounds(4) up_digit [of "unat e"] by (simp add: dvd_eq_mod_eq_0)
    finally show ?thesis using round_grans(6) [OF that(2)] by simp
  qed
  have down: "unat (RoundDownTo m 8) \<le> unat m" for m using unat_RoundDownTo [of m 3] by simp
  have up: "unat m \<le> unat (RoundUpTo m 8)" if "unat m < 2 ^ 62" for m
    using round_grans(6) [OF that] up_digit [of "unat m"] by (cases "byte m = 0") auto
  have id: "Some st = Some (st\<lparr>Shadow := Shadow st\<rparr>)" by simp
  show ?thesis
  proof (cases "om \<le> nm")
    case True
    then have le: "unat om \<le> unat nm" by (simp add: word_le_nat_alt)
    have mm: "min om nm = om" "max om nm = nm" using True by (simp_all add: min_def max_def)
    show ?thesis
    proof (cases "RoundDownTo om 8 < RoundDownTo nm 8")
      case True
      then show ?thesis
        using poison_between [OF assms(1-4) o(1) n(1) low [OF assms(5)] _ True, of 0] down [of nm] assms(8)
        unfolding resize_step_def mm Let_def o(3) n(3) resized_grow [OF le] by simp
    next
      case False
      then have "gran nm \<le> gran om" using o(5) n(5) by (simp add: word_less_nat_alt)
      then show ?thesis using False unfolding resize_step_def mm Let_def resized_grow [OF le]
        by (intro exI [of _ "Shadow st"]) auto
    qed
  next
    case False
    then have le: "unat nm \<le> unat om" by (simp add: word_le_nat_alt)
    have mm: "min om nm = nm" "max om nm = om" using False by (simp_all add: min_def max_def)
    show ?thesis
    proof (cases "RoundUpTo nm 8 < RoundUpTo om 8")
      case True
      then show ?thesis
        using poison_between [OF assms(1-4) n(2) o(2) _ high [OF assms(6) bounds(1)] True,
            of kAsanContiguousContainerOOBMagic] up [OF bounds(2)] assms(7)
        unfolding resize_step_def mm Let_def o(4) n(4) resized_shrink [OF le] by simp
    next
      case False
      then have "(unat om + 7) div 8 \<le> (unat nm + 7) div 8" using o(6) n(6) by (simp add: word_less_nat_alt)
      then show ?thesis using False unfolding resize_step_def mm Let_def resized_shrink [OF le]
        by (intro exI [of _ "Shadow st"]) auto
    qed
  qed
qed

lemma storage_size:
  assumes "aligned_storage E b e"
  shows "e - b \<le> push_bit 40 1"
proof -
  have "unat b \<le> unat e" "unat e - unat b \<le> 2 ^ 40" using assms unfolding aligned_storage_def by blast+
  moreover have "unat (push_bit 40 (1 :: uptr)) = 2 ^ 40" using unat_exp [of 40] by (simp add: push_bit_eq_mult)
  moreover have "unat (e - b) = unat e - unat b" using calculation(1) by (simp add: unat_sub word_le_nat_alt)
  ultimately show ?thesis by (simp only: word_le_nat_alt)
qed

lemma annotate_same:
  assumes "detect_container_overflow E" "aligned_storage E b e" "unat b \<le> unat om" "unat om \<le> unat e"
  shows "sanitizer_annotate_contiguous_container E b e om om st = Some st"
  using assms storage_size [OF assms(2)]
  by (simp add: sanitizer_annotate_contiguous_container_def word_le_nat_alt)

lemma annotate_run:
  assumes "detect_container_overflow E" "aligned_storage E b e" "om \<noteq> nm"
    and "unat b \<le> unat om" "unat om \<le> unat e" "unat b \<le> unat nm" "unat nm \<le> unat e"
  shows "sanitizer_annotate_contiguous_container E b e om nm st =
    map_option (\<lambda>st. if byte nm \<noteq> 0
        then st\<lparr>Shadow := (Shadow st)(cell E (gran nm) := word_of_nat (byte nm))\<rparr> else st)
      (resize_step E om nm st)"
proof -
  have nm: "unat nm < 2 ^ 62" and al: "8 dvd unat b" "8 dvd unat e"
    using assms unfolding aligned_storage_def by linarith+
  note sz = storage_size [OF assms(2)]
  have order: "b \<le> om \<and> b \<le> nm \<and> om \<le> e \<and> nm \<le> e" using assms(4-7) by (simp add: word_le_nat_alt)
  have m: "Asan_MemToShadow E (RoundDownTo nm 8) = cell E (gran nm)"
    using round_grans(3) [OF nm] by (simp add: mem_cell)
  have v: "(ucast (nm - RoundDownTo nm 8) :: u8) = word_of_nat (byte nm)"
    unfolding rounds_eq_iff(3) [OF nm] by (simp add: unsigned_of_nat take_bit_nat_eq_self less_trans [of _ 8])
  show ?thesis
    unfolding sanitizer_annotate_contiguous_container_def Let_def fix_aligned [OF al] case_prod_conv
      granularity_8 resize_step_def
    using assms(1,3) sz order rounds_eq_iff(1,2) [OF nm] m v
    by (cases "byte nm = 0") (simp_all add: map_option_case split: option.split)
qed

lemma annotate_cells:
  assumes "wide E" "paged E" "detect_container_overflow E" "can_poison_memory st" "aligned_storage E b e"
    and "om \<noteq> nm" "unat b \<le> unat om" "unat om \<le> unat e" "unat b \<le> unat nm" "unat nm \<le> unat e"
  shows "\<exists>S'. sanitizer_annotate_contiguous_container E b e om nm st = Some (st\<lparr>Shadow := S'\<rparr>) \<and>
    (\<forall>x. S' (cell E (gran x)) = annotated (unat om) (unat nm) (gran x) (Shadow st (cell E (gran x))))"
proof -
  from resize_step_cells [OF assms(1,2,4,5,7-10)] obtain S1 where S1:
    "resize_step E om nm st = Some (st\<lparr>Shadow := S1\<rparr>)"
    "\<And>x. S1 (cell E (gran x)) = resized (unat om) (unat nm) (gran x) (Shadow st (cell E (gran x)))" by blast
  let ?S = "if byte nm \<noteq> 0 then S1(cell E (gran nm) := word_of_nat (byte nm)) else S1"
  have "sanitizer_annotate_contiguous_container E b e om nm st = Some (st\<lparr>Shadow := ?S\<rparr>)"
    unfolding annotate_run [OF assms(3,5,6-10)] S1(1) by simp
  moreover have "?S (cell E (gran x)) = annotated (unat om) (unat nm) (gran x) (Shadow st (cell E (gran x)))" for x
    unfolding annotated_def granule_value_def S1(2) [symmetric] resized_def [symmetric]
    by (cases "gran x = gran nm") (simp_all add: cell_eq_iff S1(2))
  ultimately show ?thesis by blast
qed

section \<open>Verification\<close>

lemma find_state_None:
  "find_state E S poisoned p n = None \<longleftrightarrow> (\<forall>i < n. AddressIsPoisoned E S (p + word_of_nat i) = poisoned)"
  by (induction n arbitrary: p) (simp_all add: All_less_Suc2 add.assoc)

lemma find_state_region:
  assumes "unat p \<le> unat e"
  shows "find_state E S poisoned p (unat (e - p)) = None \<longleftrightarrow>
    (\<forall>x. unat p \<le> unat x \<and> unat x < unat e \<longrightarrow> AddressIsPoisoned E S x = poisoned)"
proof -
  have d: "unat (e - p) = unat e - unat p" using assms by (simp add: unat_sub word_le_nat_alt)
  show ?thesis unfolding find_state_None d
  proof (rule iffI; intro allI impI)
    fix x :: uptr assume H: "\<forall>i < unat e - unat p. AddressIsPoisoned E S (p + word_of_nat i) = poisoned"
      and x: "unat p \<le> unat x \<and> unat x < unat e"
    have "x = p + word_of_nat (unat x - unat p)" using x by (simp add: of_nat_diff)
    moreover have "unat x - unat p < unat e - unat p" using x diff_less_mono by blast
    ultimately show "AddressIsPoisoned E S x = poisoned" using H by metis
  next
    fix i assume H: "\<forall>x. unat p \<le> unat x \<and> unat x < unat e \<longrightarrow> AddressIsPoisoned E S x = poisoned"
      and i: "i < unat e - unat p"
    have i64: "unat p + i < 2 ^ 64" using i unat_bound [of e] by linarith
    then have "unat (word_of_nat i :: uptr) = i" by (intro unat_nat64) simp
    then have "unat (p + word_of_nat i) = unat p + i" using i64 unat_add_small [of p "word_of_nat i"] by simp
    then show "AddressIsPoisoned E S (p + word_of_nat i) = poisoned" using H i by simp
  qed
qed

lemma FindBadAddress_None:
  assumes "unat p \<le> unat e"
  shows "FindBadAddress E S p e poisoned = Some None \<longleftrightarrow>
      (\<forall>x. unat p \<le> unat x \<and> unat x < unat e \<longrightarrow> AddressIsPoisoned E S x = poisoned)"
proof -
  have k: "unat kMaxRangeToCheck = 32" "kMaxRangeToCheck * 2 = 64" by (simp_all add: kMaxRangeToCheck_def)
  have le: "p \<le> e" using assms by (simp add: word_le_nat_alt)
  have d: "unat (e - p) = unat e - unat p" using assms by (simp add: unat_sub word_le_nat_alt)
  have part: "find_state E S poisoned p 32 = None \<and> find_state E S poisoned (e - kMaxRangeToCheck) 32 = None"
    if "e - p > 64" "find_state E S poisoned p (unat (e - p)) = None"
  proof
    have n: "64 < unat e - unat p" using that(1) d by (simp add: word_less_nat_alt)
    have all: "\<forall>i < unat e - unat p. AddressIsPoisoned E S (p + word_of_nat i) = poisoned"
      using that(2) unfolding find_state_None d .
    then show "find_state E S poisoned p 32 = None" unfolding find_state_None using n by simp
    have shift: "e - kMaxRangeToCheck + word_of_nat i = p + word_of_nat (unat e - unat p - 32 + i)" for i
      using n by (simp add: kMaxRangeToCheck_def of_nat_diff)
    then show "find_state E S poisoned (e - kMaxRangeToCheck) 32 = None"
      unfolding find_state_None
    proof (intro allI impI)
      fix i :: nat assume "i < 32"
      then have "unat e - unat p - 32 + i < unat e - unat p" using n by linarith
      with all show "AddressIsPoisoned E S (e - kMaxRangeToCheck + word_of_nat i) = poisoned"
        unfolding shift by blast
    qed
  qed
  have "FindBadAddress E S p e poisoned = Some None \<longleftrightarrow> find_state E S poisoned p (unat (e - p)) = None"
    using part le k
    by (cases "find_state E S poisoned p (unat (e - p))")
      (auto simp: FindBadAddress_def Let_def split: option.splits)
  then show "FindBadAddress E S p e poisoned = Some None \<longleftrightarrow>
      (\<forall>x. unat p \<le> unat x \<and> unat x < unat e \<longrightarrow> AddressIsPoisoned E S x = poisoned)"
    using find_state_region [OF assms] by simp
qed

lemma FindBadAddress_total: "unat p \<le> unat e \<Longrightarrow> \<exists>r. FindBadAddress E S p e poisoned = Some r"
  by (simp add: FindBadAddress_def Let_def word_le_nat_alt)

text \<open>Storage that ends on a granule verifies iff its used bytes are clean and the others poisoned.\<close>

lemma verify_iff:
  assumes "detect_container_overflow E" "8 dvd unat e" "unat b \<le> unat m" "unat m \<le> unat e"
  shows "sanitizer_verify_contiguous_container E S b m e = Some
    ((\<forall>x. unat b \<le> unat x \<and> unat x < unat m \<longrightarrow> \<not> AddressIsPoisoned E S x) \<and>
     (\<forall>x. unat m \<le> unat x \<and> unat x < unat e \<longrightarrow> AddressIsPoisoned E S x))"
proof -
  obtain r1 r2 where r: "FindBadAddress E S b m False = Some r1" "FindBadAddress E S m e True = Some r2"
    using FindBadAddress_total assms(3,4) by metis
  have "FindBadAddress E S e e False = Some None"
    using FindBadAddress_None [of e e E S False] by (auto dest: leD)
  moreover have "min b e = b" "min m e = m" "b \<le> m" "m \<le> e"
    using assms(3,4) by (simp_all add: word_le_nat_alt min_def)
  ultimately have "sanitizer_verify_contiguous_container E S b m e = Some (r1 = None \<and> r2 = None)"
    using assms(1,2) r
    by (cases r1; cases r2)
       (simp_all add: sanitizer_verify_contiguous_container_def
          sanitizer_contiguous_container_find_bad_address_def aligned_iff Let_def)
  moreover have "r1 = None \<longleftrightarrow> (\<forall>x. unat b \<le> unat x \<and> unat x < unat m \<longrightarrow> \<not> AddressIsPoisoned E S x)"
    using FindBadAddress_None [OF assms(3), of E S False] r by simp
  moreover have "r2 = None \<longleftrightarrow> (\<forall>x. unat m \<le> unat x \<and> unat x < unat e \<longrightarrow> AddressIsPoisoned E S x)"
    using FindBadAddress_None [OF assms(4), of E S True] r by simp
  ultimately show ?thesis by simp
qed

section \<open>Annotation establishes what is verified\<close>

text \<open>The state of a byte after the annotation, by the granule and offset of the byte.\<close>

lemma word_of_byte: "m mod 8 \<noteq> 0 \<Longrightarrow> poisons (word_of_nat (m mod 8)) i \<longleftrightarrow> m mod 8 \<le> i"
  by (simp add: poisons_byte)

lemma annotated_clean:
  assumes "qx < qn \<or> qx = qn \<and> rx < rn" "qn \<le> un" "rn < 8"
    and "qx < qo \<Longrightarrow> \<not> poisons v rx"
  shows "\<not> poisons (granule_value qo uo qn rn un qx v) rx"
  using assms sint_small [of rn] by (auto simp: granule_value_def poisons_def)

lemma annotated_poisoned:
  assumes "qn < qx \<or> qn = qx \<and> rn \<le> rx" "un = qn + (if rn = 0 then 0 else 1)" "rn < 8"
    and "uo \<le> qx \<Longrightarrow> poisons v rx"
  shows "poisons (granule_value qo uo qn rn un qx v) rx"
proof (cases "rn \<noteq> 0 \<and> qx = qn")
  case True
  then have "rn \<le> rx" using assms(1) by auto
  moreover have "poisons (word_of_nat rn) rn"
    using True poisons_byte [of rn rn] assms(3) by simp
  ultimately show ?thesis using True by (auto simp: granule_value_def intro: poisons_mono)
next
  case False
  then show ?thesis using assms by (auto simp: granule_value_def split: if_splits)
qed

lemma annotated_outside:
  assumes "qx < qo \<and> qx < qn \<or> uo \<le> qx \<and> un \<le> qx"
    "un = qn + (if rn = 0 then 0 else 1)"
  shows "granule_value qo uo qn rn un qx v = v"
  using assms by (auto simp: granule_value_def split: if_splits)

lemma up_le: "(m + 7) div 8 \<le> x div 8 \<Longrightarrow> m \<le> x" for m x :: nat
proof -
  assume le: "(m + 7) div 8 \<le> x div 8"
  have "m \<le> (m + 7) div 8 * 8" by simp
  also have "\<dots> \<le> x div 8 * 8" by (rule mult_le_mono1 [OF le])
  also have "\<dots> \<le> x" by simp
  finally show ?thesis .
qed

text \<open>C32: If the annotation of a granule-aligned storage is right for the old size of the
  container, annotating the new size succeeds, the annotation is then right for the new size,
  and no byte outside the storage changes its state.\<close>
theorem container_annotation_verifies:
  assumes "wide E" "paged E" "detect_container_overflow E" "can_poison_memory st" "aligned_storage E b e"
    and "unat b \<le> unat om" "unat om \<le> unat e" "unat b \<le> unat nm" "unat nm \<le> unat e"
    and "sanitizer_verify_contiguous_container E (Shadow st) b om e = Some True"
  shows "\<exists>st'. sanitizer_annotate_contiguous_container E b e om nm st = Some st' \<and>
    sanitizer_verify_contiguous_container E (Shadow st') b nm e = Some True \<and>
    (\<forall>x. \<not> (unat b \<le> unat x \<and> unat x < unat e) \<longrightarrow>
      AddressIsPoisoned E (Shadow st') x = AddressIsPoisoned E (Shadow st) x)"
proof (cases "om = nm")
  case True
  have "sanitizer_annotate_contiguous_container E b e om nm st = Some st"
    using annotate_same [OF assms(3,5-7)] True by simp
  with True assms(10) show ?thesis by auto
next
  case False
  have al: "8 dvd unat b" "8 dvd unat e" using assms(5) unfolding aligned_storage_def by blast+
  from annotate_cells [OF assms(1-5) False assms(6-9)] obtain S' where S':
    "sanitizer_annotate_contiguous_container E b e om nm st = Some (st\<lparr>Shadow := S'\<rparr>)"
    "\<And>x. S' (cell E (gran x)) = annotated (unat om) (unat nm) (gran x) (Shadow st (cell E (gran x)))" by blast
  have old: "\<And>x. unat b \<le> unat x \<Longrightarrow> unat x < unat om \<Longrightarrow> \<not> AddressIsPoisoned E (Shadow st) x"
    "\<And>x. unat om \<le> unat x \<Longrightarrow> unat x < unat e \<Longrightarrow> AddressIsPoisoned E (Shadow st) x"
    using assms(10) unfolding verify_iff [OF assms(3) al(2) assms(6,7)] by blast+
  have "\<not> AddressIsPoisoned E S' x" if "unat b \<le> unat x" "unat x < unat nm" for x
    unfolding AddressIsPoisoned_iff S'(2) annotated_def
  proof (rule annotated_clean)
    show "gran nm \<le> (unat nm + 7) div 8" "byte nm < 8" by (simp_all add: div_le_mono)
    show "gran x < gran nm \<or> gran x = gran nm \<and> byte x < byte nm"
      using that(2) unfolding less_digits [of "unat x" "unat nm"] .
    assume "gran x < gran om"
    then have "unat x < unat om" unfolding less_digits [of "unat x" "unat om"] by blast
    with old(1) [OF that(1)] show "\<not> poisons (Shadow st (cell E (gran x))) (byte x)"
      unfolding AddressIsPoisoned_iff by blast
  qed
  moreover have "AddressIsPoisoned E S' x" if "unat nm \<le> unat x" "unat x < unat e" for x
    unfolding AddressIsPoisoned_iff S'(2) annotated_def
  proof (rule annotated_poisoned)
    show "(unat nm + 7) div 8 = gran nm + (if byte nm = 0 then 0 else 1)" "byte nm < 8"
      by (simp_all only: up_digit)
    show "gran nm < gran x \<or> gran nm = gran x \<and> byte nm \<le> byte x"
      using that(1) unfolding le_digits [of "unat nm" "unat x"] .
    assume "(unat om + 7) div 8 \<le> gran x"
    with old(2) [OF up_le that(2)] show "poisons (Shadow st (cell E (gran x))) (byte x)"
      unfolding AddressIsPoisoned_iff by blast
  qed
  ultimately have "sanitizer_verify_contiguous_container E S' b nm e = Some True"
    unfolding verify_iff [OF assms(3) al(2) assms(8,9)] by blast
  moreover have "AddressIsPoisoned E S' x = AddressIsPoisoned E (Shadow st) x"
    if "\<not> (unat b \<le> unat x \<and> unat x < unat e)" for x
  proof -
    have "annotated (unat om) (unat nm) (gran x) v = v" for v
      unfolding annotated_def
    proof (rule annotated_outside)
      show "(unat nm + 7) div 8 = gran nm + (if byte nm = 0 then 0 else 1)" by (rule up_digit)
      show "gran x < gran om \<and> gran x < gran nm \<or> (unat om + 7) div 8 \<le> gran x \<and> (unat nm + 7) div 8 \<le> gran x"
      proof (cases "unat b \<le> unat x")
        case True
        then have "unat e \<le> unat x" using that by (metis not_le)
        then have "gran e \<le> gran x" by (rule div_le_mono)
        moreover have "(unat e + 7) div 8 = gran e" using al(2) up_digit [of "unat e"] by (simp add: dvd_eq_mod_eq_0)
        ultimately have "(unat e + 7) div 8 \<le> gran x" by (simp only:)
        from le_trans [OF up_mono [OF assms(7)] this] le_trans [OF up_mono [OF assms(9)] this]
        show ?thesis by blast
      next
        case False
        have "gran x < gran b"
          using False al(1) less_down [of "unat x" "unat b"] by (simp add: dvd_eq_mod_eq_0)
        from less_le_trans [OF this div_le_mono [OF assms(6)]] less_le_trans [OF this div_le_mono [OF assms(8)]]
        show ?thesis by blast
      qed
    qed
    then show ?thesis unfolding AddressIsPoisoned_iff S'(2) by simp
  qed
  ultimately show ?thesis using S'(1) by (intro exI [of _ "st\<lparr>Shadow := S'\<rparr>"]) simp
qed

lemma aligned_storage_x64: "aligned_storage asan_x64_env 0x602000000010 0x602000000050"
proof -
  have "AddrIsInMem (asan_layout_of x86_64) x"
    if "0x602000000010 \<le> unat x" "unat x < 0x602000000050" for x
    using that by (simp add: AddrIsInMem_def AddrIsInHighMem_def kHighMemBeg_def MEM_TO_SHADOW_def
        mapping_simps asan_layout_of_def ASAN_SHADOW_OFFSET_CONST_def word_le_nat_alt)
  then show ?thesis by (simp add: aligned_storage_def)
qed

lemma paged_x64: "paged asan_x64_env"
  unfolding paged_def by (intro exI [of _ 12]) (simp add: asan_x64_env_def)

lemma container_annotation_verifies_witness:
  "\<exists>st'. sanitizer_annotate_contiguous_container asan_x64_env 0x602000000010 0x602000000050
       0x602000000010 0x602000000025 \<lparr>Shadow = (\<lambda>_. 0xfc), can_poison_memory = True\<rparr> = Some st' \<and>
     sanitizer_verify_contiguous_container asan_x64_env (Shadow st') 0x602000000010 0x602000000025
       0x602000000050 = Some True"
proof -
  let ?st = "\<lparr>Shadow = (\<lambda>_. 0xfc), can_poison_memory = True\<rparr>"
  have "detect_container_overflow asan_x64_env" by (simp add: asan_x64_env_def)
  moreover from this have "sanitizer_verify_contiguous_container asan_x64_env (Shadow ?st)
      0x602000000010 0x602000000010 0x602000000050 = Some True"
    by (simp add: verify_iff AddressIsPoisoned_iff poisons_def leD)
  ultimately show ?thesis
    using container_annotation_verifies [of asan_x64_env ?st "0x602000000010" "0x602000000050"
        "0x602000000010" "0x602000000025"] aligned_storage_x64 paged_x64 by auto
qed

end
