(* ===== verification/Wrapper_Options.thy ===== *)
theory Wrapper_Options
  imports XPrelude "HOL-Library.Sublist"
begin

unbundle bit_operations_syntax

text \<open>
  The option handling that \<open>xclang\<close> and \<open>xgcc\<close> share
  (\<open>compiler/xsan_wrapper_helper.c.inc\<close>, \<open>xsan_wrapper_helper.h\<close>,
  \<open>include/xsan_common.h\<close>): the masks of sanitizers, the detection of the sanitizer
  from the command line, and the generic sanitizer options.  A C string is a \<open>string\<close>;
  an argument vector is the list of the arguments after the name of the program.
\<close>

section \<open>Sanitizers and their masks\<close>

datatype SanitizerType = SanNone | ASan | TSan | MSan | UBSan | XSan | XSanOnly

datatype ObjectFormatType = MachO | COFF | ELF | UnknownObjectFormat

primrec sanitizer_number :: "SanitizerType \<Rightarrow> nat" where
  "sanitizer_number SanNone = 0"
| "sanitizer_number ASan = 1"
| "sanitizer_number TSan = 2"
| "sanitizer_number MSan = 3"
| "sanitizer_number UBSan = 4"
| "sanitizer_number XSan = 5"
| "sanitizer_number XSanOnly = 6"

text \<open>The loops over options and over sanitizer types.\<close>

definition sanitizer_options :: "SanitizerType list" where
  "sanitizer_options = [ASan, TSan, MSan, UBSan, XSan, XSanOnly]"

definition sanitizer_types :: "SanitizerType list" where
  "sanitizer_types = [ASan, TSan, MSan, UBSan, XSan]"

primrec option_names :: "SanitizerType \<Rightarrow> string" where
  "option_names SanNone = []"
| "option_names ASan = ''-asan''"
| "option_names TSan = ''-tsan''"
| "option_names MSan = ''-msan''"
| "option_names UBSan = ''-ubsan''"
| "option_names XSan = ''-xsan''"
| "option_names XSanOnly = ''-xsan-only''"

text \<open>What the build configures: the supported sanitizers, directories and patches.\<close>

record wrapper_config =
  XSAN_CONTAINS_ASAN :: bool
  XSAN_CONTAINS_TSAN :: bool
  XSAN_CONTAINS_MSAN :: bool
  XSAN_CONTAINS_UBSAN :: bool
  XSAN_PATH :: string
  XSAN_HOST_ARCH_RT_DIR :: string
  XSAN_PASS_DIR :: string
  XSAN_SHARE_DIR :: string
  XSAN_DSO_PATCH :: string
  XSAN_USE_LIVEPATCH :: bool
  XSAN_USE_GCC_SPEC :: bool
  XSAN_LIVEPATCH_GCC_LINK_SPEC_FLAG :: string
  XSAN_SPEC_GPP_NAME :: string
  XSAN_SPEC_GCC_NAME :: string

type_synonym XsanOption = u64

definition san_bit :: "SanitizerType \<Rightarrow> XsanOption" where
  "san_bit sanTy = push_bit (sanitizer_number sanTy) 1"

definition set_all :: "wrapper_config \<Rightarrow> XsanOption \<Rightarrow> XsanOption" where
  "set_all C m =
     (let m = (if XSAN_CONTAINS_UBSAN C then m OR san_bit UBSan else m);
          m = (if XSAN_CONTAINS_TSAN C then m OR san_bit TSan else m);
          m = (if XSAN_CONTAINS_MSAN C then m OR san_bit MSan else m);
          m = (if XSAN_CONTAINS_ASAN C then m OR san_bit ASan else m)
      in m OR san_bit XSan)"

definition set_san :: "XsanOption \<Rightarrow> SanitizerType \<Rightarrow> XsanOption" where
  "set_san m sanTy = m OR san_bit sanTy"

definition clear_san :: "XsanOption \<Rightarrow> SanitizerType \<Rightarrow> XsanOption" where
  "clear_san m sanTy = m AND (if sanTy = XSan then 0 else NOT (san_bit sanTy))"

definition has_san :: "XsanOption \<Rightarrow> SanitizerType \<Rightarrow> bool" where
  "has_san m sanTy \<longleftrightarrow> m AND san_bit sanTy \<noteq> 0"

definition has_any :: "XsanOption \<Rightarrow> bool" where
  "has_any m \<longleftrightarrow> m AND NOT (san_bit XSan OR san_bit SanNone) \<noteq> 0"

section \<open>Errors\<close>

text \<open>\<open>FATAL\<close> ends the wrapper with a message; reading past the argument vector is undefined.\<close>

datatype wrapper_error = FATAL string | out_of_arguments

type_synonym 'a wrapped = "wrapper_error + 'a"

definition and_then :: "'a wrapped \<Rightarrow> ('a \<Rightarrow> 'b wrapped) \<Rightarrow> 'b wrapped" where
  "and_then m f = (case m of Inl e \<Rightarrow> Inl e | Inr x \<Rightarrow> f x)"

fun fold_wrapped :: "('a \<Rightarrow> 's \<Rightarrow> 's wrapped) \<Rightarrow> 'a list \<Rightarrow> 's \<Rightarrow> 's wrapped" where
  "fold_wrapped f [] s = Inr s"
| "fold_wrapped f (x # xs) s = and_then (f x s) (fold_wrapped f xs)"

section \<open>Strings\<close>

definition quoted :: "string \<Rightarrow> string" where
  "quoted s = CHR 0x27 # s @ [CHR 0x27]"

definition OPT_MATCH :: "string \<Rightarrow> string \<Rightarrow> bool" where
  "OPT_MATCH arg opt \<longleftrightarrow> prefix opt arg"

text \<open>\<open>OPT_GET_VAL_AND_THEN\<close>: the value of \<open>opt=val\<close>.\<close>

definition OPT_GET_VAL :: "string \<Rightarrow> string \<Rightarrow> string option" where
  "OPT_GET_VAL arg opt =
     (if OPT_MATCH arg (opt @ ''='') then Some (drop (length opt + 1) arg) else None)"

text \<open>Splitting at every comma, as the loop over \<open>strchr\<close> does.\<close>

fun split_commas :: "string \<Rightarrow> string list" where
  "split_commas [] = [[]]"
| "split_commas (c # cs) =
     (if c = CHR '','' then [] # split_commas cs
      else case split_commas cs of [] \<Rightarrow> [[c]] | v # vs \<Rightarrow> (c # v) # vs)"

text \<open>The suffix that \<open>strrchr\<close> points to, if the character occurs.\<close>

definition strrchr :: "string \<Rightarrow> char \<Rightarrow> string option" where
  "strrchr s c =
     (if c \<in> set s then Some (c # rev (takeWhile (\<lambda>x. x \<noteq> c) (rev s))) else None)"

definition strstr :: "string \<Rightarrow> string \<Rightarrow> bool" where
  "strstr s pat \<longleftrightarrow> list_ex (prefix pat) (suffixes s)"

section \<open>Detecting the sanitizer\<close>

record sanitizers =
  act_sanitizers :: XsanOption
  recover_sanitizers :: XsanOption

primrec incompatible_san_types :: "SanitizerType \<Rightarrow> SanitizerType list" where
  "incompatible_san_types SanNone = []"
| "incompatible_san_types ASan = [XSan, TSan, MSan]"
| "incompatible_san_types TSan = [XSan, ASan, MSan]"
| "incompatible_san_types MSan = [XSan, ASan, TSan]"
| "incompatible_san_types UBSan = []"
| "incompatible_san_types XSan = [ASan, TSan, MSan]"
| "incompatible_san_types XSanOnly = []"

definition support_subsanitizers :: "wrapper_config \<Rightarrow> SanitizerType \<Rightarrow> bool" where
  "support_subsanitizers C san =
     (case san of ASan \<Rightarrow> XSAN_CONTAINS_ASAN C | TSan \<Rightarrow> XSAN_CONTAINS_TSAN C
      | MSan \<Rightarrow> XSAN_CONTAINS_MSAN C | UBSan \<Rightarrow> XSAN_CONTAINS_UBSAN C | _ \<Rightarrow> True)"

definition get_sanitizer_type :: "SanitizerType \<Rightarrow> SanitizerType" where
  "get_sanitizer_type type = (if type = XSanOnly then XSan else type)"

text \<open>One \<open>-asan\<close>, \<open>-tsan\<close>, ... option; the state is the type found so far and the mask.\<close>

definition apply_option ::
  "wrapper_config \<Rightarrow> SanitizerType \<Rightarrow> SanitizerType \<times> XsanOption \<Rightarrow> (SanitizerType \<times> XsanOption) wrapped"
where
  "apply_option C opt st =
     (case st of (xsanTy, act) \<Rightarrow>
       let san = get_sanitizer_type opt
       in if xsanTy \<in> set (incompatible_san_types san)
          then Inl (FATAL (quoted (option_names xsanTy) @ '' could not be used with '' @ quoted (option_names opt)))
          else if \<not> support_subsanitizers C san
          then Inl (FATAL (quoted (option_names opt) @ '' is not supported by this compiler''))
          else
            let xsanTy = (if san = UBSan then (if \<not> has_any act then UBSan else xsanTy) else san)
            in Inr (xsanTy, if opt = XSan then set_all C act else set_san act xsanTy))"

text \<open>The sanitizer of one value of \<open>-fsanitize=\<close>; an unknown value keeps the previous one.\<close>

definition value_sanitizer :: "string \<Rightarrow> SanitizerType \<Rightarrow> SanitizerType" where
  "value_sanitizer val sanTy =
     (if val = ''address'' then ASan else if val = ''thread'' then TSan
      else if val = ''memory'' then MSan else if val = ''undefined'' then UBSan
      else if val = ''all'' then XSan else sanTy)"

fun apply_values :: "bool \<Rightarrow> string list \<Rightarrow> SanitizerType \<Rightarrow> XsanOption \<Rightarrow> XsanOption" where
  "apply_values is_neg [] sanTy act = act"
| "apply_values is_neg (val # vals) sanTy act =
     (let sanTy = value_sanitizer val sanTy
      in apply_values is_neg vals sanTy (if is_neg then clear_san act sanTy else set_san act sanTy))"

text \<open>The prefix \<open>-f\<close> or \<open>-fno-\<close> of an argument, and the rest of it.\<close>

definition feature_option :: "string \<Rightarrow> (bool \<times> string) option" where
  "feature_option cur =
     (if \<not> prefix ''-f'' cur then None
      else let rest = drop 2 cur
           in if prefix ''no-'' rest then Some (True, drop 3 rest) else Some (False, rest))"

definition detect_arg ::
  "wrapper_config \<Rightarrow> string \<Rightarrow> SanitizerType \<times> XsanOption \<Rightarrow> (SanitizerType \<times> XsanOption) wrapped"
where
  "detect_arg C cur st =
     and_then
       (fold_wrapped (\<lambda>opt st. if cur = option_names opt then apply_option C opt st else Inr st)
          sanitizer_options st)
       (\<lambda>(xsanTy, act).
          case feature_option cur of
            None \<Rightarrow> Inr (xsanTy, act)
          | Some (is_neg, rest) \<Rightarrow>
              (case OPT_GET_VAL rest ''sanitize'' of
                 None \<Rightarrow> Inr (xsanTy, act)
               | Some val \<Rightarrow> Inr (xsanTy, apply_values is_neg (split_commas val) SanNone act)))"

definition has_conflict :: "XsanOption \<Rightarrow> bool" where
  "has_conflict act \<longleftrightarrow>
     list_ex (\<lambda>san. san \<noteq> XSan \<and> san \<noteq> UBSan \<and> has_san act san \<and>
                list_ex (has_san act) (incompatible_san_types san)) sanitizer_types"

definition detect_san_type ::
  "wrapper_config \<Rightarrow> string list \<Rightarrow> XsanOption \<Rightarrow> (SanitizerType \<times> XsanOption) wrapped"
where
  "detect_san_type C args act =
     and_then (fold_wrapped (detect_arg C) args (SanNone, act))
       (\<lambda>(xsanTy, act).
          let (xsanTy, act) =
                (if xsanTy = SanNone \<and> has_conflict act then (XSan, act OR san_bit XSan)
                 else (xsanTy, act))
          in Inr (if xsanTy \<noteq> XSan \<and> \<not> has_san act xsanTy then SanNone else xsanTy, act))"

definition get_xsan_comb_name :: "XsanOption \<Rightarrow> string" where
  "get_xsan_comb_name act =
     (if \<not> has_san act XSan then []
      else ''xsan'' @ (if has_san act ASan then ''_asan'' else []) @
           (if has_san act MSan then ''_msan'' else []) @
           (if has_san act TSan then ''_tsan'' else []))"

section \<open>Generic options\<close>

text \<open>
  \<open>-x\<close>: whether the argument is such an option, and whether the language is assembler.
  \<open>next\<close> is the following argument, or \<open>None\<close> for the null pointer after the last.
\<close>

definition handle_x_option :: "string \<Rightarrow> string option \<Rightarrow> bool \<Rightarrow> (bool \<times> bool) wrapped" where
  "handle_x_option cur nxt asm_as_source =
     (if \<not> prefix ''-x'' cur \<or> drop 2 cur = ''san'' \<or> drop 2 cur = ''san-only''
      then Inr (False, asm_as_source)
      else
        let language = (if drop 2 cur = [] then nxt else Some (drop 2 cur))
        in case language of
             None \<Rightarrow> Inl out_of_arguments
           | Some l \<Rightarrow> Inr (True, asm_as_source \<or> l = ''assembler'' \<or> l = ''assembler-with-cpp''))"

datatype opt_act = OPT_REMOVE | OPT_KEEP | OPT_PENDING

record OptAction =
  opt_action :: opt_act
  opt_arg :: string
  opt_is_neg :: bool

definition handle_recover :: "wrapper_config \<Rightarrow> bool \<Rightarrow> string \<Rightarrow> XsanOption \<Rightarrow> XsanOption" where
  "handle_recover C neg val recover =
     (let recover = (if val = ''all'' then (if neg then clear_san recover XSan else set_all C recover)
                     else recover);
          recover = (if val = ''address'' then (if neg then clear_san else set_san) recover ASan else recover)
      in if val = ''memory'' then (if neg then clear_san else set_san) recover MSan else recover)"

definition handle_generic_sanitizer_options ::
  "wrapper_config \<Rightarrow> string \<Rightarrow> bool \<Rightarrow> XsanOption \<Rightarrow> OptAction \<times> XsanOption" where
  "handle_generic_sanitizer_options C arg check_san_opt recover =
     (if arg = ''-lib-only'' \<or> list_ex (\<lambda>opt. arg = option_names opt) sanitizer_options
      then (\<lparr>opt_action = OPT_REMOVE, opt_arg = arg, opt_is_neg = False\<rparr>, recover)
      else if \<not> check_san_opt then (\<lparr>opt_action = OPT_PENDING, opt_arg = arg, opt_is_neg = False\<rparr>, recover)
      else case feature_option arg of
          None \<Rightarrow> (\<lparr>opt_action = OPT_KEEP, opt_arg = arg, opt_is_neg = False\<rparr>, recover)
        | Some (neg, rest) \<Rightarrow>
            if \<not> OPT_MATCH rest ''sanitize-'' then (\<lparr>opt_action = OPT_KEEP, opt_arg = rest, opt_is_neg = neg\<rparr>, recover)
            else
              let rest = drop 9 rest
              in case OPT_GET_VAL rest ''recover'' of
                   Some val \<Rightarrow>
                     (\<lparr>opt_action = OPT_KEEP, opt_arg = rest, opt_is_neg = neg\<rparr>, handle_recover C neg val recover)
                 | None \<Rightarrow> (\<lparr>opt_action = OPT_PENDING, opt_arg = rest, opt_is_neg = neg\<rparr>, recover))"

end
