(* ===== verification/Wrapper_Driver.thy ===== *)
theory Wrapper_Driver
  imports Wrapper_Options
begin

text \<open>
  The rest of \<open>xsan_wrapper_helper.c.inc\<close>: finding the runtime libraries, the parameters
  and environment variables that select the sanitizers, and the link line.  \<open>driver\<close> holds
  the static variables of the wrapper and the process environment; \<open>cc_par_cnt\<close> is the
  length of \<open>cc_params\<close>.
\<close>

record driver = sanitizers +
  cc_params :: "string list"
  obj_path :: string
  xsan_comb_name :: string
  environ :: "string \<Rightarrow> string option"
  AsmAsSource :: bool
  DisableIntegratedAS :: bool
  SanitizeAddressGlobalsDeadStripping :: bool
  obj_format :: ObjectFormatType

text \<open>What the host answers: readable files and the path of the running executable.\<close>

record host =
  readable :: "string \<Rightarrow> bool"
  self_exe :: "string option"

definition push :: "string \<Rightarrow> driver \<Rightarrow> driver" where
  "push p st = st\<lparr>cc_params := cc_params st @ [p]\<rparr>"

definition pushes :: "string list \<Rightarrow> driver \<Rightarrow> driver" where
  "pushes ps st = st\<lparr>cc_params := cc_params st @ ps\<rparr>"

definition ADD_LLVM_MIDDLE_END_OPTION :: "string \<Rightarrow> driver \<Rightarrow> driver" where
  "ADD_LLVM_MIDDLE_END_OPTION opt st =
     (if AsmAsSource st then st else push opt (push ''-mllvm'' st))"

definition getenv :: "driver \<Rightarrow> string \<Rightarrow> string option" where
  "getenv st key = environ st key"

definition setenv :: "string \<Rightarrow> string \<Rightarrow> driver \<Rightarrow> driver" where
  "setenv key val st = st\<lparr>environ := (environ st)(key := Some val)\<rparr>"

definition unsetenv :: "string \<Rightarrow> driver \<Rightarrow> driver" where
  "unsetenv key st = st\<lparr>environ := (environ st)(key := None)\<rparr>"

definition append_env_var :: "string \<Rightarrow> string \<Rightarrow> driver \<Rightarrow> driver" where
  "append_env_var key val st =
     setenv key (case getenv st key of Some old \<Rightarrow> old @ '':'' @ val | None \<Rightarrow> val) st"

section \<open>Finding the runtime\<close>

definition parent_dir :: "string \<Rightarrow> string option" where
  "parent_dir path =
     (if CHR ''/'' \<in> set path
      then Some (rev (drop 1 (dropWhile (\<lambda>c. c \<noteq> CHR ''/'') (rev path)))) else None)"

definition dir_candidates :: "wrapper_config \<Rightarrow> string \<Rightarrow> string \<Rightarrow> string list" where
  "dir_candidates C dir obj =
     [dir @ ''/'' @ obj, dir @ ''/../'' @ XSAN_HOST_ARCH_RT_DIR C @ ''/'' @ obj]"

text \<open>The paths that are tried, in their order.\<close>

definition object_candidates :: "wrapper_config \<Rightarrow> host \<Rightarrow> driver \<Rightarrow> string \<Rightarrow> string \<Rightarrow> string list" where
  "object_candidates C H st obj argv0 =
     (let self_dir = (case self_exe H of None \<Rightarrow> None | Some exe \<Rightarrow> parent_dir exe);
          candidates = (\<lambda>dir. case dir of None \<Rightarrow> [] | Some d \<Rightarrow> dir_candidates C d obj)
      in (case getenv st ''XSAN_PATH'' of None \<Rightarrow> [] | Some path \<Rightarrow> [path @ ''/'' @ obj]) @
         candidates self_dir @
         candidates (if CHR ''/'' \<in> set argv0 then parent_dir argv0 else self_dir) @
         [XSAN_PATH C @ ''/'' @ obj, ''./'' @ obj])"

definition find_object :: "wrapper_config \<Rightarrow> host \<Rightarrow> driver \<Rightarrow> string \<Rightarrow> string \<Rightarrow> string option" where
  "find_object C H st obj argv0 = List.find (readable H) (object_candidates C H st obj argv0)"

definition find_obj :: "wrapper_config \<Rightarrow> host \<Rightarrow> string \<Rightarrow> driver \<Rightarrow> driver wrapped" where
  "find_obj C H argv0 st =
     (case find_object C H st [] argv0 of
        None \<Rightarrow> Inl (FATAL ''Unable to find object path. Please set XSAN_PATH'')
      | Some path \<Rightarrow>
          if path = [] then Inl (FATAL ''Unable to find object path. Please set XSAN_PATH'')
          else Inr (st\<lparr>obj_path := (if last path = CHR ''/'' then butlast path else path)\<rparr>))"

section \<open>Selecting the sanitizers\<close>

definition digit :: "nat \<Rightarrow> char" where "digit n = char_of (48 + n)"

fun decimal :: "nat \<Rightarrow> string" where
  "decimal n = (if n < 10 then [digit n] else decimal (n div 10) @ [digit (n mod 10)])"

declare decimal.simps [simp del]

definition xsan_without :: "string \<Rightarrow> string \<Rightarrow> wrapper_error" where
  "xsan_without san opt =
     FATAL (''xsan did not contain '' @ san @ '', '' @ quoted ''-xsan'' @ '' could not be used with '' @
       quoted (''-fsanitize='' @ opt))"

definition frontend_sanitizer ::
  "SanitizerType \<Rightarrow> SanitizerType \<Rightarrow> bool \<Rightarrow> string \<Rightarrow> string \<Rightarrow> driver \<Rightarrow> driver wrapped" where
  "frontend_sanitizer sanTy san supported name opt st =
     (if \<not> has_san (act_sanitizers st) san then Inr st
      else if sanTy = XSan \<and> \<not> supported then Inl (xsan_without name opt)
      else Inr (push (''-fsanitize='' @ opt) st))"

definition frontend_ubsan :: "driver \<Rightarrow> driver" where
  "frontend_ubsan st =
     (if \<not> has_san (act_sanitizers st) UBSan then st
      else
        let st = push ''-fsanitize=undefined'' st;
            st = (if getenv st ''XSAN_IN_ASAN_TEST'' \<noteq> None \<or> getenv st ''XSAN_IN_TSAN_TEST'' \<noteq> None
                  then push ''-fno-sanitize=function'' st else st)
        in if has_san (act_sanitizers st) ASan
           then pushes [''-fno-sanitize=object-size'', ''-fno-sanitize=bounds'', ''-fno-sanitize=null''] st
           else st)"

definition init_sanitizer_setting :: "wrapper_config \<Rightarrow> SanitizerType \<Rightarrow> driver \<Rightarrow> driver wrapped" where
  "init_sanitizer_setting C sanTy st =
     (let st = (if sanTy = XSan then push ''-D__XSAN__'' st else st)
      in if sanTy = SanNone \<or> sanTy = XSanOnly then Inr st
         else
           let st = st\<lparr>xsan_comb_name := get_xsan_comb_name (act_sanitizers st)\<rparr>;
               st = setenv ''XSAN_COMPILE_MASK'' (decimal (unat (act_sanitizers st))) st
           in and_then (frontend_sanitizer sanTy ASan (XSAN_CONTAINS_ASAN C) ''asan'' ''address'' st) (\<lambda>st.
              and_then (frontend_sanitizer sanTy TSan (XSAN_CONTAINS_TSAN C) ''tsan'' ''thread'' st) (\<lambda>st.
              and_then (frontend_sanitizer sanTy MSan (XSAN_CONTAINS_MSAN C) ''msan'' ''memory'' st) (\<lambda>st.
                let st = frontend_ubsan st
                in Inr (if XSAN_USE_LIVEPATCH C
                        then setenv ''XSAN_BASE_DIR'' (obj_path st)
                               (append_env_var ''LD_PRELOAD'' (obj_path st @ ''/'' @ XSAN_DSO_PATCH C) st)
                        else st)))))"

section \<open>The link line\<close>

definition add_wrap_link_option :: "wrapper_config \<Rightarrow> bool \<Rightarrow> SanitizerType \<Rightarrow> driver \<Rightarrow> driver" where
  "add_wrap_link_option C wrap_gcc sanTy st =
     (if sanTy \<noteq> XSan \<or> (XSAN_USE_LIVEPATCH C \<and> \<not> wrap_gcc) then st
      else push (''-Wl,@'' @ obj_path st @ ''/'' @ XSAN_SHARE_DIR C @ ''/'' @ xsan_comb_name st @
                 ''/xsan_wrapped_symbols.txt'') st)"

definition runtime_name :: "SanitizerType \<Rightarrow> string option" where
  "runtime_name sanTy =
     (case sanTy of ASan \<Rightarrow> Some ''asan'' | TSan \<Rightarrow> Some ''tsan'' | MSan \<Rightarrow> Some ''msan''
      | UBSan \<Rightarrow> Some ''ubsan_standalone'' | XSan \<Rightarrow> Some ''xsan'' | _ \<Rightarrow> None)"

definition rt_path :: "wrapper_config \<Rightarrow> driver \<Rightarrow> string" where
  "rt_path C st = obj_path st @ ''/'' @ XSAN_HOST_ARCH_RT_DIR C @ ''/'' @ xsan_comb_name st"

definition add_sanitizer_runtime ::
  "wrapper_config \<Rightarrow> bool \<Rightarrow> SanitizerType \<Rightarrow> bool \<Rightarrow> bool \<Rightarrow> bool \<Rightarrow> driver \<Rightarrow> driver" where
  "add_sanitizer_runtime C wrap_gcc sanTy is_cxx is_dso needs_shared_rt st =
     (if XSAN_USE_LIVEPATCH C \<and> \<not> wrap_gcc then st
      else case runtime_name sanTy of
          None \<Rightarrow> st
        | Some san \<Rightarrow>
            let st = add_wrap_link_option C wrap_gcc sanTy st;
                rt = rt_path C st;
                st = (if needs_shared_rt \<and> sanTy \<in> {ASan, TSan, UBSan, XSan}
                      then pushes [''-Wl,-rpath,'' @ rt, rt @ ''/libclang_rt.'' @ san @ ''.so''] st else st);
                st = (if sanTy = ASan \<or> sanTy = XSan then
                        let st = push ''-Wl,--whole-archive'' st;
                            st = (if needs_shared_rt \<and> \<not> is_dso
                                  then push (rt @ ''/libclang_rt.'' @ san @ ''-preinit.a'') st else st)
                        in pushes [rt @ ''/libclang_rt.'' @ san @ ''_static.a'', ''-Wl,--no-whole-archive''] st
                      else st)
            in if is_dso \<or> needs_shared_rt then st
               else
                 let st = pushes [''-Wl,--whole-archive'', rt @ ''/libclang_rt.'' @ san @ ''.a''] st;
                     st = (if is_cxx then push (rt @ ''/libclang_rt.'' @ san @ ''_cxx.a'') st else st);
                     st = pushes [''-Wl,--no-whole-archive'',
                                  ''-Wl,--dynamic-list='' @ rt @ ''/libclang_rt.'' @ san @ ''.a.syms''] st;
                     st = (if is_cxx
                           then push (''-Wl,--dynamic-list='' @ rt @ ''/libclang_rt.'' @ san @ ''_cxx.a.syms'') st
                           else st)
                 in pushes [''-lpthread'', ''-lrt'', ''-lm'', ''-ldl'', ''-lresolv''] st)"

section \<open>Flags of the first pass over the arguments\<close>

text \<open>
  The local variables of \<open>edit_params\<close>; those the code only writes (\<open>bit_mode\<close>, \<open>have_o\<close>,
  \<open>have_unroll\<close>, \<open>have_pic\<close>) are left out, their branches are kept.
\<close>

record scan_flags =
  is_cxx :: bool
  fortify_set :: bool
  asan_set :: bool
  x_set :: bool
  shared_linking :: bool
  preprocessor_only :: bool
  have_c :: bool
  partial_linking :: bool
  only_lib :: bool
  needs_shared_rt :: bool
  dump_active :: bool
  livepatch_link_spec :: bool

definition base_name :: "string \<Rightarrow> string" where
  "base_name path = (case strrchr path (CHR ''/'') of None \<Rightarrow> path | Some s \<Rightarrow> drop 1 s)"

definition partial_link_option :: "string \<Rightarrow> bool" where
  "partial_link_option cur \<longleftrightarrow>
     cur \<in> {''-Wl,-r'', ''-Wl,-i'', ''-Wl,--relocatable'', ''-r'', ''--relocatable''}"

definition assembly_suffix :: "string \<Rightarrow> bool" where
  "assembly_suffix cur \<longleftrightarrow>
     (case strrchr cur (CHR ''.'') of None \<Rightarrow> False | Some s \<Rightarrow> s \<in> {''.s'', ''.S'', ''.asm''})"

text \<open>Each argument with the one after it, \<open>None\<close> for the null pointer that ends \<open>argv\<close>.\<close>

definition with_next :: "string list \<Rightarrow> (string \<times> string option) list" where
  "with_next args = zip args (map Some (drop 1 args) @ [None])"

definition no_builtin_params :: "string list" where
  "no_builtin_params =
     [''-fno-builtin-strcmp'', ''-fno-builtin-strncmp'', ''-fno-builtin-strcasecmp'',
      ''-fno-builtin-strncasecmp'', ''-fno-builtin-memcmp'', ''-fno-builtin-bcmp'',
      ''-fno-builtin-strstr'', ''-fno-builtin-strcasestr'']"

definition harden_params :: "scan_flags \<Rightarrow> driver \<Rightarrow> driver" where
  "harden_params fl st =
     (if getenv st ''X_HARDEN'' = None then st
      else
        let st = push ''-fstack-protector-all'' st
        in if fortify_set fl then st else push ''-D_FORTIFY_SOURCE=2'' st)"

end
