(* ===== verification/Wrapper_Clang.thy ===== *)
theory Wrapper_Clang
  imports Wrapper_Driver
begin

text \<open>
  \<open>compiler/clang_wrapper.c\<close>: the translation of sanitizer options of the Clang frontend
  to options of the XSan passes, the two passes over the arguments, and the entry point.
\<close>

section \<open>Sanitizer options\<close>

text \<open>The result says whether the original argument is discarded.\<close>

definition handle_asan_options :: "string \<Rightarrow> bool \<Rightarrow> bool \<Rightarrow> driver \<Rightarrow> bool \<times> driver" where
  "handle_asan_options arg is_mllvm_arg neg st =
     (if is_mllvm_arg then
        (if \<not> OPT_MATCH arg ''-asan-'' then (False, st)
         else (True, push (''-as-'' @ drop 6 arg) st))
      else if \<not> OPT_MATCH arg ''address-'' then (False, st)
      else
        let arg = drop 8 arg
        in if arg = ''globals-dead-stripping''
           then (False, st\<lparr>SanitizeAddressGlobalsDeadStripping := \<not> neg\<rparr>)
           else if arg = ''poison-custom-array-cookie'' then (False, st)
           else case OPT_GET_VAL arg ''use-after-return'' of
               Some val \<Rightarrow> (False, ADD_LLVM_MIDDLE_END_OPTION (''-sanitize-address-use-after-return='' @ val) st)
             | None \<Rightarrow>
           if arg = ''use-after-scope''
           then (False, ADD_LLVM_MIDDLE_END_OPTION
                          (if neg then ''-sanitize-address-use-after-scope=0''
                           else ''-sanitize-address-use-after-scope'') st)
           else if arg = ''use-odr-indicator''
           then (False, ADD_LLVM_MIDDLE_END_OPTION
                          (if neg then ''-sanitize-address-use-odr-indicator=0''
                           else ''-sanitize-address-use-odr-indicator'') st)
           else case OPT_GET_VAL arg ''destructor'' of
               Some val \<Rightarrow> (False, ADD_LLVM_MIDDLE_END_OPTION (''-sanitize-address-destructor='' @ val) st)
             | None \<Rightarrow>
           if arg = ''outline-instrumentation''
           then (True, ADD_LLVM_MIDDLE_END_OPTION
                         (if neg then ''-as-instrumentation-with-call-threshold''
                          else ''-as-instrumentation-with-call-threshold=0'') st)
           else (False, st))"

definition handle_tsan_options :: "string \<Rightarrow> bool \<Rightarrow> bool \<Rightarrow> driver \<Rightarrow> bool \<times> driver" where
  "handle_tsan_options arg is_mllvm_arg neg st =
     (if is_mllvm_arg then
        (if \<not> OPT_MATCH arg ''-tsan-'' then (False, st)
         else (True, push (''-ts-'' @ drop 6 arg) st))
      else if \<not> OPT_MATCH arg ''thread-'' then (False, st)
      else
        let arg = drop 7 arg
        in if arg = ''atomics'' then
             (if \<not> neg then (False, st) else (True, ADD_LLVM_MIDDLE_END_OPTION ''-ts-instrument-atomics=0'' st))
           else if arg = ''func-entry-exit'' then
             (if \<not> neg then (False, st)
              else (True, ADD_LLVM_MIDDLE_END_OPTION ''-ts-instrument-func-entry-exit=0'' st))
           else if arg = ''memory-access'' then
             (if \<not> neg then (False, st)
              else (True, ADD_LLVM_MIDDLE_END_OPTION ''-ts-instrument-memintrinsics=0''
                            (ADD_LLVM_MIDDLE_END_OPTION ''-ts-instrument-memory-accesses=0'' st)))
           else (False, st))"

definition handle_msan_options :: "string \<Rightarrow> bool \<Rightarrow> bool \<Rightarrow> driver \<Rightarrow> bool \<times> driver" where
  "handle_msan_options arg is_mllvm_arg neg st =
     (if is_mllvm_arg then
        (if \<not> OPT_MATCH arg ''-msan-'' then (False, st)
         else (True, push (''-ms-'' @ drop 6 arg) st))
      else if \<not> OPT_MATCH arg ''memory-'' then (False, st)
      else
        let arg = drop 7 arg
        in if arg = ''track-origins''
           then (True, ADD_LLVM_MIDDLE_END_OPTION
                         (if neg then ''-sanitize-memory-track-origins=0''
                          else ''-sanitize-memory-track-origins=2'') st)
           else case OPT_GET_VAL arg ''track-origins'' of
               Some val \<Rightarrow> (True, ADD_LLVM_MIDDLE_END_OPTION (''-sanitize-memory-track-origins='' @ val) st)
             | None \<Rightarrow>
           if arg = ''param-retval''
           then (True, ADD_LLVM_MIDDLE_END_OPTION
                         (if neg then ''-sanitize-memory-param-retval=0''
                          else ''-sanitize-memory-param-retval=1'') st)
           else (False, st))"

definition handle_ubsan_options :: "string \<Rightarrow> driver \<Rightarrow> bool \<times> driver" where
  "handle_ubsan_options opt st = (False, st)"

definition handle_all_options :: "string \<Rightarrow> bool \<Rightarrow> bool \<Rightarrow> driver \<Rightarrow> bool \<times> driver" where
  "handle_all_options arg is_mllvm_arg neg st =
     (let (a, st) = handle_asan_options arg is_mllvm_arg neg st;
          (t, st) = handle_tsan_options arg is_mllvm_arg neg st;
          (m, st) = handle_msan_options arg is_mllvm_arg neg st;
          (u, st) = handle_ubsan_options arg st
      in (a \<or> t \<or> m \<or> u, st))"

definition handle_sanitizer_options ::
  "wrapper_config \<Rightarrow> string \<Rightarrow> bool \<Rightarrow> SanitizerType \<Rightarrow> driver \<Rightarrow> bool \<times> driver" where
  "handle_sanitizer_options C arg is_mllvm_arg sanTy st =
     (let (a, recover) = handle_generic_sanitizer_options C arg (\<not> is_mllvm_arg) (recover_sanitizers st);
          st = st\<lparr>recover_sanitizers := recover\<rparr>;
          arg = opt_arg a; neg = opt_is_neg a
      in if opt_action a \<noteq> OPT_PENDING then (opt_action a = OPT_REMOVE, st)
         else case sanTy of
             ASan \<Rightarrow> handle_asan_options arg is_mllvm_arg neg st
           | TSan \<Rightarrow> handle_tsan_options arg is_mllvm_arg neg st
           | MSan \<Rightarrow> handle_msan_options arg is_mllvm_arg neg st
           | UBSan \<Rightarrow> handle_ubsan_options arg st
           | XSan \<Rightarrow> handle_all_options arg is_mllvm_arg neg st
           | _ \<Rightarrow> (False, st))"

section \<open>Pass options\<close>

definition asan_use_globals_gc :: "driver \<Rightarrow> bool" where
  "asan_use_globals_gc st =
     (if \<not> SanitizeAddressGlobalsDeadStripping st then False
      else case obj_format st of
          MachO \<Rightarrow> True | COFF \<Rightarrow> True | ELF \<Rightarrow> \<not> DisableIntegratedAS st | UnknownObjectFormat \<Rightarrow> False)"

definition add_pass_options :: "SanitizerType \<Rightarrow> driver \<Rightarrow> driver" where
  "add_pass_options sanTy st =
     (if sanTy = SanNone then st
      else
        let st =
              (if has_san (act_sanitizers st) ASan then
                 let st = (if \<not> asan_use_globals_gc st
                           then ADD_LLVM_MIDDLE_END_OPTION ''-asan-globals-gc=0'' st else st)
                 in if has_san (recover_sanitizers st) ASan
                    then ADD_LLVM_MIDDLE_END_OPTION ''-sanitize-recover-address'' st else st
               else st)
        in if has_san (act_sanitizers st) MSan \<and> has_san (recover_sanitizers st) MSan
           then ADD_LLVM_MIDDLE_END_OPTION ''-sanitize-recover-memory'' st else st)"

definition pass_plugin :: "SanitizerType \<Rightarrow> string option" where
  "pass_plugin sanTy =
     (case sanTy of ASan \<Rightarrow> Some ''ASanInstPass.so'' | TSan \<Rightarrow> Some ''TSanInstPass.so''
      | MSan \<Rightarrow> Some ''MSanInstPass.so'' | XSan \<Rightarrow> Some ''XSanInstPass.so'' | _ \<Rightarrow> None)"

definition disable_unless_active :: "SanitizerType \<Rightarrow> string \<Rightarrow> driver \<Rightarrow> driver" where
  "disable_unless_active san opt st =
     (if has_san (act_sanitizers st) san then st else ADD_LLVM_MIDDLE_END_OPTION opt st)"

definition regist_pass_plugin :: "wrapper_config \<Rightarrow> SanitizerType \<Rightarrow> driver \<Rightarrow> driver" where
  "regist_pass_plugin C sanTy st =
     (case pass_plugin sanTy of
        None \<Rightarrow> st
      | Some san_pass \<Rightarrow>
          let st = push ''-fno-discard-value-names'' st;
              san_pass = obj_path st @ ''/'' @ XSAN_PASS_DIR C @ ''/'' @ san_pass;
              st = pushes [''-fplugin='' @ san_pass, ''-fpass-plugin='' @ san_pass] st
          in if sanTy \<noteq> XSan then st
             else disable_unless_active MSan ''-xsan-disable-msan''
                    (disable_unless_active TSan ''-xsan-disable-tsan''
                      (disable_unless_active ASan ''-xsan-disable-asan'' st)))"

section \<open>The two passes over the arguments\<close>

definition target_format :: "string \<Rightarrow> ObjectFormatType" where
  "target_format val =
     (if strstr val ''apple'' then MachO else if strstr val ''linux'' then ELF
      else if strstr val ''mingw32'' then COFF else UnknownObjectFormat)"

text \<open>One argument of the first pass, with the one after it.\<close>

definition scan_other ::
  "SanitizerType \<Rightarrow> string \<Rightarrow> scan_flags \<times> driver \<Rightarrow> (scan_flags \<times> driver) wrapped" where
  "scan_other xsanTy cur s =
     (case s of (fl, st) \<Rightarrow>
        if cur = ''-shared-libsan'' then
          (if xsanTy = XSan \<and> has_san (act_sanitizers st) MSan
           then Inl (FATAL ''XSan with MSan does not support the shared runtime temporarily, as MSan does not support it either. Consider disable MSan from XSan if you want to use the shared runtime.'')
           else Inr (fl\<lparr>needs_shared_rt := True\<rparr>, st))
        else if cur = ''-lib-only'' then Inr (fl\<lparr>only_lib := True\<rparr>, st)
        else if cur = ''-no-integrated-as'' then Inr (fl, st\<lparr>DisableIntegratedAS := True\<rparr>)
        else case OPT_GET_VAL cur ''--target'' of
            Some val \<Rightarrow> Inr (fl, st\<lparr>obj_format := target_format val\<rparr>)
          | None \<Rightarrow>
              Inr (fl, if \<not> AsmAsSource st \<and> assembly_suffix cur then st\<lparr>AsmAsSource := True\<rparr> else st))"

definition scan_arg ::
  "SanitizerType \<Rightarrow> string \<times> string option \<Rightarrow> scan_flags \<times> driver \<Rightarrow> (scan_flags \<times> driver) wrapped" where
  "scan_arg xsanTy a s =
     (case (a, s) of ((cur, nxt), (fl, st)) \<Rightarrow>
        if cur = ''--driver-mode=g++'' then Inr (fl\<lparr>is_cxx := True\<rparr>, st)
        else if cur \<in> {''-m32'', ''armv7a-linux-androideabi'', ''-m64''} then Inr (fl, st)
        else and_then (handle_x_option cur nxt (AsmAsSource st)) (\<lambda>(is_x, asm).
          let st = st\<lparr>AsmAsSource := asm\<rparr>
          in if is_x then Inr (fl\<lparr>x_set := True\<rparr>, st)
             else if cur \<in> {''-fsanitize=address'', ''-fsanitize=memory''} then Inr (fl\<lparr>asan_set := True\<rparr>, st)
             else if strstr cur ''FORTIFY_SOURCE'' then Inr (fl\<lparr>fortify_set := True\<rparr>, st)
             else if cur = ''-E'' then Inr (fl\<lparr>preprocessor_only := True\<rparr>, st)
             else if cur \<in> {''-shared'', ''-dynamiclib''} then Inr (fl\<lparr>shared_linking := True\<rparr>, st)
             else if partial_link_option cur then Inr (fl\<lparr>partial_linking := True\<rparr>, st)
             else if cur = ''-c'' then Inr (fl\<lparr>have_c := True\<rparr>, st)
             else if prefix ''-O'' cur \<or> prefix ''-funroll-loops'' cur then Inr (fl, st)
             else scan_other xsanTy cur (fl, st)))"

text \<open>
  The second pass; \<open>prev\<close> is the argument before.  Skipping the value of a trailing
  \<open>-mllvm\<close> takes the counter of the loop below zero, so the loop runs past \<open>argv\<close>.
\<close>

definition dropped_linker_option :: "string \<Rightarrow> bool" where
  "dropped_linker_option cur \<longleftrightarrow> cur = ''-Wl,-z,defs'' \<or> cur = ''-Wl,--no-undefined''"

fun forward_args ::
  "wrapper_config \<Rightarrow> SanitizerType \<Rightarrow> string \<Rightarrow> string list \<Rightarrow> driver \<Rightarrow> driver wrapped" where
  "forward_args C xsanTy prev [] st = Inr st"
| "forward_args C xsanTy prev (cur # rest) st =
     (if dropped_linker_option cur then forward_args C xsanTy cur rest st
      else
        let (discard, st) = handle_sanitizer_options C cur (prev = ''-mllvm'') xsanTy st
        in if discard then forward_args C xsanTy cur rest st
           else if AsmAsSource st \<and> cur = ''-mllvm''
           then (case rest of [] \<Rightarrow> Inl out_of_arguments
                 | nxt # rest \<Rightarrow> forward_args C xsanTy nxt rest st)
           else forward_args C xsanTy cur rest (push cur st))"

definition use_sanitizer_params :: "scan_flags \<Rightarrow> driver \<Rightarrow> driver wrapped" where
  "use_sanitizer_params fl st =
     (let asan = getenv st ''X_USE_ASAN'' \<noteq> None; msan = getenv st ''X_USE_MSAN'' \<noteq> None;
          harden = getenv st ''X_HARDEN'' \<noteq> None
      in if asan_set fl then Inr st
         else if asan then
           (if msan then Inl (FATAL ''ASAN and MSAN are mutually exclusive'')
            else if harden then Inl (FATAL ''ASAN and X_HARDEN are mutually exclusive'')
            else Inr (pushes [''-U_FORTIFY_SOURCE'', ''-fsanitize=address''] st))
         else if msan then
           (if harden then Inl (FATAL ''MSAN and X_HARDEN are mutually exclusive'')
            else Inr (pushes [''-U_FORTIFY_SOURCE'', ''-fsanitize=memory''] st))
         else Inr st)"

definition initial_flags :: scan_flags where
  "initial_flags =
     \<lparr>is_cxx = False, fortify_set = False, asan_set = False, x_set = False, shared_linking = False,
      preprocessor_only = False, have_c = False, partial_linking = False, only_lib = False,
      needs_shared_rt = False, dump_active = False, livepatch_link_spec = False\<rparr>"

definition compiler_name :: "string \<Rightarrow> string option \<Rightarrow> string" where
  "compiler_name dflt alt = (case alt of None \<Rightarrow> dflt | Some cc \<Rightarrow> cc)"

definition edit_params :: "wrapper_config \<Rightarrow> string \<Rightarrow> string list \<Rightarrow> driver \<Rightarrow> driver wrapped" where
  "edit_params C argv0 args st =
     (let cxx = prefix ''xclang++'' (base_name argv0);
          cc = (if cxx then compiler_name ''clang++'' (getenv st ''X_CXX'')
                else compiler_name ''clang'' (getenv st ''X_CC''));
          st = pushes [cc, ''-Qunused-arguments''] (st\<lparr>cc_params := []\<rparr>)
      in and_then (detect_san_type C args (act_sanitizers st)) (\<lambda>(xsanTy, mask).
         and_then (fold_wrapped (scan_arg xsanTy) (with_next args)
                    (initial_flags\<lparr>is_cxx := cxx\<rparr>, st\<lparr>act_sanitizers := mask\<rparr>)) (\<lambda>(fl, st).
         let st = (if x_set fl then pushes [''-x'', ''none''] st else st)
         in and_then (init_sanitizer_setting C xsanTy st) (\<lambda>st.
            let st = (if only_lib fl then st else regist_pass_plugin C xsanTy st);
                st = (if have_c fl then st
                      else add_sanitizer_runtime C False xsanTy (is_cxx fl) (shared_linking fl)
                             (needs_shared_rt fl) st)
            in and_then (forward_args C xsanTy argv0 args st) (\<lambda>st.
               let st = (if only_lib fl then st else add_pass_options xsanTy st);
                   st = harden_params fl st
               in and_then (use_sanitizer_params fl st) (\<lambda>st.
                  let st = (if getenv st ''X_NO_BUILTIN'' = None then st else pushes no_builtin_params st)
                  in Inr (if have_c fl then st else pushes [''-fuse-ld=lld'', ''-L/usr/local/lib''] st)))))))"

section \<open>The entry point\<close>

datatype outcome = print_help | usage | execvp driver

definition initial_driver :: "(string \<Rightarrow> string option) \<Rightarrow> driver" where
  "initial_driver vars =
     \<lparr>act_sanitizers = 0, recover_sanitizers = 0, cc_params = [], obj_path = [], xsan_comb_name = [],
      environ = vars, AsmAsSource = False, DisableIntegratedAS = False,
      SanitizeAddressGlobalsDeadStripping = True, obj_format = ELF\<rparr>"

definition clang_main ::
  "wrapper_config \<Rightarrow> host \<Rightarrow> string \<Rightarrow> string list \<Rightarrow> (string \<Rightarrow> string option) \<Rightarrow> outcome wrapped" where
  "clang_main C H argv0 args vars =
     (if args = [''-h''] then Inr print_help
      else if args = [] then Inr usage
      else and_then (find_obj C H argv0 (initial_driver vars)) (\<lambda>st.
           and_then (edit_params C argv0 args st) (\<lambda>st. Inr (execvp st))))"

end
