(* ===== verification/Wrapper_Gcc.thy ===== *)
theory Wrapper_Gcc
  imports Wrapper_Clang
begin

text \<open>
  \<open>compiler/gcc_wrapper.c\<close>: the wrapper for GCC, which selects the runtime and leaves the
  instrumentation to the compiler.  Its static variable \<open>AsmAsSource\<close> is the field of the
  same name of \<open>driver\<close>; what it shares with the wrapper for Clang is taken from there.
\<close>

definition gcc_handle_asan_options :: "string \<Rightarrow> bool \<Rightarrow> bool" where
  "gcc_handle_asan_options arg neg = False"
definition gcc_handle_tsan_options :: "string \<Rightarrow> bool \<Rightarrow> bool" where
  "gcc_handle_tsan_options arg neg = False"
definition gcc_handle_ubsan_options :: "string \<Rightarrow> bool" where
  "gcc_handle_ubsan_options opt = False"

definition gcc_handle_sanitizer_options ::
  "wrapper_config \<Rightarrow> string \<Rightarrow> SanitizerType \<Rightarrow> driver \<Rightarrow> (bool \<times> driver) wrapped" where
  "gcc_handle_sanitizer_options C arg sanTy st =
     (let (a, recover) = handle_generic_sanitizer_options C arg True (recover_sanitizers st);
          st = st\<lparr>recover_sanitizers := recover\<rparr>;
          arg = opt_arg a; neg = opt_is_neg a
      in if opt_action a \<noteq> OPT_PENDING then Inr (opt_action a = OPT_REMOVE, st)
         else case sanTy of
             ASan \<Rightarrow> Inr (gcc_handle_asan_options arg neg, st)
           | TSan \<Rightarrow> Inr (gcc_handle_tsan_options arg neg, st)
           | UBSan \<Rightarrow> Inr (gcc_handle_ubsan_options arg, st)
           | XSan \<Rightarrow>
               (if has_san (act_sanitizers st) MSan
                then Inl (FATAL (CHR 0x27 # ''gcc-9.4.0 do not support '' @ quoted ''msan''))
                else Inr (gcc_handle_asan_options arg neg \<or> gcc_handle_tsan_options arg neg \<or>
                          gcc_handle_ubsan_options arg, st))
           | MSan \<Rightarrow> Inl (FATAL (''gcc-9.4.0 do not support '' @ quoted ''msan''))
           | _ \<Rightarrow> Inr (False, st))"

definition static_runtime :: "SanitizerType \<Rightarrow> string \<Rightarrow> scan_flags \<times> driver \<Rightarrow> (scan_flags \<times> driver) wrapped" where
  "static_runtime xsanTy cur s =
     (case s of (fl, st) \<Rightarrow>
        if xsanTy \<noteq> SanNone
        then Inl (FATAL (''The -xsan option is not compatible with '' @ cur @ ''.''))
        else Inr (fl\<lparr>needs_shared_rt := False\<rparr>, st))"

definition gcc_scan_other ::
  "SanitizerType \<Rightarrow> string \<Rightarrow> scan_flags \<times> driver \<Rightarrow> (scan_flags \<times> driver) wrapped" where
  "gcc_scan_other xsanTy cur s =
     (case s of (fl, st) \<Rightarrow>
        if cur = ''-static-libsan'' then Inr (fl\<lparr>needs_shared_rt := False\<rparr>, st)
        else if cur \<in> {''-static-libasan'', ''-static-libtsan'', ''-static-libubsan''}
        then static_runtime xsanTy cur (fl, st)
        else if cur = ''-lib-only'' then Inr (fl\<lparr>only_lib := True\<rparr>, st)
        else Inr (fl, if \<not> AsmAsSource st \<and> assembly_suffix cur then st\<lparr>AsmAsSource := True\<rparr> else st))"

definition gcc_scan_arg ::
  "SanitizerType \<Rightarrow> string \<times> string option \<Rightarrow> scan_flags \<times> driver \<Rightarrow> (scan_flags \<times> driver) wrapped" where
  "gcc_scan_arg xsanTy a s =
     (case (a, s) of ((cur, nxt), (fl, st)) \<Rightarrow>
        if cur \<in> {''-m32'', ''armv7a-linux-androideabi'', ''-m64''} then Inr (fl, st)
        else and_then (handle_x_option cur nxt (AsmAsSource st)) (\<lambda>(is_x, asm).
          let st = st\<lparr>AsmAsSource := asm\<rparr>
          in if is_x then Inr (fl\<lparr>x_set := True\<rparr>, st)
             else if cur \<in> {''-fsanitize=address'', ''-fsanitize=memory''} then Inr (fl\<lparr>asan_set := True\<rparr>, st)
             else if strstr cur ''FORTIFY_SOURCE'' then Inr (fl\<lparr>fortify_set := True\<rparr>, st)
             else if cur = ''-E'' then Inr (fl\<lparr>preprocessor_only := True\<rparr>, st)
             else if cur \<in> {''-shared'', ''-dynamiclib''} then Inr (fl\<lparr>shared_linking := True\<rparr>, st)
             else if partial_link_option cur then Inr (fl\<lparr>partial_linking := True\<rparr>, st)
             else if cur = ''-c'' \<or> cur = ''-S'' then Inr (fl\<lparr>have_c := True\<rparr>, st)
             else if prefix ''-O'' cur \<or> prefix ''-funroll-loops'' cur then Inr (fl, st)
             else if cur = ''-fdump-'' then Inr (fl\<lparr>dump_active := True\<rparr>, st)
             else if prefix ''-specs'' cur then Inr (fl\<lparr>livepatch_link_spec := True\<rparr>, st)
             else gcc_scan_other xsanTy cur (fl, st)))"

fun gcc_forward_args ::
  "wrapper_config \<Rightarrow> SanitizerType \<Rightarrow> string list \<Rightarrow> driver \<Rightarrow> driver wrapped" where
  "gcc_forward_args C xsanTy [] st = Inr st"
| "gcc_forward_args C xsanTy (cur # rest) st =
     (if dropped_linker_option cur \<or> cur = ''-static-libsan'' then gcc_forward_args C xsanTy rest st
      else and_then (gcc_handle_sanitizer_options C cur xsanTy st) (\<lambda>(discard, st).
             gcc_forward_args C xsanTy rest (if discard then st else push cur st)))"

definition gcc_use_sanitizer_params :: "scan_flags \<Rightarrow> driver \<Rightarrow> driver wrapped" where
  "gcc_use_sanitizer_params fl st =
     (let asan = getenv st ''X_USE_ASAN'' \<noteq> None; msan = getenv st ''X_USE_MSAN'' \<noteq> None;
          harden = getenv st ''X_HARDEN'' \<noteq> None
      in if asan_set fl then Inr st
         else if msan then Inl (FATAL ''gcc-9.4.0 do not support MSAN'')
         else if asan then
           (if harden then Inl (FATAL ''ASAN and X_HARDEN are mutually exclusive'')
            else Inr (pushes [''-U_FORTIFY_SOURCE'', ''-fsanitize=address''] st))
         else Inr st)"

text \<open>The parameters of a step that links.\<close>

definition gcc_link_params :: "wrapper_config \<Rightarrow> SanitizerType \<Rightarrow> scan_flags \<Rightarrow> driver \<Rightarrow> driver" where
  "gcc_link_params C xsanTy fl st =
     (if preprocessor_only fl \<or> have_c fl \<or> partial_linking fl then st
      else
        let st = pushes [''-B'', obj_path st] st;
            st = (if XSAN_USE_GCC_SPEC C \<and> \<not> livepatch_link_spec fl
                  then pushes [''-specs'', obj_path st @ ''/'' @ XSAN_SHARE_DIR C @ ''/'' @
                         (if is_cxx fl then XSAN_SPEC_GPP_NAME C else XSAN_SPEC_GCC_NAME C)] st
                  else st)
        in add_sanitizer_runtime C True xsanTy (is_cxx fl) (shared_linking fl) (needs_shared_rt fl) st)"

definition gcc_edit_params :: "wrapper_config \<Rightarrow> string \<Rightarrow> string list \<Rightarrow> driver \<Rightarrow> driver wrapped" where
  "gcc_edit_params C argv0 args st =
     (let cxx = prefix ''xg++'' (base_name argv0);
          alt = (if cxx then getenv st ''X_CXX'' else getenv st ''X_CC'');
          st = push (compiler_name (if cxx then ''g++'' else ''gcc'') alt) (st\<lparr>cc_params := []\<rparr>)
      in and_then (detect_san_type C args (act_sanitizers st)) (\<lambda>(xsanTy, mask).
         and_then (fold_wrapped (gcc_scan_arg xsanTy) (with_next args)
                    (initial_flags\<lparr>is_cxx := cxx, needs_shared_rt := True, livepatch_link_spec := alt \<noteq> None\<rparr>,
                     st\<lparr>act_sanitizers := mask\<rparr>)) (\<lambda>(fl, st).
         let st = (if XSAN_USE_GCC_SPEC C \<and> \<not> livepatch_link_spec fl
                   then unsetenv (XSAN_LIVEPATCH_GCC_LINK_SPEC_FLAG C) st
                   else setenv (XSAN_LIVEPATCH_GCC_LINK_SPEC_FLAG C) ''1'' st);
             st = (if x_set fl then pushes [''-x'', ''none''] st else st);
             st = (if dump_active fl then pushes [''-dumpbase'', []] st else st)
         in and_then (init_sanitizer_setting C xsanTy st) (\<lambda>st.
            let st = gcc_link_params C xsanTy fl st
            in and_then (gcc_forward_args C xsanTy args st) (\<lambda>st.
               and_then (gcc_use_sanitizer_params fl (harden_params fl st)) (\<lambda>st.
                 Inr (if getenv st ''X_NO_BUILTIN'' = None then st else pushes no_builtin_params st)))))))"

definition gcc_main ::
  "wrapper_config \<Rightarrow> host \<Rightarrow> string \<Rightarrow> string list \<Rightarrow> (string \<Rightarrow> string option) \<Rightarrow> outcome wrapped" where
  "gcc_main C H argv0 args vars =
     (if args = [''-h''] then Inr print_help
      else if args = [] then Inr usage
      else and_then (find_obj C H argv0 (initial_driver vars)) (\<lambda>st.
           and_then (gcc_edit_params C argv0 args st) (\<lambda>st. Inr (execvp st))))"

end
