(* ===== verification/Wrapper_Params.thy ===== *)
theory Wrapper_Params
  imports Wrapper_Gcc
begin

text \<open>
  The parameters the wrappers add: how many, and of what kind.  The locale counts them for
  any predicate that holds of every parameter the real compiler may see; it is interpreted
  with that set itself, for what is forwarded, and with the trivial one, for counting only.
\<close>

lemma and_then_simps [simp]: "and_then (Inl e) f = Inl e" "and_then (Inr x) f = f x"
  by (simp_all add: and_then_def)

lemma and_then_Inr: "and_then m f = Inr y \<longleftrightarrow> (\<exists>x. m = Inr x \<and> f x = Inr y)"
  by (cases m) simp_all

lemma fold_wrapped_Inr:
  assumes "fold_wrapped f xs s = Inr t" "\<And>x s s'. f x s = Inr s' \<Longrightarrow> R s s'"
    and "\<And>s. R s s" "\<And>s t u. R s t \<Longrightarrow> R t u \<Longrightarrow> R s u"
  shows "R s t"
  using assms(1)
proof (induction xs arbitrary: s)
  case (Cons x xs)
  from Cons.prems obtain s' where "f x s = Inr s'" "fold_wrapped f xs s' = Inr t"
    by (auto simp: and_then_Inr)
  then show ?case using Cons.IH assms(2,4) by blast
qed (use assms(3) in simp)

text \<open>The options only the wrappers understand.\<close>

definition wrapper_only :: "string \<Rightarrow> bool" where
  "wrapper_only p \<longleftrightarrow> p = ''-lib-only'' \<or> list_ex (\<lambda>opt. p = option_names opt) sanitizer_options"

lemma wrapper_only_iff:
  "wrapper_only p \<longleftrightarrow>
     p \<in> {''-lib-only'', ''-asan'', ''-tsan'', ''-msan'', ''-ubsan'', ''-xsan'', ''-xsan-only''}"
  by (auto simp: wrapper_only_def sanitizer_options_def)

lemma wrapper_only_slash: "CHR ''/'' \<in> set p \<Longrightarrow> \<not> wrapper_only p"
  by (auto simp: wrapper_only_iff)

text \<open>The first pass adds nothing.\<close>

definition keeps :: "scan_flags \<times> driver \<Rightarrow> (scan_flags \<times> driver) wrapped \<Rightarrow> bool" where
  "keeps s r \<longleftrightarrow> (\<forall>s'. r = Inr s' \<longrightarrow> cc_params (snd s') = cc_params (snd s))"

lemma keeps_if: "keeps s a \<Longrightarrow> keeps s b \<Longrightarrow> keeps s (if c then a else b)"
  by simp

lemma keeps_Inr: "cc_params st' = cc_params st \<Longrightarrow> keeps (fl, st) (Inr (fl', st'))"
  by (simp add: keeps_def)

lemma keeps_Inl: "keeps s (Inl e)"
  by (simp add: keeps_def)

lemma keeps_and_then: "(\<And>x. keeps s (f x)) \<Longrightarrow> keeps s (and_then m f)"
  unfolding keeps_def and_then_Inr by blast

lemma keeps_field: "keeps (fl, st\<lparr>AsmAsSource := b\<rparr>) r \<Longrightarrow> keeps (fl, st) r"
  by (simp add: keeps_def)

lemmas keeps_intros = keeps_if keeps_and_then keeps_Inl keeps_Inr

lemma scan_other_keeps: "keeps s (scan_other sanTy cur s)"
  unfolding scan_other_def
  by (cases s; cases "OPT_GET_VAL cur ''--target''"; simp only: prod.case option.case; intro keeps_intros) simp_all

lemma gcc_scan_other_keeps: "keeps s (gcc_scan_other sanTy cur s)"
  unfolding gcc_scan_other_def static_runtime_def
  by (cases s; simp only: prod.case; intro keeps_intros) simp_all

lemma scan_keeps: "keeps s (scan_arg sanTy a s)"
proof -
  obtain cur nxt fl st where as: "a = (cur, nxt)" "s = (fl, st)" by (cases a; cases s)
  show ?thesis
    unfolding scan_arg_def as prod.case Let_def case_prod_beta fst_conv snd_conv
    by (intro keeps_intros keeps_field [OF scan_other_keeps]; simp)
qed

lemma gcc_scan_keeps: "keeps s (gcc_scan_arg sanTy a s)"
proof -
  obtain cur nxt fl st where as: "a = (cur, nxt)" "s = (fl, st)" by (cases a; cases s)
  show ?thesis
    unfolding gcc_scan_arg_def as prod.case Let_def case_prod_beta fst_conv snd_conv
    by (intro keeps_intros keeps_field [OF gcc_scan_other_keeps]; simp)
qed

lemma scan_all_keeps:
  assumes "\<And>a s. keeps s (f a s)" "fold_wrapped f args s = Inr s'"
  shows "cc_params (snd s') = cc_params (snd s)"
  by (rule fold_wrapped_Inr [OF assms(2), where R = "\<lambda>s s'. cc_params (snd s') = cc_params (snd s)"])
     (use assms(1) in \<open>auto simp: keeps_def\<close>)

locale forwarded =
  fixes P :: "string \<Rightarrow> bool"
  assumes plain: "\<not> wrapper_only p \<Longrightarrow> P p"
begin

definition adds :: "nat \<Rightarrow> driver \<Rightarrow> driver \<Rightarrow> bool" where
  "adds k st st' \<longleftrightarrow> (\<exists>ps. cc_params st' = cc_params st @ ps \<and> length ps \<le> k \<and> list_all P ps)"

lemma adds_same: "cc_params st' = cc_params st \<Longrightarrow> adds k st st'"
  by (simp add: adds_def)

lemma adds_refl [simp]: "adds k st st"
  by (simp add: adds_same)

lemma adds_field [simp]: "adds k st (st\<lparr>SanitizeAddressGlobalsDeadStripping := b\<rparr>)"
  by (simp add: adds_same)

lemma adds_mono: "adds j st st' \<Longrightarrow> j \<le> k \<Longrightarrow> adds k st st'"
  by (auto simp: adds_def)

lemma adds_trans: "adds j st st' \<Longrightarrow> adds k st' st'' \<Longrightarrow> j + k \<le> n \<Longrightarrow> adds n st st''"
  unfolding adds_def by (elim exE, rename_tac p q, rule_tac x = "p @ q" in exI) auto

lemma adds_add [trans]: "adds j st st' \<Longrightarrow> adds k st' st'' \<Longrightarrow> adds (j + k) st st''"
  by (erule (1) adds_trans) simp

lemma adds_pushes: "list_all P ps \<Longrightarrow> length ps \<le> k \<Longrightarrow> adds k st (pushes ps st)"
  by (auto simp: adds_def pushes_def)

lemma adds_push: "P p \<Longrightarrow> 1 \<le> k \<Longrightarrow> adds k st (push p st)"
  by (auto simp: adds_def push_def)

lemma fixed: "P ''-mllvm''" "P ''-D__XSAN__''" "P (''-fsanitize='' @ x)" "P ''-fsanitize=undefined''"
  "P ''-fno-sanitize=function''"
  by (rule plain, simp add: wrapper_only_iff)+

lemma adds_llvm:
  assumes "\<not> wrapper_only opt" "2 \<le> k"
  shows "adds k st (ADD_LLVM_MIDDLE_END_OPTION opt st)"
proof (cases "AsmAsSource st")
  case False
  have "adds 2 st (push opt (push ''-mllvm'' st))"
    using assms(1) plain fixed(1) by (intro adds_trans [OF adds_push adds_push]) auto
  then show ?thesis using False assms(2) by (simp add: ADD_LLVM_MIDDLE_END_OPTION_def adds_mono)
qed (simp add: ADD_LLVM_MIDDLE_END_OPTION_def)

lemma adds_llvm2:
  assumes "\<not> wrapper_only o1" "\<not> wrapper_only o2"
  shows "adds 4 st (ADD_LLVM_MIDDLE_END_OPTION o2 (ADD_LLVM_MIDDLE_END_OPTION o1 st))"
  using assms by (intro adds_trans [OF adds_llvm [where k = 2] adds_llvm [where k = 2]]) auto

section \<open>Selecting the sanitizers and the link line\<close>

lemma adds_setenv: "adds k st (setenv key v st)" "adds k st (unsetenv key st)" "adds k st (append_env_var key v st)"
  by (simp_all add: adds_same setenv_def unsetenv_def append_env_var_def)

lemma adds_frontend_sanitizer:
  "frontend_sanitizer sanTy san c name opt st = Inr st' \<Longrightarrow> adds 1 st st'"
  using fixed(3) by (auto simp: frontend_sanitizer_def adds_push split: if_splits)

lemma adds_frontend_ubsan: "adds 5 st (frontend_ubsan st)"
proof -
  have three: "list_all P [''-fno-sanitize=object-size'', ''-fno-sanitize=bounds'', ''-fno-sanitize=null'']"
    by (auto intro!: plain simp: wrapper_only_iff)
  let ?a = "push ''-fsanitize=undefined'' st"
  have a: "adds 1 st ?a" by (simp add: adds_push fixed)
  have b: "adds 1 ?a (if c then push ''-fno-sanitize=function'' ?a else ?a)" for c
    by (simp add: adds_push fixed)
  have ab: "adds 2 st (if c then push ''-fno-sanitize=function'' ?a else ?a)" for c
    by (rule adds_trans [OF a b]) simp
  have "adds 3 x (pushes [''-fno-sanitize=object-size'', ''-fno-sanitize=bounds'', ''-fno-sanitize=null''] x)" for x
    by (rule adds_pushes [OF three]) simp
  from adds_trans [OF ab this, of 5] adds_mono [OF ab, of 5] show ?thesis
    by (simp add: frontend_ubsan_def Let_def)
qed

lemma adds_init:
  assumes "init_sanitizer_setting C sanTy st = Inr st'"
  shows "adds 9 st st'"
proof -
  let ?a = "if sanTy = XSan then push ''-D__XSAN__'' st else st"
  have a: "adds 1 st ?a" by (simp add: adds_push fixed)
  show ?thesis
  proof (cases "sanTy = SanNone \<or> sanTy = XSanOnly")
    case True
    then show ?thesis using assms a by (auto simp: init_sanitizer_setting_def)
  next
    case False
    let ?b = "setenv ''XSAN_COMPILE_MASK'' (decimal (unat (act_sanitizers ?a)))
      (?a\<lparr>xsan_comb_name := get_xsan_comb_name (act_sanitizers ?a)\<rparr>)"
    have ab: "adds 1 st ?b" using a by (auto simp: adds_def setenv_def)
    from assms False obtain s1 s2 s3 where
      "frontend_sanitizer sanTy ASan (XSAN_CONTAINS_ASAN C) ''asan'' ''address'' ?b = Inr s1"
      "frontend_sanitizer sanTy TSan (XSAN_CONTAINS_TSAN C) ''tsan'' ''thread'' s1 = Inr s2"
      "frontend_sanitizer sanTy MSan (XSAN_CONTAINS_MSAN C) ''msan'' ''memory'' s2 = Inr s3"
      and st': "cc_params st' = cc_params (frontend_ubsan s3)"
      by (auto simp: init_sanitizer_setting_def Let_def and_then_Inr setenv_def append_env_var_def
          split: if_splits)
    then have steps: "adds 1 ?b s1" "adds 1 s1 s2" "adds 1 s2 s3"
      by (blast intro: adds_frontend_sanitizer)+
    have "adds 2 st s1" by (rule adds_trans [OF ab steps(1)]) simp
    then have "adds 3 st s2" by (rule adds_trans [OF _ steps(2)]) simp
    then have "adds 4 st s3" by (rule adds_trans [OF _ steps(3)]) simp
    from adds_trans [OF this adds_frontend_ubsan, of 9] have "adds 9 st (frontend_ubsan s3)" by simp
    then show ?thesis by (simp add: adds_def st')
  qed
qed

lemma adds_wrap_link: "adds 1 st (add_wrap_link_option C g sanTy st)"
  by (auto simp: add_wrap_link_option_def intro!: adds_push plain wrapper_only_slash)

lemma adds_runtime: "adds 18 st (add_sanitizer_runtime C g sanTy cxx dso shared st)"
proof (cases "(XSAN_USE_LIVEPATCH C \<and> \<not> g) \<or> runtime_name sanTy = None")
  case False
  then obtain san where san: "runtime_name sanTy = Some san" and lp: "\<not> (XSAN_USE_LIVEPATCH C \<and> \<not> g)" by auto
  define s1 where "s1 = add_wrap_link_option C g sanTy st"
  define rt where "rt = rt_path C s1"
  define s2 where "s2 = (if shared \<and> sanTy \<in> {ASan, TSan, UBSan, XSan}
      then pushes [''-Wl,-rpath,'' @ rt, rt @ ''/libclang_rt.'' @ san @ ''.so''] s1 else s1)"
  define s3 where "s3 = (if sanTy = ASan \<or> sanTy = XSan then push ''-Wl,--whole-archive'' s2 else s2)"
  define s4 where "s4 = (if (sanTy = ASan \<or> sanTy = XSan) \<and> shared \<and> \<not> dso
      then push (rt @ ''/libclang_rt.'' @ san @ ''-preinit.a'') s3 else s3)"
  define s5 where "s5 = (if sanTy = ASan \<or> sanTy = XSan
      then pushes [rt @ ''/libclang_rt.'' @ san @ ''_static.a'', ''-Wl,--no-whole-archive''] s4 else s4)"
  define s6 where "s6 = pushes [''-Wl,--whole-archive'', rt @ ''/libclang_rt.'' @ san @ ''.a''] s5"
  define s7 where "s7 = (if cxx then push (rt @ ''/libclang_rt.'' @ san @ ''_cxx.a'') s6 else s6)"
  define s8 where "s8 = pushes [''-Wl,--no-whole-archive'',
      ''-Wl,--dynamic-list='' @ rt @ ''/libclang_rt.'' @ san @ ''.a.syms''] s7"
  define s9 where "s9 = (if cxx
      then push (''-Wl,--dynamic-list='' @ rt @ ''/libclang_rt.'' @ san @ ''_cxx.a.syms'') s8 else s8)"
  define s10 where "s10 = pushes [''-lpthread'', ''-lrt'', ''-lm'', ''-ldl'', ''-lresolv''] s9"
  have slash: "P (x @ CHR ''/'' # y)" for x y by (rule plain [OF wrapper_only_slash]) simp
  have wl: "P (''-Wl,'' @ x)" for x by (rule plain) (simp add: wrapper_only_iff)
  have libs: "list_all P [''-lpthread'', ''-lrt'', ''-lm'', ''-ldl'', ''-lresolv'']"
    by (auto intro!: plain simp: wrapper_only_iff)
  note wl = wl [simplified]
  have "adds 1 st s1" unfolding s1_def by (rule adds_wrap_link)
  also have "adds 2 s1 s2" unfolding s2_def by (auto intro!: adds_pushes slash wl)
  also have "adds 1 s2 s3" unfolding s3_def by (auto intro!: adds_push wl)
  also have "adds 1 s3 s4" unfolding s4_def by (auto intro!: adds_push slash)
  also have "adds 2 s4 s5" unfolding s5_def by (auto intro!: adds_pushes slash wl)
  finally have five: "adds 7 st s5" by (simp add: eval_nat_numeral)
  also have "adds 2 s5 s6" unfolding s6_def by (auto intro!: adds_pushes slash wl)
  also have "adds 1 s6 s7" unfolding s7_def by (auto intro!: adds_push slash)
  also have "adds 2 s7 s8" unfolding s8_def by (auto intro!: adds_pushes wl)
  also have "adds 1 s8 s9" unfolding s9_def by (auto intro!: adds_push wl)
  also have "adds 5 s9 s10" unfolding s10_def by (rule adds_pushes [OF libs]) simp
  finally have all: "adds 18 st s10" by (simp add: eval_nat_numeral)
  have "add_sanitizer_runtime C g sanTy cxx dso shared st = (if dso \<or> shared then s5 else s10)"
    using lp san
    by (auto simp: add_sanitizer_runtime_def Let_def s1_def s2_def s3_def s4_def s5_def s6_def s7_def s8_def
        s9_def s10_def rt_def)
  then show ?thesis using all adds_mono [OF five, of 18] by simp
qed (auto simp: add_sanitizer_runtime_def)

section \<open>The wrapper for Clang\<close>

lemma adds_handle_asan:
  "handle_asan_options arg m neg st = (d, st') \<Longrightarrow> adds 2 st st'"
  by (auto simp: handle_asan_options_def Let_def wrapper_only_iff intro!: adds_push adds_llvm plain
      split: if_splits option.splits)

lemma adds_handle_tsan:
  "handle_tsan_options arg m neg st = (d, st') \<Longrightarrow> adds 4 st st' \<and> (\<not> d \<longrightarrow> st' = st)"
  by (auto simp: handle_tsan_options_def Let_def wrapper_only_iff intro!: adds_push adds_llvm adds_llvm2 plain
      split: if_splits)

lemma adds_handle_msan:
  "handle_msan_options arg m neg st = (d, st') \<Longrightarrow> adds 2 st st' \<and> (\<not> d \<longrightarrow> st' = st)"
  by (auto simp: handle_msan_options_def Let_def wrapper_only_iff intro!: adds_push adds_llvm plain
      split: if_splits option.splits)

text \<open>At most one of the three handlers acts on an argument.\<close>

lemma handled_once:
  "OPT_MATCH arg ''-asan-'' \<or> OPT_MATCH arg ''address-'' \<Longrightarrow>
    handle_tsan_options arg m neg st = (False, st) \<and> handle_msan_options arg m neg st = (False, st)"
  "OPT_MATCH arg ''-tsan-'' \<or> OPT_MATCH arg ''thread-'' \<Longrightarrow> handle_msan_options arg m neg st = (False, st)"
  by (auto simp: handle_tsan_options_def handle_msan_options_def OPT_MATCH_def prefix_def)

lemma handle_asan_other:
  "\<not> (OPT_MATCH arg ''-asan-'' \<or> OPT_MATCH arg ''address-'') \<Longrightarrow> handle_asan_options arg m neg st = (False, st)"
  "\<not> (OPT_MATCH arg ''-tsan-'' \<or> OPT_MATCH arg ''thread-'') \<Longrightarrow> handle_tsan_options arg m neg st = (False, st)"
  by (simp_all add: handle_asan_options_def handle_tsan_options_def)

lemma adds_handle_all:
  assumes "handle_all_options arg m neg st = (d, st')"
  shows "adds 4 st st' \<and> (\<not> d \<longrightarrow> adds 2 st st')"
proof -
  obtain a s1 where a: "handle_asan_options arg m neg st = (a, s1)" by fastforce
  obtain t s2 where t: "handle_tsan_options arg m neg s1 = (t, s2)" by fastforce
  obtain o' s3 where o': "handle_msan_options arg m neg s2 = (o', s3)" by fastforce
  have r: "d = (a \<or> t \<or> o')" "st' = s3"
    using assms a t o' by (simp_all add: handle_all_options_def handle_ubsan_options_def)
  show ?thesis
  proof (cases "OPT_MATCH arg ''-asan-'' \<or> OPT_MATCH arg ''address-''")
    case True
    then have "s3 = s1" using t o' handled_once(1) by (metis prod.inject)
    then show ?thesis using r adds_handle_asan [OF a] adds_mono by auto
  next
    case False
    then have s1: "s1 = st" "\<not> a" using a handle_asan_other(1) by (metis prod.inject)+
    show ?thesis
    proof (cases "OPT_MATCH arg ''-tsan-'' \<or> OPT_MATCH arg ''thread-''")
      case True
      then have "s3 = s2" "\<not> o'" using o' handled_once(2) by (metis prod.inject)+
      then show ?thesis using r s1 adds_handle_tsan [OF t] by auto
    next
      case False
      then have "s2 = st" "\<not> t" using t s1 handle_asan_other(2) by (metis prod.inject)+
      then show ?thesis using r s1 adds_handle_msan [OF o'] adds_mono [of 2 st s3 4] by auto
    qed
  qed
qed

lemma adds_handle:
  assumes "handle_sanitizer_options C arg m sanTy st = (d, st')"
  shows "adds 4 st st'" "\<not> d \<Longrightarrow> adds 2 st st'" "wrapper_only arg \<Longrightarrow> d"
proof -
  obtain a rec where g: "handle_generic_sanitizer_options C arg (\<not> m) (recover_sanitizers st) = (a, rec)"
    by fastforce
  let ?st = "st\<lparr>recover_sanitizers := rec\<rparr>"
  have st: "adds k ?st st' \<Longrightarrow> adds k st st'" for k by (simp add: adds_def)
  show "wrapper_only arg \<Longrightarrow> d"
    using assms by (auto simp: handle_sanitizer_options_def handle_generic_sanitizer_options_def wrapper_only_def)
  have "adds 4 ?st st' \<and> (\<not> d \<longrightarrow> adds 2 ?st st')"
  proof (cases "opt_action a = OPT_PENDING")
    case False
    then show ?thesis using assms g by (simp add: handle_sanitizer_options_def)
  next
    case True
    with assms g have h: "(case sanTy of
             ASan \<Rightarrow> handle_asan_options (opt_arg a) m (opt_is_neg a) ?st
           | TSan \<Rightarrow> handle_tsan_options (opt_arg a) m (opt_is_neg a) ?st
           | MSan \<Rightarrow> handle_msan_options (opt_arg a) m (opt_is_neg a) ?st
           | UBSan \<Rightarrow> handle_ubsan_options (opt_arg a) ?st
           | XSan \<Rightarrow> handle_all_options (opt_arg a) m (opt_is_neg a) ?st
           | _ \<Rightarrow> (False, ?st)) = (d, st')"
      by (simp add: handle_sanitizer_options_def Let_def)
    show ?thesis
    proof (cases sanTy)
      case ASan
      then show ?thesis using h adds_handle_asan adds_mono [of 2 ?st st' 4] by auto
    next
      case TSan
      with h have "adds 4 ?st st'" "\<not> d \<longrightarrow> st' = ?st"
        using adds_handle_tsan [of "opt_arg a" m "opt_is_neg a" ?st d st'] by simp_all
      then show ?thesis by auto
    next
      case MSan
      then show ?thesis using h adds_handle_msan adds_mono [of 2 ?st st' 4] by auto
    next
      case XSan
      then show ?thesis using h adds_handle_all by auto
    qed (use h in \<open>auto simp: handle_ubsan_options_def\<close>)
  qed
  then show "adds 4 st st'" "\<not> d \<Longrightarrow> adds 2 st st'" using st by blast+
qed

lemma adds_forward:
  "forward_args C sanTy prev args st = Inr st' \<Longrightarrow> adds (4 * length args) st st'"
proof (induction C sanTy prev args st rule: forward_args.induct)
  case (2 C sanTy prev cur rest st)
  obtain d s where h: "handle_sanitizer_options C cur (prev = ''-mllvm'') sanTy st = (d, s)" by fastforce
  note handled = adds_handle [OF h]
  show ?case
  proof (cases "dropped_linker_option cur")
    case True
    then show ?thesis using "2.IH"(1) "2.prems" adds_mono by simp
  next
    case False
    note H = False h
    consider "d" | "\<not> d" "AsmAsSource s" "cur = ''-mllvm''" | "\<not> d" "\<not> (AsmAsSource s \<and> cur = ''-mllvm'')" by blast
    then show ?thesis
    proof cases
      case 1
      then have "forward_args C sanTy cur rest s = Inr st'" using "2.prems" H by simp
      then have "adds (4 * length rest) s st'" using "2.IH"(2) [OF False h [symmetric]] 1 by simp
      from adds_trans [OF handled(1) this] show ?thesis by simp
    next
      case 2
      then obtain nxt rest' where r: "rest = nxt # rest'" "forward_args C sanTy nxt rest' s = Inr st'"
        using "2.prems" H by (auto split: list.splits)
      then have "adds (4 * length rest') s st'" using "2.IH"(3) [OF False h [symmetric]] 2 by simp
      from adds_trans [OF handled(1) this] show ?thesis using r by simp
    next
      case 3
      have "adds 1 s (push cur s)" using handled(3) 3(1) plain by (intro adds_push) auto
      from adds_trans [OF handled(2) [OF 3(1)] this] have "adds 3 st (push cur s)" by simp
      moreover have "forward_args C sanTy cur rest (push cur s) = Inr st'" using "2.prems" H 3 by auto
      then have "adds (4 * length rest) (push cur s) st'"
        using "2.IH"(4) [OF False h [symmetric]] 3 by simp
      ultimately show ?thesis by (rule adds_trans) simp
    qed
  qed
qed simp

lemma adds_pass_options: "adds 6 st (add_pass_options sanTy st)"
proof -
  have opts: "\<not> wrapper_only ''-asan-globals-gc=0''" "\<not> wrapper_only ''-sanitize-recover-address''"
    "\<not> wrapper_only ''-sanitize-recover-memory''"
    by (simp_all add: wrapper_only_iff)
  define s1 where "s1 = (if has_san (act_sanitizers st) ASan \<and> \<not> asan_use_globals_gc st
      then ADD_LLVM_MIDDLE_END_OPTION ''-asan-globals-gc=0'' st else st)"
  define s2 where "s2 = (if has_san (act_sanitizers st) ASan \<and> has_san (recover_sanitizers s1) ASan
      then ADD_LLVM_MIDDLE_END_OPTION ''-sanitize-recover-address'' s1 else s1)"
  define s3 where "s3 = (if has_san (act_sanitizers s2) MSan \<and> has_san (recover_sanitizers s2) MSan
      then ADD_LLVM_MIDDLE_END_OPTION ''-sanitize-recover-memory'' s2 else s2)"
  have "adds 2 st s1" unfolding s1_def by (simp add: adds_llvm opts)
  also have "adds 2 s1 s2" unfolding s2_def by (simp add: adds_llvm opts)
  also have "adds 2 s2 s3" unfolding s3_def by (simp add: adds_llvm opts)
  finally have "adds 6 st s3" by simp
  moreover have "add_pass_options sanTy st = (if sanTy = SanNone then st else s3)"
    by (simp add: add_pass_options_def Let_def s1_def s2_def s3_def)
  ultimately show ?thesis by simp
qed

lemma adds_plugin: "adds 9 st (regist_pass_plugin C sanTy st)"
proof (cases "pass_plugin sanTy")
  case (Some san_pass)
  define s1 where "s1 = push ''-fno-discard-value-names'' st"
  define path where "path = obj_path s1 @ ''/'' @ XSAN_PASS_DIR C @ ''/'' @ san_pass"
  define s2 where "s2 = pushes [''-fplugin='' @ path, ''-fpass-plugin='' @ path] s1"
  define s3 where "s3 = disable_unless_active ASan ''-xsan-disable-asan'' s2"
  define s4 where "s4 = disable_unless_active TSan ''-xsan-disable-tsan'' s3"
  define s5 where "s5 = disable_unless_active MSan ''-xsan-disable-msan'' s4"
  have "adds 1 st s1" unfolding s1_def by (auto intro!: adds_push plain simp: wrapper_only_iff)
  also have "adds 2 s1 s2" unfolding s2_def by (auto intro!: adds_pushes plain simp: wrapper_only_iff)
  finally have three: "adds 3 st s2" by (simp add: eval_nat_numeral)
  also have "adds 2 s2 s3" unfolding s3_def disable_unless_active_def
    by (auto intro!: adds_llvm simp: wrapper_only_iff)
  also have "adds 2 s3 s4" unfolding s4_def disable_unless_active_def
    by (auto intro!: adds_llvm simp: wrapper_only_iff)
  also have "adds 2 s4 s5" unfolding s5_def disable_unless_active_def
    by (auto intro!: adds_llvm simp: wrapper_only_iff)
  finally have "adds 9 st s5" by simp
  moreover have "regist_pass_plugin C sanTy st = (if sanTy \<noteq> XSan then s2 else s5)"
    using Some by (simp add: regist_pass_plugin_def Let_def s1_def s2_def s3_def s4_def s5_def path_def push_def)
  ultimately show ?thesis using adds_mono [OF three, of 9] by simp
qed (simp add: regist_pass_plugin_def)

lemma adds_harden: "adds 2 st (harden_params fl st)"
proof -
  let ?a = "push ''-fstack-protector-all'' st"
  have a: "adds 1 st ?a" by (auto intro!: adds_push plain simp: wrapper_only_iff)
  have b: "adds 1 ?a (if fortify_set fl then ?a else push ''-D_FORTIFY_SOURCE=2'' ?a)"
    by (simp add: adds_push plain wrapper_only_iff)
  have "adds 2 st (if fortify_set fl then ?a else push ''-D_FORTIFY_SOURCE=2'' ?a)"
    by (rule adds_trans [OF a b]) simp
  then show ?thesis by (simp add: harden_params_def Let_def)
qed

lemma adds_use: "use_sanitizer_params fl st = Inr st' \<Longrightarrow> adds 2 st st'"
  "gcc_use_sanitizer_params fl st = Inr st' \<Longrightarrow> adds 2 st st'"
  by (auto simp: use_sanitizer_params_def gcc_use_sanitizer_params_def Let_def wrapper_only_iff
      intro!: adds_pushes plain split: if_splits)

lemma adds_no_builtin: "adds 8 st (pushes no_builtin_params st)"
  by (auto simp: no_builtin_params_def wrapper_only_iff intro!: adds_pushes plain)

lemma adds_none: "adds 2 st (if x then pushes [''-x'', ''none''] st else st)"
  by (auto simp: wrapper_only_iff intro!: adds_pushes plain)

text \<open>The parameters after the name of the compiler.\<close>

lemma adds_edit_params:
  assumes "edit_params C argv0 args st = Inr st'"
  shows "\<exists>cc ps. cc_params st' = cc # ps \<and> list_all P ps \<and> length ps \<le> 4 * length args + 59"
proof -
  define cc where "cc = (if prefix ''xclang++'' (base_name argv0)
      then compiler_name ''clang++'' (getenv st ''X_CXX'') else compiler_name ''clang'' (getenv st ''X_CC''))"
  define s0 where "s0 = pushes [cc, ''-Qunused-arguments''] (st\<lparr>cc_params := []\<rparr>)"
  from assms obtain sanTy m fl s1 where
    scan: "fold_wrapped (scan_arg sanTy) (with_next args)
      (initial_flags\<lparr>is_cxx := prefix ''xclang++'' (base_name argv0)\<rparr>, s0\<lparr>act_sanitizers := m\<rparr>) = Inr (fl, s1)"
    and rest: "and_then (init_sanitizer_setting C sanTy (if x_set fl then pushes [''-x'', ''none''] s1 else s1)) (\<lambda>st.
            let st = (if only_lib fl then st else regist_pass_plugin C sanTy st);
                st = (if have_c fl then st
                      else add_sanitizer_runtime C False sanTy (is_cxx fl) (shared_linking fl)
                             (needs_shared_rt fl) st)
            in and_then (forward_args C sanTy argv0 args st) (\<lambda>st.
               let st = (if only_lib fl then st else add_pass_options sanTy st);
                   st = harden_params fl st
               in and_then (use_sanitizer_params fl st) (\<lambda>st.
                  let st = (if getenv st ''X_NO_BUILTIN'' = None then st else pushes no_builtin_params st)
                  in Inr (if have_c fl then st else pushes [''-fuse-ld=lld'', ''-L/usr/local/lib''] st)))) = Inr st'"
    unfolding edit_params_def Let_def and_then_Inr cc_def [symmetric] s0_def [symmetric]
    by (auto simp: and_then_Inr Let_def split: prod.splits)
  let ?s2 = "if x_set fl then pushes [''-x'', ''none''] s1 else s1"
  from rest obtain s3 where s3: "init_sanitizer_setting C sanTy ?s2 = Inr s3"
    and rest3: "(let st = (if only_lib fl then s3 else regist_pass_plugin C sanTy s3);
                st = (if have_c fl then st
                      else add_sanitizer_runtime C False sanTy (is_cxx fl) (shared_linking fl)
                             (needs_shared_rt fl) st)
            in and_then (forward_args C sanTy argv0 args st) (\<lambda>st.
               let st = (if only_lib fl then st else add_pass_options sanTy st);
                   st = harden_params fl st
               in and_then (use_sanitizer_params fl st) (\<lambda>st.
                  let st = (if getenv st ''X_NO_BUILTIN'' = None then st else pushes no_builtin_params st)
                  in Inr (if have_c fl then st else pushes [''-fuse-ld=lld'', ''-L/usr/local/lib''] st)))) = Inr st'"
    unfolding and_then_Inr by blast
  define s4 where "s4 = (if only_lib fl then s3 else regist_pass_plugin C sanTy s3)"
  define s5 where "s5 = (if have_c fl then s4 else add_sanitizer_runtime C False sanTy (is_cxx fl)
      (shared_linking fl) (needs_shared_rt fl) s4)"
  from rest3 obtain s6 where s6: "forward_args C sanTy argv0 args s5 = Inr s6"
    and rest6: "(let st = (if only_lib fl then s6 else add_pass_options sanTy s6);
                   st = harden_params fl st
               in and_then (use_sanitizer_params fl st) (\<lambda>st.
                  let st = (if getenv st ''X_NO_BUILTIN'' = None then st else pushes no_builtin_params st)
                  in Inr (if have_c fl then st else pushes [''-fuse-ld=lld'', ''-L/usr/local/lib''] st))) = Inr st'"
    unfolding Let_def and_then_Inr s4_def [symmetric] s5_def [symmetric] by blast
  define s7 where "s7 = (if only_lib fl then s6 else add_pass_options sanTy s6)"
  from rest6 obtain s8 where s8: "use_sanitizer_params fl (harden_params fl s7) = Inr s8"
    and end8: "st' = (let st = (if getenv s8 ''X_NO_BUILTIN'' = None then s8 else pushes no_builtin_params s8)
                  in if have_c fl then st else pushes [''-fuse-ld=lld'', ''-L/usr/local/lib''] st)"
    unfolding Let_def and_then_Inr s7_def [symmetric] by auto
  define s9 where "s9 = (if getenv s8 ''X_NO_BUILTIN'' = None then s8 else pushes no_builtin_params s8)"
  have "adds 2 s1 ?s2" by (rule adds_none)
  also have "adds 9 ?s2 s3" by (rule adds_init [OF s3])
  also have "adds 9 s3 s4" unfolding s4_def using adds_plugin by simp
  also have "adds 18 s4 s5" unfolding s5_def using adds_runtime by simp
  also have "adds (4 * length args) s5 s6" by (rule adds_forward [OF s6])
  also have "adds 6 s6 s7" unfolding s7_def using adds_pass_options by simp
  also have "adds 2 s7 (harden_params fl s7)" by (rule adds_harden)
  also have "adds 2 (harden_params fl s7) s8" by (rule adds_use(1) [OF s8])
  also have "adds 8 s8 s9" unfolding s9_def using adds_no_builtin by simp
  also have "adds 2 s9 st'" unfolding end8 Let_def s9_def [symmetric]
    by (auto simp: wrapper_only_iff intro!: adds_pushes plain)
  finally have "adds (4 * length args + 58) s1 st'" by (simp add: eval_nat_numeral)
  moreover have "cc_params s1 = [cc, ''-Qunused-arguments'']"
    using scan_all_keeps [OF scan_keeps scan] by (simp add: s0_def pushes_def)
  moreover have "P ''-Qunused-arguments''" by (rule plain) (simp add: wrapper_only_iff)
  ultimately show ?thesis unfolding adds_def by auto
qed

section \<open>The wrapper for GCC\<close>

lemma gcc_handle:
  assumes "gcc_handle_sanitizer_options C arg sanTy st = Inr (d, st')"
  shows "cc_params st' = cc_params st" "wrapper_only arg \<Longrightarrow> d"
proof -
  obtain a rec where g: "handle_generic_sanitizer_options C arg True (recover_sanitizers st) = (a, rec)"
    by fastforce
  show "wrapper_only arg \<Longrightarrow> d"
    using assms by (auto simp: gcc_handle_sanitizer_options_def handle_generic_sanitizer_options_def wrapper_only_def)
  show "cc_params st' = cc_params st"
    using assms g
    by (auto simp: gcc_handle_sanitizer_options_def Let_def split: if_split_asm SanitizerType.split_asm)
qed

lemma adds_gcc_forward:
  "gcc_forward_args C sanTy args st = Inr st' \<Longrightarrow> adds (length args) st st'"
proof (induction args arbitrary: st)
  case (Cons cur rest)
  show ?case
  proof (cases "dropped_linker_option cur \<or> cur = ''-static-libsan''")
    case True
    then have "adds (length rest) st st'" using Cons by auto
    then show ?thesis by (rule adds_mono) simp
  next
    case False
    then obtain d s where h: "gcc_handle_sanitizer_options C cur sanTy st = Inr (d, s)"
      and r: "gcc_forward_args C sanTy rest (if d then s else push cur s) = Inr st'"
      using Cons.prems by (auto simp: and_then_Inr)
    have "adds 1 s (if d then s else push cur s)" using gcc_handle(2) [OF h] plain [of cur] by (auto intro!: adds_push)
    from adds_trans [OF adds_same [OF gcc_handle(1) [OF h], of 0] this, of 1]
    have "adds 1 st (if d then s else push cur s)" by simp
    from adds_trans [OF this Cons.IH [OF r]] show ?thesis by simp
  qed
qed simp

lemma adds_gcc_link:
  assumes "P (obj_path st)"
  shows "adds 22 st (gcc_link_params C sanTy fl st)"
proof -
  define s1 where "s1 = pushes [''-B'', obj_path st] st"
  define s2 where "s2 = (if XSAN_USE_GCC_SPEC C \<and> \<not> livepatch_link_spec fl
      then pushes [''-specs'', obj_path s1 @ ''/'' @ XSAN_SHARE_DIR C @ ''/'' @
             (if is_cxx fl then XSAN_SPEC_GPP_NAME C else XSAN_SPEC_GCC_NAME C)] s1
      else s1)"
  have specs: "P ''-specs''" "P (x @ CHR ''/'' # y)" for x y
    by (rule plain, simp add: wrapper_only_iff) (rule plain [OF wrapper_only_slash], simp)
  have "adds 2 st s1" unfolding s1_def
    by (rule adds_pushes) (use assms in \<open>auto intro: plain simp: wrapper_only_iff\<close>)
  also have "adds 2 s1 s2" unfolding s2_def by (simp add: adds_pushes specs)
  also have "adds 18 s2 (add_sanitizer_runtime C True sanTy (is_cxx fl) (shared_linking fl) (needs_shared_rt fl) s2)"
    by (rule adds_runtime)
  finally have "adds 22 st (add_sanitizer_runtime C True sanTy (is_cxx fl) (shared_linking fl) (needs_shared_rt fl) s2)"
    by (simp add: eval_nat_numeral)
  moreover have "gcc_link_params C sanTy fl st = (if preprocessor_only fl \<or> have_c fl \<or> partial_linking fl then st
      else add_sanitizer_runtime C True sanTy (is_cxx fl) (shared_linking fl) (needs_shared_rt fl) s2)"
    by (simp only: gcc_link_params_def Let_def s1_def s2_def)
  ultimately show ?thesis by simp
qed

end

text \<open>
  The parameters that are not wrapper options, and all parameters.
\<close>

interpretation clang_filter: forwarded "\<lambda>p. \<not> wrapper_only p"
  by unfold_locales

interpretation any_param: forwarded "\<lambda>p. True"
  by unfold_locales simp

lemma gcc_edit_params_length:
  assumes "gcc_edit_params C argv0 args st = Inr st'"
  shows "length (cc_params st') \<le> length args + 48"
proof -
  note adds = any_param.adds_trans
  define cxx where "cxx = prefix ''xg++'' (base_name argv0)"
  define alt where "alt = (if cxx then getenv st ''X_CXX'' else getenv st ''X_CC'')"
  define s0 where "s0 = push (compiler_name (if cxx then ''g++'' else ''gcc'') alt) (st\<lparr>cc_params := []\<rparr>)"
  from assms obtain sanTy m fl s1 where
    scan: "fold_wrapped (gcc_scan_arg sanTy) (with_next args)
      (initial_flags\<lparr>is_cxx := cxx, needs_shared_rt := True, livepatch_link_spec := alt \<noteq> None\<rparr>,
       s0\<lparr>act_sanitizers := m\<rparr>) = Inr (fl, s1)"
    and rest: "(let st = (if XSAN_USE_GCC_SPEC C \<and> \<not> livepatch_link_spec fl
                   then unsetenv (XSAN_LIVEPATCH_GCC_LINK_SPEC_FLAG C) s1
                   else setenv (XSAN_LIVEPATCH_GCC_LINK_SPEC_FLAG C) ''1'' s1);
             st = (if x_set fl then pushes [''-x'', ''none''] st else st);
             st = (if dump_active fl then pushes [''-dumpbase'', []] st else st)
         in and_then (init_sanitizer_setting C sanTy st) (\<lambda>st.
            let st = gcc_link_params C sanTy fl st
            in and_then (gcc_forward_args C sanTy args st) (\<lambda>st.
               and_then (gcc_use_sanitizer_params fl (harden_params fl st)) (\<lambda>st.
                 Inr (if getenv st ''X_NO_BUILTIN'' = None then st else pushes no_builtin_params st))))) = Inr st'"
    unfolding gcc_edit_params_def Let_def and_then_Inr cxx_def [symmetric] alt_def [symmetric] s0_def [symmetric]
    by (auto simp: and_then_Inr Let_def split: prod.splits)
  define s2 where "s2 = (if XSAN_USE_GCC_SPEC C \<and> \<not> livepatch_link_spec fl
                   then unsetenv (XSAN_LIVEPATCH_GCC_LINK_SPEC_FLAG C) s1
                   else setenv (XSAN_LIVEPATCH_GCC_LINK_SPEC_FLAG C) ''1'' s1)"
  define s3 where "s3 = (if x_set fl then pushes [''-x'', ''none''] s2 else s2)"
  define s4 where "s4 = (if dump_active fl then pushes [''-dumpbase'', []] s3 else s3)"
  from rest obtain s5 s6 s7 where s5: "init_sanitizer_setting C sanTy s4 = Inr s5"
    and s6: "gcc_forward_args C sanTy args (gcc_link_params C sanTy fl s5) = Inr s6"
    and s7: "gcc_use_sanitizer_params fl (harden_params fl s6) = Inr s7"
    and st': "st' = (if getenv s7 ''X_NO_BUILTIN'' = None then s7 else pushes no_builtin_params s7)"
    unfolding Let_def and_then_Inr s2_def [symmetric] s3_def [symmetric] s4_def [symmetric] by auto
  have "any_param.adds 0 s1 s2" unfolding s2_def by (simp add: any_param.adds_setenv)
  also have "any_param.adds 2 s2 s3" unfolding s3_def by (simp add: any_param.adds_pushes)
  also have "any_param.adds 2 s3 s4" unfolding s4_def by (simp add: any_param.adds_pushes)
  also have "any_param.adds 9 s4 s5" by (rule any_param.adds_init [OF s5])
  also have "any_param.adds 22 s5 (gcc_link_params C sanTy fl s5)" by (rule any_param.adds_gcc_link) simp
  also have "any_param.adds (length args) (gcc_link_params C sanTy fl s5) s6"
    by (rule any_param.adds_gcc_forward [OF s6])
  also have "any_param.adds 2 s6 (harden_params fl s6)" by (rule any_param.adds_harden)
  also have "any_param.adds 2 (harden_params fl s6) s7" by (rule any_param.adds_use(2) [OF s7])
  also have "any_param.adds 8 s7 st'" unfolding st' using any_param.adds_no_builtin by simp
  finally have "any_param.adds (length args + 47) s1 st'" by (simp add: eval_nat_numeral)
  moreover have "length (cc_params s1) = 1"
    using scan_all_keeps [OF gcc_scan_keeps scan] by (simp add: s0_def push_def)
  ultimately show ?thesis unfolding any_param.adds_def by auto
qed

end
