(* ===== verification/Wrapper_Props.thy ===== *)
theory Wrapper_Props
  imports Wrapper_Params
begin

unbundle bit_operations_syntax

text \<open>
  Properties of the compiler wrappers: which combinations of options are rejected, what
  reaches the real compiler, whether the parameters fit the array they are written to, and
  the inputs on which the wrappers do not do what their help text says.
\<close>

section \<open>Masks\<close>

lemma sanitizer_number_bound: "sanitizer_number s < 64"
  by (cases s) simp_all

lemma sanitizer_number_inject: "sanitizer_number s = sanitizer_number t \<longleftrightarrow> s = t"
  by (cases s; cases t) simp_all

lemma bit_san_bit: "bit (san_bit s) i \<longleftrightarrow> i = sanitizer_number s"
  using sanitizer_number_bound [of s] by (auto simp: san_bit_def bit_exp_iff)

lemma has_san_bit: "has_san m s \<longleftrightarrow> bit m (sanitizer_number s)"
proof -
  have "m AND san_bit s = 0 \<longleftrightarrow> \<not> bit m (sanitizer_number s)"
    unfolding bit_eq_iff using sanitizer_number_bound [of s] by (auto simp: bit_and_iff bit_san_bit)
  then show ?thesis by (simp add: has_san_def)
qed

lemma has_set_san [simp]: "has_san (set_san m s) t \<longleftrightarrow> t = s \<or> has_san m t"
  by (auto simp: has_san_bit set_san_def bit_or_iff bit_san_bit sanitizer_number_inject)

lemma has_clear_san [simp]:
  "has_san (clear_san m s) t \<longleftrightarrow> s \<noteq> XSan \<and> t \<noteq> s \<and> has_san m t"
  by (auto simp: has_san_bit clear_san_def bit_and_iff bit_not_iff bit_san_bit sanitizer_number_inject
      bit_imp_le_length sanitizer_number_bound)


lemma has_any_san: "has_san m s \<Longrightarrow> s \<notin> {XSan, SanNone} \<Longrightarrow> has_any m"
proof -
  assume "has_san m s" "s \<notin> {XSan, SanNone}"
  then have "bit (m AND NOT (san_bit XSan OR san_bit SanNone)) (sanitizer_number s)"
    using sanitizer_number_bound [of s]
    by (cases s) (auto simp: has_san_bit bit_and_iff bit_not_iff bit_or_iff bit_san_bit)
  then show "has_any m" unfolding has_any_def by auto
qed



section \<open>Exclusive options\<close>




definition all_supported :: "wrapper_config \<Rightarrow> bool" where
  "all_supported C \<longleftrightarrow> XSAN_CONTAINS_ASAN C \<and> XSAN_CONTAINS_TSAN C \<and> XSAN_CONTAINS_MSAN C \<and>
     XSAN_CONTAINS_UBSAN C"


lemma option_not_feature: "s \<in> set sanitizer_options \<Longrightarrow> feature_option (option_names s) = None"
  by (auto simp: sanitizer_options_def feature_option_def)

lemma fold_options:
  "fold_wrapped (\<lambda>opt st. if cur = option_names opt then apply_option C opt st else Inr st) sanitizer_options st =
    (if cur = ''-asan'' then apply_option C ASan st
     else if cur = ''-tsan'' then apply_option C TSan st
     else if cur = ''-msan'' then apply_option C MSan st
     else if cur = ''-ubsan'' then apply_option C UBSan st
     else if cur = ''-xsan'' then apply_option C XSan st
     else if cur = ''-xsan-only'' then apply_option C XSanOnly st
     else Inr st)"
  by (simp add: sanitizer_options_def and_then_def split: sum.splits)














text \<open>A build of the wrapper for the concrete instances below.\<close>

definition example_config :: wrapper_config where
  "example_config = \<lparr>XSAN_CONTAINS_ASAN = True, XSAN_CONTAINS_TSAN = True, XSAN_CONTAINS_MSAN = True,
     XSAN_CONTAINS_UBSAN = True, XSAN_PATH = ''/opt/xsan'', XSAN_HOST_ARCH_RT_DIR = ''rt'',
     XSAN_PASS_DIR = ''pass'', XSAN_SHARE_DIR = ''share'', XSAN_DSO_PATCH = ''patch.so'',
     XSAN_USE_LIVEPATCH = True, XSAN_USE_GCC_SPEC = True, XSAN_LIVEPATCH_GCC_LINK_SPEC_FLAG = ''SPEC'',
     XSAN_SPEC_GPP_NAME = ''gpp'', XSAN_SPEC_GCC_NAME = ''gcc''\<rparr>"

lemma example_supported: "all_supported example_config"
  by (simp add: all_supported_def example_config_def)


section \<open>What reaches the real compiler\<close>

lemma edit_paramsI:
  assumes "detect_san_type C args (act_sanitizers st) = Inr (ty, m)"
    and "fold_wrapped (scan_arg ty) (with_next args) (initial_flags\<lparr>is_cxx := prefix ''xclang++'' (base_name argv0)\<rparr>,
      st\<lparr>cc_params := [if prefix ''xclang++'' (base_name argv0) then compiler_name ''clang++'' (getenv st ''X_CXX'')
                else compiler_name ''clang'' (getenv st ''X_CC''), ''-Qunused-arguments''], act_sanitizers := m\<rparr>) = Inr (fl, s1)"
    and "init_sanitizer_setting C ty (if x_set fl then pushes [''-x'', ''none''] s1 else s1) = Inr s2"
    and "s3 = (if only_lib fl then s2 else regist_pass_plugin C ty s2)"
    and "s4 = (if have_c fl then s3
       else add_sanitizer_runtime C False ty (is_cxx fl) (shared_linking fl) (needs_shared_rt fl) s3)"
  shows "edit_params C argv0 args st =
    and_then (forward_args C ty argv0 args s4) (\<lambda>st.
               let st = (if only_lib fl then st else add_pass_options ty st);
                   st = harden_params fl st
               in and_then (use_sanitizer_params fl st) (\<lambda>st.
                  let st = (if getenv st ''X_NO_BUILTIN'' = None then st else pushes no_builtin_params st)
                  in Inr (if have_c fl then st else pushes [''-fuse-ld=lld'', ''-L/usr/local/lib''] st)))"
  unfolding edit_params_def assms(4,5) using assms(1,2,3) by (simp add: Let_def pushes_def)

lemma fold_wrapped_fixed:
  "(\<And>x. x \<in> set xs \<Longrightarrow> f x s = Inr s) \<Longrightarrow> fold_wrapped f xs s = Inr s"
  by (induction xs) simp_all

lemma with_next_fst: "a \<in> set (with_next args) \<Longrightarrow> fst a \<in> set args"
  unfolding with_next_def by (cases a) (auto dest: set_zip_leftD)

abbreviation no_access :: string where
  "no_access \<equiv> ''-fno-sanitize-thread-memory-access''"

lemma no_access_detect:
  assumes "all_supported C"
  shows "detect_san_type C (''-tsan'' # replicate n no_access) 0 = Inr (TSan, set_san 0 TSan)"
proof -
  have "detect_arg C ''-tsan'' (SanNone, 0) = Inr (TSan, set_san 0 TSan)"
    using assms unfolding detect_arg_def fold_options
    by (simp add: apply_option_def get_sanitizer_type_def support_subsanitizers_def all_supported_def
        feature_option_def)
  moreover have "detect_arg C no_access s = Inr s" for s
    unfolding detect_arg_def fold_options
    by (cases s) (simp add: feature_option_def OPT_GET_VAL_def OPT_MATCH_def)
  then have "fold_wrapped (detect_arg C) (replicate n no_access) s = Inr s" for s
    by (intro fold_wrapped_fixed) simp
  ultimately show ?thesis by (simp add: detect_san_type_def)
qed

lemma no_access_scan:
  "fold_wrapped (scan_arg TSan) (with_next (''-tsan'' # replicate n no_access)) (fl, st) = Inr (fl, st)"
proof (rule fold_wrapped_fixed)
  fix a assume "a \<in> set (with_next (''-tsan'' # replicate n no_access))"
  from with_next_fst [OF this] obtain nxt where "a = (''-tsan'', nxt) \<or> a = (no_access, nxt)" by (cases a) auto
  then show "scan_arg TSan a (fl, st) = Inr (fl, st)"
    by (elim disjE) (simp_all add: scan_arg_def handle_x_option_def strstr_def partial_link_option_def
        scan_other_def OPT_GET_VAL_def OPT_MATCH_def assembly_suffix_def strrchr_def)
qed

lemma no_access_forward:
  assumes "\<not> AsmAsSource st" "prev \<noteq> ''-mllvm''"
  shows "forward_args C TSan prev (replicate n no_access) st =
    Inr (pushes (concat (replicate n [''-mllvm'', ''-ts-instrument-memory-accesses=0'', ''-mllvm'',
           ''-ts-instrument-memintrinsics=0''])) st)"
  using assms
proof (induction n arbitrary: st prev)
  case (Suc n)
  have "handle_sanitizer_options C no_access False TSan st =
    (True, pushes [''-mllvm'', ''-ts-instrument-memory-accesses=0'', ''-mllvm'', ''-ts-instrument-memintrinsics=0''] st)"
    using Suc.prems
    by (simp add: handle_sanitizer_options_def handle_generic_sanitizer_options_def feature_option_def
        OPT_GET_VAL_def OPT_MATCH_def handle_tsan_options_def sanitizer_options_def pushes_def push_def Let_def
        ADD_LLVM_MIDDLE_END_OPTION_def)
  then show ?case using Suc by (simp add: dropped_linker_option_def pushes_def)
qed (simp add: pushes_def)


lemma has_san_zero [simp]: "\<not> has_san 0 s"
  by (simp add: has_san_bit)

lemma use_params_plain:
  "getenv st ''X_USE_ASAN'' = None \<Longrightarrow> getenv st ''X_USE_MSAN'' = None \<Longrightarrow> use_sanitizer_params fl st = Inr st"
  by (simp add: use_sanitizer_params_def Let_def)

lemma frontend_plain:
  "sanTy \<noteq> XSan \<Longrightarrow> frontend_sanitizer sanTy s c name opt st =
     Inr (if has_san (act_sanitizers st) s then push (''-fsanitize='' @ opt) st else st)"
  by (simp add: frontend_sanitizer_def)

text \<open>The variables that the steps between the scan and the last ones leave alone.\<close>

definition calm :: "driver \<Rightarrow> driver \<Rightarrow> bool" where
  "calm st st' \<longleftrightarrow> AsmAsSource st' = AsmAsSource st \<and>
     getenv st' ''X_USE_ASAN'' = getenv st ''X_USE_ASAN'' \<and> getenv st' ''X_USE_MSAN'' = getenv st ''X_USE_MSAN''"

lemma calm_refl [simp]: "calm st st"
  by (simp add: calm_def)

lemma calm_trans [trans]: "calm r s \<Longrightarrow> calm s t \<Longrightarrow> calm r t"
  by (simp add: calm_def)

lemma calm_push [simp]: "calm r (push p st) = calm r st" "calm r (pushes ps st) = calm r st"
  "calm r (ADD_LLVM_MIDDLE_END_OPTION opt st) = calm r st" "calm r (st\<lparr>xsan_comb_name := c\<rparr>) = calm r st"
  by (simp_all add: calm_def push_def pushes_def getenv_def ADD_LLVM_MIDDLE_END_OPTION_def)

lemma calm_setenv [simp]:
  "key \<noteq> ''X_USE_ASAN'' \<Longrightarrow> key \<noteq> ''X_USE_MSAN'' \<Longrightarrow> calm r (setenv key v st) = calm r st"
  "key \<noteq> ''X_USE_ASAN'' \<Longrightarrow> key \<noteq> ''X_USE_MSAN'' \<Longrightarrow> calm r (append_env_var key v st) = calm r st"
  by (simp_all add: calm_def setenv_def append_env_var_def getenv_def)

lemma calm_ubsan: "calm r (frontend_ubsan st) = calm r st"
  by (simp add: frontend_ubsan_def Let_def)

lemma calm_init:
  assumes "sanTy \<noteq> XSan" "calm r st"
  shows "\<exists>st'. init_sanitizer_setting C sanTy st = Inr st' \<and> calm r st'"
  using assms by (simp add: init_sanitizer_setting_def Let_def frontend_plain calm_ubsan)

lemma calm_plugin: "calm r st \<Longrightarrow> calm r (regist_pass_plugin C sanTy st)"
  by (simp add: regist_pass_plugin_def disable_unless_active_def Let_def split: option.split)

lemma calm_runtime: "calm r st \<Longrightarrow> calm r (add_sanitizer_runtime C g sanTy cxx dso shared st)"
  by (simp add: add_sanitizer_runtime_def add_wrap_link_option_def Let_def split: option.split)

lemma calm_pass: "calm r st \<Longrightarrow> calm r (add_pass_options sanTy st)"
  by (simp add: add_pass_options_def Let_def)

lemma calm_harden: "calm r st \<Longrightarrow> calm r (harden_params fl st)"
  by (simp add: harden_params_def Let_def)


text \<open>A run that passes the first pass without XSan only depends on the second pass.\<close>

lemma edit_params_run:
  assumes "detect_san_type C args (act_sanitizers st) = Inr (ty, m)" "ty \<noteq> XSan"
    and scan: "\<And>s. AsmAsSource s = AsmAsSource st \<Longrightarrow> fold_wrapped (scan_arg ty) (with_next args) (fl0, s) = Inr (fl, s\<lparr>AsmAsSource := asm\<rparr>)"
    and fl0: "fl0 = initial_flags\<lparr>is_cxx := prefix ''xclang++'' (base_name argv0)\<rparr>"
    and env: "getenv st ''X_USE_ASAN'' = None" "getenv st ''X_USE_MSAN'' = None"
  obtains s4 tail where "edit_params C argv0 args st = and_then (forward_args C ty argv0 args s4) tail"
    "AsmAsSource s4 = asm" "calm (st\<lparr>AsmAsSource := asm\<rparr>) s4"
    "\<And>s. calm s4 s \<Longrightarrow> \<exists>st' ps. tail s = Inr st' \<and> cc_params st' = cc_params s @ ps"
proof -
  let ?r = "st\<lparr>AsmAsSource := asm\<rparr>"
  define s0 where "s0 = st\<lparr>cc_params := [if prefix ''xclang++'' (base_name argv0)
      then compiler_name ''clang++'' (getenv st ''X_CXX'') else compiler_name ''clang'' (getenv st ''X_CC''),
      ''-Qunused-arguments''], act_sanitizers := m, AsmAsSource := asm\<rparr>"
  define s1 where "s1 = (if x_set fl then pushes [''-x'', ''none''] s0 else s0)"
  have "calm ?r s1" by (simp add: s1_def s0_def calm_def getenv_def pushes_def)
  then obtain s2 where s2: "init_sanitizer_setting C ty s1 = Inr s2" "calm ?r s2"
    using calm_init [OF assms(2)] by blast
  define s3 where "s3 = (if only_lib fl then s2 else regist_pass_plugin C ty s2)"
  define s4 where "s4 = (if have_c fl then s3
       else add_sanitizer_runtime C False ty (is_cxx fl) (shared_linking fl) (needs_shared_rt fl) s3)"
  define tail where "tail = (\<lambda>st.
               let st = (if only_lib fl then st else add_pass_options ty st);
                   st = harden_params fl st
               in and_then (use_sanitizer_params fl st) (\<lambda>st.
                  let st = (if getenv st ''X_NO_BUILTIN'' = None then st else pushes no_builtin_params st)
                  in Inr (if have_c fl then st else pushes [''-fuse-ld=lld'', ''-L/usr/local/lib''] st)))"
  have s4: "calm ?r s4" using s2(2) by (simp add: s4_def s3_def calm_plugin calm_runtime)
  have "edit_params C argv0 args st = and_then (forward_args C ty argv0 args s4) tail"
    unfolding tail_def
    by (rule edit_paramsI [OF assms(1) _ _ s3_def s4_def])
       (use scan [of "st\<lparr>cc_params := [if prefix ''xclang++'' (base_name argv0)
          then compiler_name ''clang++'' (getenv st ''X_CXX'') else compiler_name ''clang'' (getenv st ''X_CC''),
          ''-Qunused-arguments''], act_sanitizers := m\<rparr>"] s2(1) in \<open>simp_all add: fl0 s0_def s1_def\<close>)
  moreover have "\<exists>st' ps. tail s = Inr st' \<and> cc_params st' = cc_params s @ ps" if "calm s4 s" for s
  proof -
    define t1 where "t1 = (if only_lib fl then s else add_pass_options ty s)"
    have t: "calm ?r (harden_params fl t1)"
      using calm_trans [OF s4 that] by (simp add: t1_def calm_harden calm_pass)
    define t2 where "t2 = harden_params fl t1"
    define t3 where "t3 = (if getenv t2 ''X_NO_BUILTIN'' = None then t2 else pushes no_builtin_params t2)"
    define t4 where "t4 = (if have_c fl then t3 else pushes [''-fuse-ld=lld'', ''-L/usr/local/lib''] t3)"
    have "getenv t2 ''X_USE_ASAN'' = None" "getenv t2 ''X_USE_MSAN'' = None"
      using t env by (simp_all add: calm_def t2_def getenv_def)
    then have "tail s = Inr t4"
      by (simp add: tail_def t1_def [symmetric] t2_def [symmetric] use_params_plain Let_def t3_def t4_def)
    moreover have "any_param.adds 6 s t1" by (simp add: t1_def any_param.adds_pass_options)
    then have "any_param.adds 8 s t2" unfolding t2_def
      by (rule any_param.adds_trans [OF _ any_param.adds_harden]) simp
    moreover have "any_param.adds 10 t2 t4"
      by (rule any_param.adds_trans [where st' = t3 and j = 8 and k = 2])
         (simp_all add: t3_def t4_def any_param.adds_no_builtin any_param.adds_pushes)
    ultimately show ?thesis unfolding any_param.adds_def by auto
  qed
  ultimately show ?thesis using that s4 by (simp add: calm_def)
qed

section \<open>Concrete runs\<close>

lemma AsmAsSource_same: "\<not> AsmAsSource (s :: driver) \<Longrightarrow> s\<lparr>AsmAsSource := False\<rparr> = s"
  by (cases s) simp

lemma plain_run:
  assumes "all_supported C"
  shows "\<exists>st'. edit_params C argv0 [''-asan'', ''a.c''] (initial_driver (\<lambda>_. None)) = Inr st'"
proof -
  have "detect_arg C ''-asan'' (SanNone, 0) = Inr (ASan, set_san 0 ASan)" "detect_arg C ''a.c'' s = Inr s" for s
    using assms unfolding detect_arg_def fold_options
    by (cases s, simp add: apply_option_def get_sanitizer_type_def support_subsanitizers_def all_supported_def
        feature_option_def)+
  then have detect: "detect_san_type C [''-asan'', ''a.c''] (act_sanitizers (initial_driver (\<lambda>_. None))) = Inr (ASan, set_san 0 ASan)"
    by (simp add: detect_san_type_def initial_driver_def)
  have scan: "fold_wrapped (scan_arg ASan) (with_next [''-asan'', ''a.c'']) (fl, s) = Inr (fl, s)" for fl s
    by (simp add: with_next_def scan_arg_def handle_x_option_def strstr_def partial_link_option_def
        scan_other_def OPT_GET_VAL_def OPT_MATCH_def assembly_suffix_def strrchr_def)
  obtain s4 tail where run: "edit_params C argv0 [''-asan'', ''a.c''] (initial_driver (\<lambda>_. None)) =
      and_then (forward_args C ASan argv0 [''-asan'', ''a.c''] s4) tail"
    and tail: "\<And>s. calm s4 s \<Longrightarrow> \<exists>st' ps. tail s = Inr st' \<and> cc_params st' = cc_params s @ ps"
    by (rule edit_params_run [OF detect _ _ refl, where asm = False and ?argv0.0 = argv0])
       (simp_all add: scan getenv_def initial_driver_def AsmAsSource_same)
  have "forward_args C ASan argv0 [''-asan'', ''a.c''] s4 = Inr (push ''a.c'' s4)"
    by (simp add: dropped_linker_option_def handle_sanitizer_options_def handle_generic_sanitizer_options_def
      sanitizer_options_def feature_option_def Let_def push_def)
  then show ?thesis using run tail [of "push ''a.c'' s4"] by auto
qed

lemma asm_run:
  "edit_params C argv0 [''a.s'', ''-mllvm''] (initial_driver (\<lambda>_. None)) = Inl out_of_arguments"
proof -
  have "detect_arg C ''a.s'' s = Inr s" "detect_arg C ''-mllvm'' s = Inr s" for s
    unfolding detect_arg_def fold_options by (cases s, simp add: feature_option_def)+
  then have detect: "detect_san_type C [''a.s'', ''-mllvm''] (act_sanitizers (initial_driver (\<lambda>_. None))) = Inr (SanNone, 0)"
    by (simp add: detect_san_type_def initial_driver_def has_conflict_def sanitizer_types_def)
  have scan: "fold_wrapped (scan_arg SanNone) (with_next [''a.s'', ''-mllvm'']) (fl, s) = Inr (fl, s\<lparr>AsmAsSource := True\<rparr>)" for fl s
    by (simp add: with_next_def scan_arg_def handle_x_option_def strstr_def partial_link_option_def
        scan_other_def OPT_GET_VAL_def OPT_MATCH_def assembly_suffix_def strrchr_def)
  obtain s4 tail where run: "edit_params C argv0 [''a.s'', ''-mllvm''] (initial_driver (\<lambda>_. None)) =
      and_then (forward_args C SanNone argv0 [''a.s'', ''-mllvm''] s4) tail" "AsmAsSource s4"
    by (rule edit_params_run [OF detect _ scan refl]) (simp_all add: getenv_def initial_driver_def)
  have "forward_args C SanNone argv0 [''a.s'', ''-mllvm''] s4 = Inl out_of_arguments"
    using run(2) by (simp add: dropped_linker_option_def handle_sanitizer_options_def handle_generic_sanitizer_options_def
      sanitizer_options_def feature_option_def Let_def push_def)
  then show ?thesis by (simp add: run(1))
qed

lemma overflow_run:
  assumes "all_supported C"
  shows "\<exists>st'. edit_params C argv0 (''-tsan'' # replicate n no_access) (initial_driver (\<lambda>_. None)) = Inr st' \<and>
    4 * n \<le> length (cc_params st')"
proof -
  let ?args = "''-tsan'' # replicate n no_access"
  have detect: "detect_san_type C ?args (act_sanitizers (initial_driver (\<lambda>_. None))) = Inr (TSan, set_san 0 TSan)"
    by (simp add: no_access_detect [OF assms] initial_driver_def)
  obtain s4 tail where run: "edit_params C argv0 ?args (initial_driver (\<lambda>_. None)) =
      and_then (forward_args C TSan argv0 ?args s4) tail" "\<not> AsmAsSource s4"
    "\<And>s. calm s4 s \<Longrightarrow> \<exists>st' ps. tail s = Inr st' \<and> cc_params st' = cc_params s @ ps"
    by (rule edit_params_run [OF detect _ _ refl, where asm = False and ?argv0.0 = argv0])
       (simp_all add: no_access_scan getenv_def initial_driver_def AsmAsSource_same)
  let ?ps = "concat (replicate n [''-mllvm'', ''-ts-instrument-memory-accesses=0'', ''-mllvm'',
    ''-ts-instrument-memintrinsics=0''])"
  have "forward_args C TSan argv0 ?args s4 = forward_args C TSan ''-tsan'' (replicate n no_access) s4"
    by (simp add: dropped_linker_option_def handle_sanitizer_options_def handle_generic_sanitizer_options_def
      sanitizer_options_def)
  also have "\<dots> = Inr (pushes ?ps s4)" using run(2) by (rule no_access_forward) simp
  finally have "edit_params C argv0 ?args (initial_driver (\<lambda>_. None)) = tail (pushes ?ps s4)" using run(1) by simp
  moreover obtain st' ps where "tail (pushes ?ps s4) = Inr st'" "cc_params st' = cc_params (pushes ?ps s4) @ ps"
    using run(3) [of "pushes ?ps s4"] by auto
  moreover have "length ?ps = 4 * n" by (simp add: length_concat sum_list_replicate)
  ultimately show ?thesis by (simp add: pushes_def)
qed

section \<open>Guarantees and gaps\<close>

text \<open>C34: No parameter after the name of the compiler is an option that only the wrapper
  understands: whatever the command line, the environment and the configuration, if the
  wrapper for Clang reaches \<open>execvp\<close>, then \<open>-asan\<close>, \<open>-xsan\<close>, \<open>-lib-only\<close> and the others were
  consumed.\<close>
theorem wrapper_options_consumed:
  assumes "edit_params C argv0 args st = Inr st'"
  shows "set (tl (cc_params st')) \<inter>
    {''-lib-only'', ''-asan'', ''-tsan'', ''-msan'', ''-ubsan'', ''-xsan'', ''-xsan-only''} = {}"
proof -
  obtain cc ps where "cc_params st' = cc # ps" "list_all (\<lambda>p. \<not> wrapper_only p) ps"
    using clang_filter.adds_edit_params [OF assms] by blast
  then show ?thesis unfolding list_all_iff wrapper_only_iff by auto
qed

lemma wrapper_options_consumed_witness:
  "\<exists>st'. edit_params example_config ''xclang'' [''-asan'', ''a.c''] (initial_driver (\<lambda>_. None)) = Inr st' \<and>
    ''-asan'' \<notin> set (tl (cc_params st'))"
proof -
  obtain st' where run: "edit_params example_config ''xclang'' [''-asan'', ''a.c''] (initial_driver (\<lambda>_. None)) = Inr st'"
    using plain_run [OF example_supported] by blast
  show ?thesis using run wrapper_options_consumed [OF run] by blast
qed

text \<open>Both wrappers write their parameters to an array of a size fixed before they look at
  the arguments: \<open>argc + 128\<close> pointers for GCC, \<open>argc + 256\<close> for Clang, where \<open>argc\<close> counts the
  name of the program too.  For GCC the parameters and the null pointer after them always
  fit; for Clang they fit for up to 65 arguments.\<close>
theorem parameters_fit:
  "(\<forall>st'. gcc_edit_params C argv0 args st = Inr st' \<longrightarrow>
      length (cc_params st') + 1 \<le> (1 + length args) + 128) \<and>
   (\<forall>st'. edit_params C argv0 args st = Inr st' \<and> length args \<le> 65 \<longrightarrow>
      length (cc_params st') + 1 \<le> (1 + length args) + 256)"
proof (intro conjI allI impI; (elim conjE)?)
  fix st' assume "gcc_edit_params C argv0 args st = Inr st'"
  from gcc_edit_params_length [OF this] show "length (cc_params st') + 1 \<le> (1 + length args) + 128" by simp
next
  fix st' assume "edit_params C argv0 args st = Inr st'" "length args \<le> 65"
  then obtain cc ps where "cc_params st' = cc # ps" "length ps \<le> 4 * length args + 59"
    using any_param.adds_edit_params by blast
  then show "length (cc_params st') + 1 \<le> (1 + length args) + 256" using \<open>length args \<le> 65\<close> by simp
qed

lemma gcc_run: "\<exists>st'. gcc_edit_params example_config argv0 [''a.c''] (initial_driver (\<lambda>_. None)) = Inr st'"
proof -
  have "detect_arg example_config ''a.c'' s = Inr s" for s
    unfolding detect_arg_def fold_options by (cases s) (simp add: feature_option_def)
  then have detect: "detect_san_type example_config [''a.c''] 0 = Inr (SanNone, 0)"
    by (simp add: detect_san_type_def has_conflict_def sanitizer_types_def)
  have scan: "fold_wrapped (gcc_scan_arg SanNone) (with_next [''a.c'']) s = Inr s" for s
    by (cases s) (simp add: with_next_def gcc_scan_arg_def handle_x_option_def strstr_def partial_link_option_def
        gcc_scan_other_def assembly_suffix_def strrchr_def)
  have forward: "gcc_forward_args example_config SanNone [''a.c''] s = Inr (push ''a.c'' s)" for s
    by (simp add: dropped_linker_option_def gcc_handle_sanitizer_options_def handle_generic_sanitizer_options_def
      sanitizer_options_def feature_option_def Let_def)
  have init: "init_sanitizer_setting example_config SanNone s = Inr s" for s
    by (simp add: init_sanitizer_setting_def)
  let ?r = "initial_driver (\<lambda>_. None)"
  have use: "calm ?r s \<Longrightarrow> gcc_use_sanitizer_params fl s = Inr s" for fl s
    by (simp add: gcc_use_sanitizer_params_def calm_def getenv_def initial_driver_def Let_def)
  have link: "calm ?r s \<Longrightarrow> calm ?r (gcc_link_params example_config SanNone fl s)" for s fl
    by (simp add: gcc_link_params_def Let_def calm_runtime)
  have flag: "XSAN_LIVEPATCH_GCC_LINK_SPEC_FLAG example_config = ''SPEC''" by (simp add: example_config_def)
  have env: "calm ?r s \<Longrightarrow> calm ?r (unsetenv ''SPEC'' s)" for s
    by (simp add: calm_def unsetenv_def getenv_def)
  have start: "calm ?r (?r\<lparr>cc_params := ps, act_sanitizers := m\<rparr>)" for ps m
    by (simp add: calm_def getenv_def)
  have vars: "getenv ?r k = None" for k by (simp add: getenv_def initial_driver_def)
  have no_x: "\<not> x_set initial_flags" "\<not> dump_active initial_flags" by (simp_all add: initial_flags_def)
  have act: "act_sanitizers ?r = 0" by (simp add: initial_driver_def)
  show ?thesis
    by (simp add: gcc_edit_params_def detect scan forward init act use link flag env start push_def [of _ "?r\<lparr>cc_params := []\<rparr>"]
        calm_harden Let_def vars no_x del: gcc_forward_args.simps fold_wrapped.simps)
qed

lemma parameters_fit_witness:
  "(\<exists>st'. gcc_edit_params example_config ''xgcc'' [''a.c''] (initial_driver (\<lambda>_. None)) = Inr st' \<and>
      length (cc_params st') \<le> 129) \<and>
   (\<exists>st'. edit_params example_config ''xclang'' [''-asan'', ''a.c''] (initial_driver (\<lambda>_. None)) = Inr st' \<and>
      length (cc_params st') \<le> 258)"
proof -
  obtain g where g: "gcc_edit_params example_config ''xgcc'' [''a.c''] (initial_driver (\<lambda>_. None)) = Inr g"
    using gcc_run by blast
  obtain c where c: "edit_params example_config ''xclang'' [''-asan'', ''a.c''] (initial_driver (\<lambda>_. None)) = Inr c"
    using plain_run [OF example_supported] by blast
  have "length (cc_params g) \<le> 129"
    using parameters_fit [of example_config "''xgcc''" "[''a.c'']" "initial_driver (\<lambda>_. None)"] g by auto
  moreover have "length (cc_params c) \<le> 258"
    using parameters_fit [of example_config "''xclang''" "[''-asan'', ''a.c'']" "initial_driver (\<lambda>_. None)"] c
    by auto
  ultimately show ?thesis using g c by blast
qed

text \<open>C35: Four inputs on which the wrappers go wrong.  \<open>-asan -ubsan\<close> forgets UBSan although
  \<open>-ubsan -asan\<close> does not; \<open>-xsan-only -ubsan\<close> is UBSan alone; an assembler source followed by
  a trailing \<open>-mllvm\<close>, and a trailing \<open>-x\<close>, read past the arguments; and a hundred options
  that expand to four parameters each overflow the array of \<open>argc + 256\<close> pointers.\<close>
theorem wrapper_gaps:
  assumes "all_supported C"
  shows "(\<exists>m. detect_san_type C [''-asan'', ''-ubsan''] 0 = Inr (ASan, m) \<and> \<not> has_san m UBSan) \<and>
    (\<exists>m. detect_san_type C [''-ubsan'', ''-asan''] 0 = Inr (ASan, m) \<and> has_san m UBSan) \<and>
    (\<exists>m. detect_san_type C [''-xsan-only'', ''-ubsan''] 0 = Inr (UBSan, m)) \<and>
    edit_params C argv0 [''a.s'', ''-mllvm''] (initial_driver (\<lambda>_. None)) = Inl out_of_arguments \<and>
    edit_params C argv0 [''a.c'', ''-x''] (initial_driver (\<lambda>_. None)) = Inl out_of_arguments \<and>
    (\<exists>st'. edit_params C argv0 (''-tsan'' # replicate 100 ''-fno-sanitize-thread-memory-access'')
              (initial_driver (\<lambda>_. None)) = Inr st' \<and>
       length (cc_params st') > (1 + 101) + 256)"
proof (intro conjI)
  note support = assms [unfolded all_supported_def]
  note defs = detect_san_type_def detect_arg_def fold_options apply_option_def get_sanitizer_type_def
    support_subsanitizers_def feature_option_def Let_def
  have any: "has_any (set_san 0 ASan)" by (rule has_any_san [of _ ASan]) simp_all
  have none: "\<not> has_any 0" "\<not> has_any (set_san 0 XSan)" by (simp_all add: has_any_def set_san_def san_bit_def)
  show "\<exists>m. detect_san_type C [''-asan'', ''-ubsan''] 0 = Inr (ASan, m) \<and> \<not> has_san m UBSan"
    using support any by (simp add: defs)
  show "\<exists>m. detect_san_type C [''-ubsan'', ''-asan''] 0 = Inr (ASan, m) \<and> has_san m UBSan"
    using support none by (simp add: defs)
  show "\<exists>m. detect_san_type C [''-xsan-only'', ''-ubsan''] 0 = Inr (UBSan, m)"
    using support none by (simp add: defs)
  show "edit_params C argv0 [''a.s'', ''-mllvm''] (initial_driver (\<lambda>_. None)) = Inl out_of_arguments"
    by (rule asm_run)
  show "edit_params C argv0 [''a.c'', ''-x''] (initial_driver (\<lambda>_. None)) = Inl out_of_arguments"
  proof -
    have "detect_arg C ''a.c'' s = Inr s" "detect_arg C ''-x'' s = Inr s" for s
      unfolding detect_arg_def fold_options by (cases s, simp add: feature_option_def)+
    then have "detect_san_type C [''a.c'', ''-x''] 0 = Inr (SanNone, 0)"
      by (simp add: detect_san_type_def has_conflict_def sanitizer_types_def)
    moreover have "fold_wrapped (scan_arg SanNone) (with_next [''a.c'', ''-x'']) s = Inl out_of_arguments" for s
      by (cases s) (simp add: with_next_def scan_arg_def handle_x_option_def strstr_def partial_link_option_def
          scan_other_def OPT_GET_VAL_def OPT_MATCH_def assembly_suffix_def strrchr_def)
    ultimately show ?thesis by (simp add: edit_params_def Let_def initial_driver_def pushes_def)
  qed
  show "\<exists>st'. edit_params C argv0 (''-tsan'' # replicate 100 ''-fno-sanitize-thread-memory-access'')
              (initial_driver (\<lambda>_. None)) = Inr st' \<and> length (cc_params st') > (1 + 101) + 256"
  proof -
    obtain st' where "edit_params C argv0 (''-tsan'' # replicate 100 no_access) (initial_driver (\<lambda>_. None)) = Inr st'"
      "4 * 100 \<le> length (cc_params st')"
      using overflow_run [OF assms, of argv0 100] by blast
    then show ?thesis by (intro exI [of _ st'] conjI) simp_all
  qed
qed

lemma wrapper_gaps_witness:
  "\<exists>m. detect_san_type example_config [''-xsan-only'', ''-ubsan''] 0 = Inr (UBSan, m)"
  using wrapper_gaps [OF example_supported] by blast

end
