(* ===== verification/Tsan_Inst.thy ===== *)
theory Tsan_Inst
  imports Active_Mop "HOL-Library.Sublist"
begin

unbundle bit_operations_syntax

text \<open>
  TSan's instrumentation pass (\<open>instrumentation/ThreadSanitizer.cpp\<close>): which loads and stores
  get a call into the runtime (\<open>chooseInstructionsToInstrument\<close>), which runtime function is
  called for each, what replaces an atomic operation, and how XSan's variant of the pass takes
  its targets from \<open>TsanTargetsToInstrumentAnalysis\<close>, which runs the stack-object race
  analysis and the recurring-check reduction over them.
  The answers of LLVM about values and types are the record \<open>tsan_module\<close>.  A pass returns the
  list of its edits of the function; \<open>None\<close> is a failed assertion or \<open>llvm_unreachable\<close>.
\<close>

section \<open>Values, types and instructions\<close>

type_synonym tvalue = nat

datatype Ty = IntegerTy nat | PointerTy | FloatTy nat | VectorTy nat Ty | PairTy Ty

text \<open>
  \<open>LoadResult\<close> is the value of a load and whether its \<open>tbaa\<close> metadata marks a vtable access;
  \<open>GlobalVariable\<close> has a section, a name and whether it is constant.
\<close>

datatype ValueKind = GlobalVariable "string option" string bool | GetElementPtrInst tvalue
  | LoadResult bool | AllocaInst | OtherValue

record tsan_module =
  value_at :: "tvalue \<Rightarrow> ValueKind"
  stripInBoundsOffsets :: "tvalue \<Rightarrow> tvalue"
  getUnderlyingObject :: "tvalue \<Rightarrow> tvalue"
  PointerMayBeCaptured :: "tvalue \<Rightarrow> bool"
  PointerAddressSpace :: "tvalue \<Rightarrow> nat"
  isSwiftError :: "tvalue \<Rightarrow> bool"
  getTypeStoreSizeInBits :: "Ty \<Rightarrow> u64"
  cnts_section :: string

datatype call_kind = NoCall | CallInst | InvokeInst | CallBrInst
datatype mem_intrinsic = MemSetInst | MemCpyInst | MemMoveInst
datatype BinOp = Xchg | Add | Sub | And | Nand | Or | Xor | Max | Min | UMax | UMin | FAdd | FSub

record tsan_inst = Instruction +
  callKind :: call_kind
  MemIntrinsic :: "mem_intrinsic option"
  CallArgs :: "tvalue list"
  PointerOperand :: tvalue
  ValueOperand :: tvalue
  CompareOperand :: tvalue
  AccessType :: Ty
  Align :: nat
  Volatile :: bool
  TBAAVtableAccess :: bool
  Operation :: BinOp
  DelegateToXSan :: bool

record tsan_block =
  tinsts :: "tsan_inst list"
  tsuccs :: "nat list"

record tsan_function =
  fname :: string
  Naked :: bool
  DisableSanitizerInstrumentation :: bool
  SanitizeThread :: bool
  NoCheckingAtRunTime :: bool
  blocks :: "tsan_block list"

definition tinst_at :: "tsan_function \<Rightarrow> inst_ref \<Rightarrow> tsan_inst" where
  "tinst_at F r = tinsts (blocks F ! fst r) ! snd r"

record tsan_options =
  ClInstrumentMemoryAccesses :: bool
  ClInstrumentFuncEntryExit :: bool
  ClHandleCxxExceptions :: bool
  ClInstrumentAtomics :: bool
  ClInstrumentMemIntrinsics :: bool
  ClDistinguishVolatile :: bool
  ClInstrumentReadBeforeWrite :: bool
  ClCompoundReadBeforeWrite :: bool

definition default_options :: tsan_options where
  "default_options =
     \<lparr>ClInstrumentMemoryAccesses = True, ClInstrumentFuncEntryExit = True, ClHandleCxxExceptions = True,
      ClInstrumentAtomics = True, ClInstrumentMemIntrinsics = True, ClDistinguishVolatile = False,
      ClInstrumentReadBeforeWrite = False, ClCompoundReadBeforeWrite = False\<rparr>"

section \<open>The functions of the runtime\<close>

fun utostr :: "nat \<Rightarrow> string" where
  "utostr n = (if n < 10 then [char_of (48 + n)] else utostr (n div 10) @ [char_of (48 + n mod 10)])"

definition ByteSize :: "nat \<Rightarrow> nat" where "ByteSize i = 2 ^ i"
definition BitSize :: "nat \<Rightarrow> nat" where "BitSize i = ByteSize i * 8"

definition TsanRead :: "nat \<Rightarrow> string" where
  "TsanRead i = ''__tsan_read'' @ utostr (ByteSize i)"
definition TsanWrite :: "nat \<Rightarrow> string" where
  "TsanWrite i = ''__tsan_write'' @ utostr (ByteSize i)"
definition TsanUnalignedRead :: "nat \<Rightarrow> string" where
  "TsanUnalignedRead i = ''__tsan_unaligned_read'' @ utostr (ByteSize i)"
definition TsanUnalignedWrite :: "nat \<Rightarrow> string" where
  "TsanUnalignedWrite i = ''__tsan_unaligned_write'' @ utostr (ByteSize i)"
definition TsanVolatileRead :: "nat \<Rightarrow> string" where
  "TsanVolatileRead i = ''__tsan_volatile_read'' @ utostr (ByteSize i)"
definition TsanVolatileWrite :: "nat \<Rightarrow> string" where
  "TsanVolatileWrite i = ''__tsan_volatile_write'' @ utostr (ByteSize i)"
definition TsanUnalignedVolatileRead :: "nat \<Rightarrow> string" where
  "TsanUnalignedVolatileRead i = ''__tsan_unaligned_volatile_read'' @ utostr (ByteSize i)"
definition TsanUnalignedVolatileWrite :: "nat \<Rightarrow> string" where
  "TsanUnalignedVolatileWrite i = ''__tsan_unaligned_volatile_write'' @ utostr (ByteSize i)"
definition TsanCompoundRW :: "nat \<Rightarrow> string" where
  "TsanCompoundRW i = ''__tsan_read_write'' @ utostr (ByteSize i)"
definition TsanUnalignedCompoundRW :: "nat \<Rightarrow> string" where
  "TsanUnalignedCompoundRW i = ''__tsan_unaligned_read_write'' @ utostr (ByteSize i)"
definition TsanAtomicLoad :: "nat \<Rightarrow> string" where
  "TsanAtomicLoad i = ''__tsan_atomic'' @ utostr (BitSize i) @ ''_load''"
definition TsanAtomicStore :: "nat \<Rightarrow> string" where
  "TsanAtomicStore i = ''__tsan_atomic'' @ utostr (BitSize i) @ ''_store''"
definition TsanAtomicCAS :: "nat \<Rightarrow> string" where
  "TsanAtomicCAS i = ''__tsan_atomic'' @ utostr (BitSize i) @ ''_compare_exchange_val''"

definition rmw_name_part :: "BinOp \<Rightarrow> string option" where
  "rmw_name_part Op =
     (if Op = Xchg then Some ''_exchange''
      else if Op = Add then Some ''_fetch_add''
      else if Op = Sub then Some ''_fetch_sub''
      else if Op = And then Some ''_fetch_and''
      else if Op = Or then Some ''_fetch_or''
      else if Op = Xor then Some ''_fetch_xor''
      else if Op = Nand then Some ''_fetch_nand''
      else None)"

definition TsanAtomicRMW :: "BinOp \<Rightarrow> nat \<Rightarrow> string option" where
  "TsanAtomicRMW Op i =
     map_option (\<lambda>NamePart. ''__tsan_atomic'' @ utostr (BitSize i) @ NamePart) (rmw_name_part Op)"

section \<open>Choosing the accesses\<close>

definition shouldInstrumentReadWriteFromAddress :: "tsan_module \<Rightarrow> tvalue \<Rightarrow> bool" where
  "shouldInstrumentReadWriteFromAddress M Addr =
     (let Addr = stripInBoundsOffsets M Addr in
      case value_at M Addr of
        GlobalVariable section GV_name constant \<Rightarrow>
          (if section \<noteq> None \<and> suffix (cnts_section M) (the section) then False
           else if prefix ''__llvm_gcov'' GV_name \<or> prefix ''__llvm_gcda'' GV_name then False
           else PointerAddressSpace M Addr = 0)
      | _ \<Rightarrow> PointerAddressSpace M Addr = 0)"

definition addrPointsToConstantData :: "tsan_module \<Rightarrow> tvalue \<Rightarrow> bool" where
  "addrPointsToConstantData M Addr =
     (let Addr = (case value_at M Addr of GetElementPtrInst p \<Rightarrow> p | _ \<Rightarrow> Addr) in
      case value_at M Addr of
        GlobalVariable section GV_name constant \<Rightarrow> constant
      | LoadResult vtable \<Rightarrow> vtable
      | _ \<Rightarrow> False)"

record InstructionInfo =
  info_inst :: inst_ref
  kCompoundRW :: bool

definition new_InstructionInfo :: "inst_ref \<Rightarrow> InstructionInfo" where
  "new_InstructionInfo r = \<lparr>info_inst = r, kCompoundRW = False\<rparr>"

type_synonym choose_state = "InstructionInfo list \<times> (tvalue \<rightharpoonup> nat)"

definition not_captured :: "tsan_module \<Rightarrow> tvalue \<Rightarrow> bool" where
  "not_captured M Addr \<longleftrightarrow>
     value_at M (getUnderlyingObject M Addr) = AllocaInst \<and> \<not> PointerMayBeCaptured M Addr"

text \<open>The last part of the loop body: the capture test and the push.\<close>

definition instrument_this ::
  "tsan_module \<Rightarrow> tsan_inst \<Rightarrow> inst_ref \<Rightarrow> choose_state \<Rightarrow> choose_state" where
  "instrument_this M I r st =
     (let (Chosen, WriteTargets) = st in
      if not_captured M (PointerOperand I) then (Chosen, WriteTargets)
      else (Chosen @ [new_InstructionInfo r],
            if isa_StoreInst (opcode I) then WriteTargets(PointerOperand I \<mapsto> length Chosen) else WriteTargets))"

definition AnyVolatile :: "tsan_options \<Rightarrow> tsan_inst \<Rightarrow> tsan_inst \<Rightarrow> bool" where
  "AnyVolatile opts I W \<longleftrightarrow> ClDistinguishVolatile opts \<and> (Volatile I \<or> Volatile W)"

definition choose_step ::
  "tsan_options \<Rightarrow> tsan_module \<Rightarrow> tsan_function \<Rightarrow> inst_ref \<Rightarrow> choose_state \<Rightarrow> choose_state" where
  "choose_step opts M F r st =
     (let I = tinst_at F r; Addr = PointerOperand I; (Chosen, WriteTargets) = st in
      if \<not> shouldInstrumentReadWriteFromAddress M Addr then st
      else if isa_StoreInst (opcode I) then instrument_this M I r st
      else
        let omit = (case WriteTargets Addr of
            None \<Rightarrow> None
          | Some idx \<Rightarrow>
              if ClInstrumentReadBeforeWrite opts then None
              else if AnyVolatile opts I (tinst_at F (info_inst (Chosen ! idx))) then None
              else Some (Chosen[idx := (Chosen ! idx)\<lparr>kCompoundRW := True\<rparr>], WriteTargets))
        in case omit of Some st \<Rightarrow> st
           | None \<Rightarrow> if addrPointsToConstantData M Addr then st else instrument_this M I r st)"

definition chooseInstructionsToInstrument ::
  "tsan_options \<Rightarrow> tsan_module \<Rightarrow> tsan_function \<Rightarrow> inst_ref list \<Rightarrow> InstructionInfo list \<Rightarrow> InstructionInfo list"
where
  "chooseInstructionsToInstrument opts M F Local Chosen =
     fst (fold (choose_step opts M F) (rev Local) (Chosen, Map.empty))"

section \<open>Collecting the targets of a function\<close>

definition isTsanAtomic :: "'a Instruction_scheme \<Rightarrow> bool" where
  "isTsanAtomic I =
     (case AtomicSyncScopeID I of
        None \<Rightarrow> False
      | Some SSID \<Rightarrow> if isa_LoadInst (opcode I) \<or> isa_StoreInst (opcode I) then SSID \<noteq> SingleThread else True)"

record TsanToInstrument =
  AllLoadsAndStores :: "InstructionInfo list"
  AtomicAccesses :: "inst_ref list"
  MemIntrinCalls :: "inst_ref list"
  HasCalls :: bool

definition no_targets :: TsanToInstrument where
  "no_targets = \<lparr>AllLoadsAndStores = [], AtomicAccesses = [], MemIntrinCalls = [], HasCalls = False\<rparr>"

definition counts_as_call :: "tsan_inst \<Rightarrow> bool" where
  "counts_as_call I \<longleftrightarrow> callKind I = CallInst \<and> opcode I \<noteq> DbgInfoIntrinsic \<or> callKind I = InvokeInst"

text \<open>
  The scan of the function, first as \<open>ThreadSanitizer::sanitizeFunction\<close> has it.  The local vector
  is the second part of the state.  Marking library calls is left out.
\<close>

definition collect_inst ::
  "tsan_options \<Rightarrow> tsan_module \<Rightarrow> tsan_function \<Rightarrow> inst_ref \<Rightarrow>
   TsanToInstrument \<times> inst_ref list \<Rightarrow> TsanToInstrument \<times> inst_ref list" where
  "collect_inst opts M F r st =
     (let I = tinst_at F r; (T, Local) = st in
      if MD_nosanitize I then st
      else if isTsanAtomic I then (T\<lparr>AtomicAccesses := AtomicAccesses T @ [r]\<rparr>, Local)
      else if isa_LoadInst (opcode I) \<or> isa_StoreInst (opcode I) then (T, Local @ [r])
      else if counts_as_call I then
        (T\<lparr>MemIntrinCalls := (if MemIntrinsic I \<noteq> None then MemIntrinCalls T @ [r] else MemIntrinCalls T),
           HasCalls := True,
           AllLoadsAndStores := chooseInstructionsToInstrument opts M F Local (AllLoadsAndStores T)\<rparr>, [])
      else st)"

definition block_refs :: "tsan_function \<Rightarrow> nat \<Rightarrow> inst_ref list" where
  "block_refs F b = map (\<lambda>i. (b, i)) [0..<length (tinsts (blocks F ! b))]"

definition collect_block ::
  "tsan_options \<Rightarrow> tsan_module \<Rightarrow> tsan_function \<Rightarrow> nat \<Rightarrow> TsanToInstrument \<Rightarrow> TsanToInstrument" where
  "collect_block opts M F b T =
     (let (T, Local) = fold (collect_inst opts M F) (block_refs F b) (T, [])
      in T\<lparr>AllLoadsAndStores := chooseInstructionsToInstrument opts M F Local (AllLoadsAndStores T)\<rparr>)"

definition collect_function :: "tsan_options \<Rightarrow> tsan_module \<Rightarrow> tsan_function \<Rightarrow> TsanToInstrument" where
  "collect_function opts M F = fold (collect_block opts M F) [0..<length (blocks F)] no_targets"

text \<open>The copy of the scan in \<open>XsanThreadSanitizer::collectTargetsToIntrument\<close>.\<close>

definition shouldSkipFunction :: "tsan_function \<Rightarrow> bool" where
  "shouldSkipFunction F \<longleftrightarrow>
     (if fname F = ''tsan.module_ctor'' then True
      else if Naked F then True
      else if DisableSanitizerInstrumentation F then True
      else False)"

definition xsan_collect_inst ::
  "tsan_options \<Rightarrow> tsan_module \<Rightarrow> tsan_function \<Rightarrow> inst_ref \<Rightarrow>
   TsanToInstrument \<times> inst_ref list \<Rightarrow> TsanToInstrument \<times> inst_ref list" where
  "xsan_collect_inst opts M F r st =
     (let Inst = tinst_at F r; (Targets, LocalLoadsAndStores) = st in
      if MD_nosanitize Inst then st
      else if DelegateToXSan Inst then st
      else if isTsanAtomic Inst then
        (Targets\<lparr>AtomicAccesses := AtomicAccesses Targets @ [r]\<rparr>, LocalLoadsAndStores)
      else if isa_LoadInst (opcode Inst) \<or> isa_StoreInst (opcode Inst) then (Targets, LocalLoadsAndStores @ [r])
      else if counts_as_call Inst then
        let Targets = (if MemIntrinsic Inst \<noteq> None then Targets\<lparr>MemIntrinCalls := MemIntrinCalls Targets @ [r]\<rparr>
                       else Targets);
            Targets = Targets\<lparr>HasCalls := True\<rparr>
        in (Targets\<lparr>AllLoadsAndStores :=
              chooseInstructionsToInstrument opts M F LocalLoadsAndStores (AllLoadsAndStores Targets)\<rparr>, [])
      else st)"

definition xsan_collect_block ::
  "tsan_options \<Rightarrow> tsan_module \<Rightarrow> tsan_function \<Rightarrow> nat \<Rightarrow> TsanToInstrument \<Rightarrow> TsanToInstrument" where
  "xsan_collect_block opts M F b Targets =
     (let (Targets, LocalLoadsAndStores) = fold (xsan_collect_inst opts M F) (block_refs F b) (Targets, [])
      in Targets\<lparr>AllLoadsAndStores :=
           chooseInstructionsToInstrument opts M F LocalLoadsAndStores (AllLoadsAndStores Targets)\<rparr>)"

definition collectTargetsToIntrument ::
  "tsan_options \<Rightarrow> tsan_module \<Rightarrow> tsan_function \<Rightarrow> TsanToInstrument option" where
  "collectTargetsToIntrument opts M F =
     (if shouldSkipFunction F then None
      else Some (fold (xsan_collect_block opts M F) [0..<length (blocks F)] no_targets))"

section \<open>Instrumenting one access\<close>

datatype arg = Addr_arg tvalue | Value_arg tvalue Ty | Ordering_arg u32 | ReturnAddress

text \<open>
  \<open>Replace r f args t\<close>: the call replaces the instruction, and the uses of the instruction
  get a value of type \<open>t\<close> (\<open>None\<close> when it has no value).
\<close>

datatype edit =
    CallBefore inst_ref string "arg list"
  | Replace inst_ref string "arg list" "Ty option"
  | AtEntry string "arg list"
  | AtExits string bool

fun countTrailingZeros :: "nat \<Rightarrow> nat" where
  "countTrailingZeros n = (if n = 0 then 32 else if odd n then 0 else Suc (countTrailingZeros (n div 2)))"

definition getMemoryAccessFuncIndex :: "tsan_module \<Rightarrow> Ty \<Rightarrow> nat option" where
  "getMemoryAccessFuncIndex M OrigTy =
     (let TypeSize = (ucast (getTypeStoreSizeInBits M OrigTy) :: u32) in
      if TypeSize \<noteq> 8 \<and> TypeSize \<noteq> 16 \<and> TypeSize \<noteq> 32 \<and> TypeSize \<noteq> 64 \<and> TypeSize \<noteq> 128 then None
      else Some (countTrailingZeros (unat (TypeSize div 8))))"

definition aligned_access :: "tsan_module \<Rightarrow> tsan_inst \<Rightarrow> bool" where
  "aligned_access M I \<longleftrightarrow>
     Align I \<ge> 8 \<or>
     Align I mod unat ((ucast (getTypeStoreSizeInBits M (AccessType I)) :: u32) div 8) = 0"

definition OnAccessFunc ::
  "tsan_module \<Rightarrow> tsan_inst \<Rightarrow> bool \<Rightarrow> bool \<Rightarrow> nat \<Rightarrow> string" where
  "OnAccessFunc M I IsCompoundRW IsVolatile Idx =
     (let IsWrite = isa_StoreInst (opcode I) in
      if aligned_access M I then
        if IsCompoundRW then TsanCompoundRW Idx
        else if IsVolatile then (if IsWrite then TsanVolatileWrite Idx else TsanVolatileRead Idx)
        else if IsWrite then TsanWrite Idx else TsanRead Idx
      else
        if IsCompoundRW then TsanUnalignedCompoundRW Idx
        else if IsVolatile then (if IsWrite then TsanUnalignedVolatileWrite Idx else TsanUnalignedVolatileRead Idx)
        else if IsWrite then TsanUnalignedWrite Idx else TsanUnalignedRead Idx)"

definition instrumentLoadOrStore ::
  "tsan_options \<Rightarrow> tsan_module \<Rightarrow> tsan_function \<Rightarrow> InstructionInfo \<Rightarrow> (bool \<times> edit list) option" where
  "instrumentLoadOrStore opts M F II =
     (let r = info_inst II; I = tinst_at F r; IsWrite = isa_StoreInst (opcode I); Addr = PointerOperand I in
      if isSwiftError M Addr then Some (False, [])
      else case getMemoryAccessFuncIndex M (AccessType I) of
        None \<Rightarrow> Some (False, [])
      | Some Idx \<Rightarrow>
          if IsWrite \<and> TBAAVtableAccess I
          then Some (True, [CallBefore r ''__tsan_vptr_update'' [Addr_arg Addr, Value_arg (ValueOperand I) PointerTy]])
          else if \<not> IsWrite \<and> TBAAVtableAccess I
          then Some (True, [CallBefore r ''__tsan_vptr_read'' [Addr_arg Addr]])
          else
            let IsCompoundRW = ClCompoundReadBeforeWrite opts \<and> kCompoundRW II;
                IsVolatile = ClDistinguishVolatile opts \<and> Volatile I
            in if IsVolatile \<and> IsCompoundRW then None
               else Some (True, [CallBefore r (OnAccessFunc M I IsCompoundRW IsVolatile Idx) [Addr_arg Addr]]))"

section \<open>Atomic operations and memory intrinsics\<close>

fun createOrdering :: "AtomicOrdering \<Rightarrow> u32 option" where
  "createOrdering NotAtomic = None"
| "createOrdering Unordered = Some 0"
| "createOrdering Monotonic = Some 0"
| "createOrdering Acquire = Some 2"
| "createOrdering Release = Some 3"
| "createOrdering AcquireRelease = Some 4"
| "createOrdering SequentiallyConsistent = Some 5"

definition instrumentAtomic :: "tsan_module \<Rightarrow> tsan_function \<Rightarrow> inst_ref \<Rightarrow> (bool \<times> edit list) option" where
  "instrumentAtomic M F r =
     (let I = tinst_at F r; Addr = PointerOperand I; T = AccessType I in
      case opcode I of
        LoadInst ord \<Rightarrow> (case getMemoryAccessFuncIndex M T of
            None \<Rightarrow> Some (False, [])
          | Some Idx \<Rightarrow> map_option (\<lambda>v. (True,
              [Replace r (TsanAtomicLoad Idx) [Addr_arg Addr, Ordering_arg v] (Some T)])) (createOrdering ord))
      | StoreInst ord \<Rightarrow> (case getMemoryAccessFuncIndex M T of
            None \<Rightarrow> Some (False, [])
          | Some Idx \<Rightarrow> map_option (\<lambda>v. (True,
              [Replace r (TsanAtomicStore Idx)
                 [Addr_arg Addr, Value_arg (ValueOperand I) (IntegerTy (BitSize Idx)), Ordering_arg v] None]))
              (createOrdering ord))
      | AtomicRMWInst ord \<Rightarrow> (case getMemoryAccessFuncIndex M T of
            None \<Rightarrow> Some (False, [])
          | Some Idx \<Rightarrow> (case TsanAtomicRMW (Operation I) Idx of
              None \<Rightarrow> Some (False, [])
            | Some callee \<Rightarrow> map_option (\<lambda>v. (True,
                [Replace r callee [Addr_arg Addr, Value_arg (ValueOperand I) (IntegerTy (BitSize Idx)), Ordering_arg v]
                   (Some (IntegerTy (BitSize Idx)))])) (createOrdering ord)))
      | AtomicCmpXchgInst SuccessOrder FailureOrder \<Rightarrow> (case getMemoryAccessFuncIndex M T of
            None \<Rightarrow> Some (False, [])
          | Some Idx \<Rightarrow> (case (createOrdering SuccessOrder, createOrdering FailureOrder) of
              (Some s, Some f) \<Rightarrow> Some (True,
                [Replace r (TsanAtomicCAS Idx)
                   [Addr_arg Addr, Value_arg (CompareOperand I) (IntegerTy (BitSize Idx)),
                    Value_arg (ValueOperand I) (IntegerTy (BitSize Idx)), Ordering_arg s, Ordering_arg f]
                   (Some (PairTy T))])
            | _ \<Rightarrow> None))
      | FenceInst ord \<Rightarrow>
          map_option (\<lambda>v. (True,
            [Replace r (if AtomicSyncScopeID I = Some SingleThread then ''__tsan_atomic_signal_fence''
                        else ''__tsan_atomic_thread_fence'') [Ordering_arg v] None])) (createOrdering ord)
      | _ \<Rightarrow> Some (True, []))"

definition instrumentMemIntrinsic :: "tsan_function \<Rightarrow> inst_ref \<Rightarrow> edit list" where
  "instrumentMemIntrinsic F r =
     (let I = tinst_at F r; a = CallArgs I in
      case MemIntrinsic I of
        Some MemSetInst \<Rightarrow>
          [Replace r ''__tsan_memset'' [Addr_arg (a ! 0), Value_arg (a ! 1) (IntegerTy 32), Value_arg (a ! 2) (IntegerTy 64)] None]
      | Some m \<Rightarrow>
          [Replace r (if m = MemCpyInst then ''__tsan_memcpy'' else ''__tsan_memmove'')
             [Addr_arg (a ! 0), Addr_arg (a ! 1), Value_arg (a ! 2) (IntegerTy 64)] None]
      | None \<Rightarrow> [])"

section \<open>Instrumenting a function\<close>

text \<open>The result of a sequence of steps: whether one of them changed something, and all edits.\<close>

fun instrument_all :: "('a \<Rightarrow> (bool \<times> edit list) option) \<Rightarrow> 'a list \<Rightarrow> (bool \<times> edit list) option" where
  "instrument_all f [] = Some (False, [])"
| "instrument_all f (x # xs) =
     (case f x of None \<Rightarrow> None
      | Some (Res, es) \<Rightarrow> (case instrument_all f xs of None \<Rightarrow> None
          | Some (Res', es') \<Rightarrow> Some (Res \<or> Res', es @ es')))"

definition InsertRuntimeIgnores :: "tsan_options \<Rightarrow> edit list" where
  "InsertRuntimeIgnores opts =
     [AtEntry ''__tsan_ignore_thread_begin'' [], AtExits ''__tsan_ignore_thread_end'' (ClHandleCxxExceptions opts)]"

definition func_entry_exit :: "tsan_options \<Rightarrow> edit list" where
  "func_entry_exit opts =
     [AtEntry ''__tsan_func_entry'' [ReturnAddress], AtExits ''__tsan_func_exit'' (ClHandleCxxExceptions opts)]"

definition tsan_sanitizeFunction ::
  "tsan_options \<Rightarrow> tsan_module \<Rightarrow> tsan_function \<Rightarrow> (bool \<times> edit list) option" where
  "tsan_sanitizeFunction opts M F =
     (if fname F = ''tsan.module_ctor'' then Some (False, [])
      else if Naked F then Some (False, [])
      else if DisableSanitizerInstrumentation F then Some (False, [])
      else
        let T = collect_function opts M F; SanitizeFunction = SanitizeThread F in
        case (if ClInstrumentMemoryAccesses opts \<and> SanitizeFunction
              then instrument_all (instrumentLoadOrStore opts M F) (AllLoadsAndStores T)
              else Some (False, [])) of
          None \<Rightarrow> None
        | Some (R1, e1) \<Rightarrow>
            (case (if ClInstrumentAtomics opts then instrument_all (instrumentAtomic M F) (AtomicAccesses T)
                   else Some (False, [])) of
               None \<Rightarrow> None
             | Some (R2, e2) \<Rightarrow>
                 let e3 = (if ClInstrumentMemIntrinsics opts \<and> SanitizeFunction
                           then concat (map (instrumentMemIntrinsic F) (MemIntrinCalls T)) else []);
                     Res = (R1 \<or> R2)
                 in if NoCheckingAtRunTime F \<and> SanitizeFunction then None
                    else
                      let e4 = (if NoCheckingAtRunTime F \<and> HasCalls T then InsertRuntimeIgnores opts else [])
                      in if (Res \<or> HasCalls T) \<and> ClInstrumentFuncEntryExit opts
                         then Some (True, e1 @ e2 @ e3 @ e4 @ func_entry_exit opts)
                         else Some (Res, e1 @ e2 @ e3 @ e4)))"

text \<open>
  XSan's variant, with its own copy of the body; memory intrinsics are commented out in it.
  \<open>None\<close> as cached targets is the use of the pass outside XSan.
\<close>

definition xsan_func_entry_exit :: "tsan_options \<Rightarrow> edit list" where
  "xsan_func_entry_exit opts =
     [AtEntry ''__tsan_func_entry'' [ReturnAddress], AtExits ''__tsan_func_exit'' (ClHandleCxxExceptions opts)]"

definition xsan_sanitizeFunction ::
  "tsan_options \<Rightarrow> tsan_module \<Rightarrow> tsan_function \<Rightarrow> TsanToInstrument option \<Rightarrow> (bool \<times> edit list) option" where
  "xsan_sanitizeFunction opts M F Targets =
     (case Targets of
        None \<Rightarrow> tsan_sanitizeFunction opts M F
      | Some T \<Rightarrow>
          if shouldSkipFunction F then Some (False, [])
          else
            let SanitizeFunction = SanitizeThread F in
            case (if ClInstrumentMemoryAccesses opts \<and> SanitizeFunction
                  then instrument_all (instrumentLoadOrStore opts M F) (AllLoadsAndStores T)
                  else Some (False, [])) of
              None \<Rightarrow> None
            | Some (R1, loads_stores) \<Rightarrow>
                (case (if ClInstrumentAtomics opts then instrument_all (instrumentAtomic M F) (AtomicAccesses T)
                       else Some (False, [])) of
                   None \<Rightarrow> None
                 | Some (R2, atomics) \<Rightarrow>
                     let Res = (R1 \<or> R2) in
                     if NoCheckingAtRunTime F \<and> SanitizeFunction then None
                     else
                       let ignores = (if NoCheckingAtRunTime F then
                                        (if HasCalls T then InsertRuntimeIgnores opts else [])
                                      else []);
                           es = loads_stores @ atomics @ ignores
                       in if (Res \<or> HasCalls T) \<and> ClInstrumentFuncEntryExit opts
                          then Some (True, es @ xsan_func_entry_exit opts)
                          else Some (Res, es)))"

section \<open>The analysis that finds the targets\<close>

fun filterM_option :: "('a \<Rightarrow> bool option) \<Rightarrow> 'a list \<Rightarrow> 'a list option" where
  "filterM_option f [] = Some []"
| "filterM_option f (x # xs) =
     (case f x of None \<Rightarrow> None
      | Some b \<Rightarrow> map_option (\<lambda>ys. if b then x # ys else ys) (filterM_option f xs))"

text \<open>\<open>mightRace\<close> and \<open>distill\<close> are the results of the two analyses, if they are enabled.\<close>

definition TsanTargetsToInstrument_run ::
  "tsan_options \<Rightarrow> tsan_module \<Rightarrow> tsan_function \<Rightarrow> (inst_ref \<Rightarrow> bool option) option \<Rightarrow>
   (inst_ref list \<Rightarrow> inst_ref list option) option \<Rightarrow> TsanToInstrument option" where
  "TsanTargetsToInstrument_run opts M F mightRace distill =
     (case collectTargetsToIntrument opts M F of
        None \<Rightarrow> Some no_targets
      | Some Targets \<Rightarrow>
          let NewLdSt = map info_inst (AllLoadsAndStores Targets) in
          (case (case mightRace of None \<Rightarrow> Some NewLdSt | Some race \<Rightarrow> filterM_option race NewLdSt) of
             None \<Rightarrow> None
           | Some NewLdSt \<Rightarrow>
               (case (case distill of None \<Rightarrow> Some NewLdSt | Some d \<Rightarrow> d NewLdSt) of
                  None \<Rightarrow> None
                | Some NewLdSt \<Rightarrow>
                    if mightRace \<noteq> None \<or> distill \<noteq> None
                    then Some (Targets\<lparr>AllLoadsAndStores := map new_InstructionInfo NewLdSt\<rparr>)
                    else Some Targets)))"

end
