(* ===== verification/Tsan_Inst_Props.thy ===== *)
theory Tsan_Inst_Props
  imports Tsan_Inst
begin

unbundle bit_operations_syntax

text \<open>
  Properties of TSan's instrumentation pass: which accesses get a call in front of them, and that
  every plain access which is not exempt is chosen or stands in front of a chosen write; which
  function is called for an access; what replaces an atomic operation; and that XSan's own copies
  of the scan and of the instrumentation agree with the original pass.
\<close>

section \<open>The accesses chosen from one stretch of code\<close>

definition plain_access :: "(tsan_inst \<Rightarrow> bool) \<Rightarrow> tsan_inst \<Rightarrow> bool" where
  "plain_access skip I \<longleftrightarrow>
     \<not> skip I \<and> \<not> isTsanAtomic I \<and> (isa_LoadInst (opcode I) \<or> isa_StoreInst (opcode I))"

definition exempt :: "tsan_module \<Rightarrow> tsan_inst \<Rightarrow> bool" where
  "exempt M I \<longleftrightarrow> \<not> shouldInstrumentReadWriteFromAddress M (PointerOperand I) \<or>
     \<not> isa_StoreInst (opcode I) \<and> addrPointsToConstantData M (PointerOperand I) \<or>
     not_captured M (PointerOperand I)"

text \<open>A read the pass leaves out because of a later write \<open>x\<close> to the same address.\<close>

definition read_before_write ::
  "tsan_options \<Rightarrow> tsan_function \<Rightarrow> InstructionInfo \<Rightarrow> inst_ref \<Rightarrow> bool" where
  "read_before_write opts F x r \<longleftrightarrow>
     (let I = tinst_at F r; W = tinst_at F (info_inst x) in
      \<not> isa_StoreInst (opcode I) \<and> isa_StoreInst (opcode W) \<and> PointerOperand I = PointerOperand W \<and>
      \<not> ClInstrumentReadBeforeWrite opts \<and> \<not> AnyVolatile opts I W \<and> kCompoundRW x \<and>
      fst (info_inst x) = fst r \<and> snd r < snd (info_inst x))"

definition accounted ::
  "tsan_options \<Rightarrow> tsan_module \<Rightarrow> tsan_function \<Rightarrow> InstructionInfo list \<Rightarrow> inst_ref \<Rightarrow> bool" where
  "accounted opts M F B r \<longleftrightarrow> r \<in> info_inst ` set B \<or> exempt M (tinst_at F r) \<or>
     (\<exists>x \<in> set B. read_before_write opts F x r)"

definition mark :: "nat \<Rightarrow> InstructionInfo list \<Rightarrow> InstructionInfo list" where
  "mark k B = B[k := (B ! k)\<lparr>kCompoundRW := True\<rparr>]"

lemma mark_infos [simp]: "k < length B \<Longrightarrow> map info_inst (mark k B) = map info_inst B"
  by (simp add: mark_def map_update) (metis length_map list_update_id nth_map)

lemma mark_length [simp]: "length (mark k B) = length B"
  by (simp add: mark_def)

lemma mark_nth: "k < length B \<Longrightarrow> j < length B \<Longrightarrow> info_inst (mark k B ! j) = info_inst (B ! j)"
  by (metis length_map mark_infos mark_length nth_map)

lemma accounted_mark:
  assumes "accounted opts M F B r" "k < length B"
  shows "accounted opts M F (mark k B) r"
proof -
  have infos: "info_inst ` set (mark k B) = info_inst ` set B"
    using mark_infos [OF assms(2)] by (metis set_map)
  have "\<exists>y \<in> set (mark k B). read_before_write opts F y r"
    if x: "x \<in> set B" "read_before_write opts F x r" for x
  proof -
    obtain j where j: "j < length B" "x = B ! j" using x(1) by (metis in_set_conv_nth)
    have "read_before_write opts F (mark k B ! j) r"
      using x(2) j assms(2) unfolding mark_def read_before_write_def
      by (cases "j = k") (simp_all add: Let_def)
    then show ?thesis using j(1) by (metis mark_length nth_mem)
  qed
  then show ?thesis using assms(1) infos unfolding accounted_def by blast
qed

lemma accounted_mono: "accounted opts M F B r \<Longrightarrow> set B \<subseteq> set C \<Longrightarrow> accounted opts M F C r"
  unfolding accounted_def by blast

lemma choose_step_cases:
  assumes "choose_step opts M F r (A, W) = (A', W')"
    and "isa_LoadInst (opcode (tinst_at F r)) \<or> isa_StoreInst (opcode (tinst_at F r))"
  shows "(A' = A \<and> W' = W \<and> exempt M (tinst_at F r)) \<or>
     (A' = A @ [new_InstructionInfo r] \<and> \<not> exempt M (tinst_at F r) \<and>
      W' = (if isa_StoreInst (opcode (tinst_at F r)) then W(PointerOperand (tinst_at F r) \<mapsto> length A) else W)) \<or>
     (\<exists>idx. W (PointerOperand (tinst_at F r)) = Some idx \<and> A' = mark idx A \<and> W' = W \<and>
        \<not> isa_StoreInst (opcode (tinst_at F r)) \<and> \<not> ClInstrumentReadBeforeWrite opts \<and>
        \<not> AnyVolatile opts (tinst_at F r) (tinst_at F (info_inst (A ! idx))))"
  using assms unfolding choose_step_def instrument_this_def exempt_def mark_def
  by (auto simp: Let_def split: if_splits option.splits)

text \<open>\<open>chosen A0 L (A, W)\<close>: what holds after the accesses \<open>L\<close> of one block, in order, were gone through.\<close>

definition chosen ::
  "tsan_options \<Rightarrow> tsan_module \<Rightarrow> tsan_function \<Rightarrow> InstructionInfo list \<Rightarrow> inst_ref list \<Rightarrow> choose_state \<Rightarrow> bool" where
  "chosen opts M F A0 L st \<longleftrightarrow>
     (\<exists>B. fst st = A0 @ B \<and> distinct (map info_inst B) \<and>
       (\<forall>x \<in> set B. info_inst x \<in> set L \<and> \<not> exempt M (tinst_at F (info_inst x))) \<and>
       (\<forall>r \<in> set L. accounted opts M F B r) \<and>
       (\<forall>a idx. snd st a = Some idx \<longrightarrow> (\<exists>k < length B. idx = length A0 + k \<and>
          isa_StoreInst (opcode (tinst_at F (info_inst (B ! k)))) \<and>
          PointerOperand (tinst_at F (info_inst (B ! k))) = a)))"

lemma choose_chosen:
  assumes "\<forall>r \<in> set L. fst r = b \<and> (isa_LoadInst (opcode (tinst_at F r)) \<or> isa_StoreInst (opcode (tinst_at F r)))"
    and "sorted_wrt (\<lambda>r s. snd r < snd s) L"
  shows "chosen opts M F A0 L (fold (choose_step opts M F) (rev L) (A0, Map.empty))"
  using assms
proof (induction L)
  case Nil
  then show ?case by (auto simp: chosen_def)
next
  case (Cons r L)
  let ?I = "tinst_at F r"
  obtain A W where AW: "fold (choose_step opts M F) (rev L) (A0, Map.empty) = (A, W)" by force
  with Cons have "chosen opts M F A0 L (A, W)" by simp
  then obtain B where B: "A = A0 @ B" "distinct (map info_inst B)"
    "\<And>x. x \<in> set B \<Longrightarrow> info_inst x \<in> set L \<and> \<not> exempt M (tinst_at F (info_inst x))"
    "\<And>r. r \<in> set L \<Longrightarrow> accounted opts M F B r"
    "\<And>a idx. W a = Some idx \<Longrightarrow> \<exists>k < length B. idx = length A0 + k \<and>
       isa_StoreInst (opcode (tinst_at F (info_inst (B ! k)))) \<and>
       PointerOperand (tinst_at F (info_inst (B ! k))) = a"
    unfolding chosen_def by auto
  obtain A' W' where step: "choose_step opts M F r (A, W) = (A', W')" by force
  have mem: "isa_LoadInst (opcode ?I) \<or> isa_StoreInst (opcode ?I)" using Cons.prems(1) by simp
  have later: "fst s = fst r" "snd r < snd s" if "s \<in> set L" for s
    using Cons.prems that by auto
  have new: "r \<notin> set L" using later(2) by blast
  have "chosen opts M F A0 (r # L) (A', W')"
    using choose_step_cases [OF step mem]
  proof (elim disjE conjE exE)
    assume "A' = A" "W' = W" "exempt M ?I"
    then show ?thesis using B unfolding chosen_def accounted_def by (intro exI [of _ B]) auto
  next
    assume 2: "A' = A @ [new_InstructionInfo r]" "\<not> exempt M ?I"
      "W' = (if isa_StoreInst (opcode ?I) then W(PointerOperand ?I \<mapsto> length A) else W)"
    let ?B = "B @ [new_InstructionInfo r]"
    have acc: "accounted opts M F ?B s" if "s \<in> set (r # L)" for s
    proof (cases "s = r")
      case True
      then show ?thesis by (simp add: accounted_def new_InstructionInfo_def)
    next
      case False
      with that B(4) have "accounted opts M F B s" by simp
      then show ?thesis by (rule accounted_mono) auto
    qed
    have tgt: "\<exists>k < length ?B. idx = length A0 + k \<and>
       isa_StoreInst (opcode (tinst_at F (info_inst (?B ! k)))) \<and>
       PointerOperand (tinst_at F (info_inst (?B ! k))) = a" if "W' a = Some idx" for a idx
    proof (cases "isa_StoreInst (opcode ?I) \<and> a = PointerOperand ?I")
      case True
      then show ?thesis using that 2(3) B(1) by (auto simp: new_InstructionInfo_def intro!: exI [of _ "length B"])
    next
      case False
      then have "W a = Some idx" using that 2(3) by (auto split: if_splits)
      with B(5) obtain k where "k < length B" "idx = length A0 + k"
        "isa_StoreInst (opcode (tinst_at F (info_inst (B ! k))))"
        "PointerOperand (tinst_at F (info_inst (B ! k))) = a" by blast
      then show ?thesis by (intro exI [of _ k]) (simp add: nth_append)
    qed
    have "distinct (map info_inst ?B)" using B(2,3) new by (auto simp: new_InstructionInfo_def)
    moreover have "\<forall>x \<in> set ?B. info_inst x \<in> set (r # L) \<and> \<not> exempt M (tinst_at F (info_inst x))"
      using B(3) 2(2) by (auto simp: new_InstructionInfo_def)
    ultimately show ?thesis
      unfolding chosen_def using acc tgt B(1) 2(1) by (intro exI [of _ ?B]) simp
  next
    fix idx
    assume 3: "W (PointerOperand ?I) = Some idx" "A' = mark idx A" "W' = W" "\<not> isa_StoreInst (opcode ?I)"
      "\<not> ClInstrumentReadBeforeWrite opts" "\<not> AnyVolatile opts ?I (tinst_at F (info_inst (A ! idx)))"
    from B(5) [OF 3(1)] obtain k where k: "k < length B" "idx = length A0 + k"
      "isa_StoreInst (opcode (tinst_at F (info_inst (B ! k))))"
      "PointerOperand (tinst_at F (info_inst (B ! k))) = PointerOperand ?I" by blast
    have A': "A' = A0 @ mark k B" using 3(2) B(1) k(2) by (simp add: mark_def list_update_append nth_append)
    have infos: "info_inst ` set (mark k B) = info_inst ` set B" using mark_infos [OF k(1)] by (metis set_map)
    have "read_before_write opts F (mark k B ! k) r"
      using 3(4-6) k B(1) later B(3) [of "B ! k"]
      by (simp add: read_before_write_def mark_def Let_def nth_append)
    then have "accounted opts M F (mark k B) r" using k(1) unfolding accounted_def by (metis mark_length nth_mem)
    then have acc: "accounted opts M F (mark k B) s" if "s \<in> set (r # L)" for s
      using that B(4) accounted_mark [OF _ k(1)] by (metis set_ConsD)
    have "\<forall>x \<in> set (mark k B). info_inst x \<in> set (r # L) \<and> \<not> exempt M (tinst_at F (info_inst x))"
    proof
      fix x assume "x \<in> set (mark k B)"
      then have "info_inst x \<in> info_inst ` set B" using infos by blast
      then show "info_inst x \<in> set (r # L) \<and> \<not> exempt M (tinst_at F (info_inst x))" using B(3) by auto
    qed
    moreover have "\<exists>j < length (mark k B). i = length A0 + j \<and>
       isa_StoreInst (opcode (tinst_at F (info_inst (mark k B ! j)))) \<and>
       PointerOperand (tinst_at F (info_inst (mark k B ! j))) = a" if "W' a = Some i" for a i
      using B(5) [of a i] that 3(3) mark_nth [OF k(1)] by (metis mark_length)
    ultimately show ?thesis
      unfolding chosen_def using acc A' B(2) mark_infos [OF k(1)] by (intro exI [of _ "mark k B"]) simp
  qed
  then show ?case using AW step by simp
qed


section \<open>The accesses of a function\<close>

text \<open>The two copies of the scan differ in the instructions they skip.\<close>

definition skip_inst :: "tsan_inst \<Rightarrow> bool" where
  "skip_inst I \<longleftrightarrow> MD_nosanitize I"

definition xsan_skip_inst :: "tsan_inst \<Rightarrow> bool" where
  "xsan_skip_inst I \<longleftrightarrow> MD_nosanitize I \<or> DelegateToXSan I"

definition scan_inst ::
  "tsan_options \<Rightarrow> tsan_module \<Rightarrow> tsan_function \<Rightarrow> (tsan_inst \<Rightarrow> bool) \<Rightarrow> inst_ref \<Rightarrow>
   TsanToInstrument \<times> inst_ref list \<Rightarrow> TsanToInstrument \<times> inst_ref list" where
  "scan_inst opts M F skip r st =
     (let I = tinst_at F r; (T, Local) = st in
      if skip I then st
      else if isTsanAtomic I then (T\<lparr>AtomicAccesses := AtomicAccesses T @ [r]\<rparr>, Local)
      else if isa_LoadInst (opcode I) \<or> isa_StoreInst (opcode I) then (T, Local @ [r])
      else if counts_as_call I then
        (T\<lparr>MemIntrinCalls := (if MemIntrinsic I \<noteq> None then MemIntrinCalls T @ [r] else MemIntrinCalls T),
           HasCalls := True,
           AllLoadsAndStores := chooseInstructionsToInstrument opts M F Local (AllLoadsAndStores T)\<rparr>, [])
      else st)"

definition scan_block ::
  "tsan_options \<Rightarrow> tsan_module \<Rightarrow> tsan_function \<Rightarrow> (tsan_inst \<Rightarrow> bool) \<Rightarrow> nat \<Rightarrow>
   TsanToInstrument \<Rightarrow> TsanToInstrument" where
  "scan_block opts M F skip b T =
     (let (T, Local) = fold (scan_inst opts M F skip) (block_refs F b) (T, [])
      in T\<lparr>AllLoadsAndStores := chooseInstructionsToInstrument opts M F Local (AllLoadsAndStores T)\<rparr>)"

definition scan_function ::
  "tsan_options \<Rightarrow> tsan_module \<Rightarrow> tsan_function \<Rightarrow> (tsan_inst \<Rightarrow> bool) \<Rightarrow> TsanToInstrument" where
  "scan_function opts M F skip = fold (scan_block opts M F skip) [0..<length (blocks F)] no_targets"

lemma tsan_scan: "collect_function opts M F = scan_function opts M F skip_inst"
proof -
  have "collect_inst opts M F = scan_inst opts M F skip_inst"
    by (intro ext) (simp add: collect_inst_def scan_inst_def skip_inst_def)
  then have "collect_block opts M F = scan_block opts M F skip_inst"
    by (intro ext) (simp add: collect_block_def scan_block_def)
  then show ?thesis by (simp add: collect_function_def scan_function_def)
qed

lemma xsan_scan:
  "collectTargetsToIntrument opts M F =
     (if shouldSkipFunction F then None else Some (scan_function opts M F xsan_skip_inst))"
proof -
  have "xsan_collect_inst opts M F r (T, Local) = scan_inst opts M F xsan_skip_inst r (T, Local)" for r T Local
    by (auto simp: xsan_collect_inst_def scan_inst_def xsan_skip_inst_def Let_def)
  then have "xsan_collect_inst opts M F = scan_inst opts M F xsan_skip_inst" by (simp add: fun_eq_iff)
  then have "xsan_collect_block opts M F = scan_block opts M F xsan_skip_inst"
    by (intro ext) (simp add: xsan_collect_block_def scan_block_def)
  then show ?thesis by (simp add: collectTargetsToIntrument_def scan_function_def)
qed

definition flushes :: "(tsan_inst \<Rightarrow> bool) \<Rightarrow> tsan_inst \<Rightarrow> bool" where
  "flushes skip I \<longleftrightarrow> \<not> skip I \<and> \<not> isTsanAtomic I \<and>
     \<not> (isa_LoadInst (opcode I) \<or> isa_StoreInst (opcode I)) \<and> counts_as_call I"

text \<open>The write that stands for a read left out: no call lies between them.\<close>

definition covered_read ::
  "tsan_options \<Rightarrow> tsan_function \<Rightarrow> (tsan_inst \<Rightarrow> bool) \<Rightarrow> InstructionInfo \<Rightarrow> inst_ref \<Rightarrow> bool" where
  "covered_read opts F skip x r \<longleftrightarrow> read_before_write opts F x r \<and>
     (\<forall>i. snd r < i \<and> i < snd (info_inst x) \<longrightarrow> \<not> flushes skip (tinst_at F (fst r, i)))"

definition represented ::
  "tsan_options \<Rightarrow> tsan_module \<Rightarrow> tsan_function \<Rightarrow> (tsan_inst \<Rightarrow> bool) \<Rightarrow> InstructionInfo list \<Rightarrow> inst_ref \<Rightarrow> bool"
where
  "represented opts M F skip B r \<longleftrightarrow> r \<in> info_inst ` set B \<or> exempt M (tinst_at F r) \<or>
     (\<exists>x \<in> set B. covered_read opts F skip x r)"

lemma represented_mono: "represented opts M F skip B r \<Longrightarrow> set B \<subseteq> set C \<Longrightarrow> represented opts M F skip C r"
  unfolding represented_def by blast

definition refs :: "nat \<Rightarrow> nat \<Rightarrow> nat \<Rightarrow> inst_ref list" where
  "refs b k n = map (\<lambda>i. (b, i)) [k..<n]"

text \<open>\<open>collected b n A0 (T, Local)\<close>: what holds after the first \<open>n\<close> instructions of block \<open>b\<close>.\<close>

definition new_accesses ::
  "tsan_options \<Rightarrow> tsan_module \<Rightarrow> tsan_function \<Rightarrow> (tsan_inst \<Rightarrow> bool) \<Rightarrow> nat \<Rightarrow> nat \<Rightarrow> InstructionInfo list \<Rightarrow> bool" where
  "new_accesses opts M F skip b k B \<longleftrightarrow> distinct (map info_inst B) \<and>
     (\<forall>x \<in> set B. fst (info_inst x) = b \<and> snd (info_inst x) < k \<and>
        plain_access skip (tinst_at F (info_inst x)) \<and> \<not> exempt M (tinst_at F (info_inst x))) \<and>
     (\<forall>i < k. plain_access skip (tinst_at F (b, i)) \<longrightarrow> represented opts M F skip B (b, i))"

definition collected ::
  "tsan_options \<Rightarrow> tsan_module \<Rightarrow> tsan_function \<Rightarrow> (tsan_inst \<Rightarrow> bool) \<Rightarrow> nat \<Rightarrow> nat \<Rightarrow> InstructionInfo list \<Rightarrow>
   TsanToInstrument \<times> inst_ref list \<Rightarrow> bool" where
  "collected opts M F skip b n A0 st \<longleftrightarrow>
     (\<exists>B k. k \<le> n \<and> AllLoadsAndStores (fst st) = A0 @ B \<and> new_accesses opts M F skip b k B \<and>
        snd st = filter (\<lambda>r. plain_access skip (tinst_at F r)) (refs b k n) \<and>
        (\<forall>i \<in> {k..<n}. \<not> flushes skip (tinst_at F (b, i))))"

lemma flush_local:
  assumes "new_accesses opts M F skip b k B" "k \<le> n" "\<forall>i \<in> {k..<n}. \<not> flushes skip (tinst_at F (b, i))"
    and "Local = filter (\<lambda>r. plain_access skip (tinst_at F r)) (refs b k n)"
  shows "\<exists>C. chooseInstructionsToInstrument opts M F Local (A0 @ B) = A0 @ C \<and> new_accesses opts M F skip b n C"
proof -
  have members: "r \<in> set Local \<longleftrightarrow> fst r = b \<and> k \<le> snd r \<and> snd r < n \<and> plain_access skip (tinst_at F r)" for r
    unfolding assms(4) refs_def by (cases r) auto
  have "sorted_wrt (\<lambda>r s. snd r < snd s) (refs b k n)"
    unfolding refs_def by (simp add: sorted_wrt_map sorted_wrt_less_idx strict_sorted_iff)
  then have "sorted_wrt (\<lambda>r s. snd r < snd s) Local" unfolding assms(4) by (rule sorted_wrt_filter)
  moreover have "\<forall>r \<in> set Local. fst r = b \<and> (isa_LoadInst (opcode (tinst_at F r)) \<or> isa_StoreInst (opcode (tinst_at F r)))"
    using members by (auto simp: plain_access_def)
  ultimately have "chosen opts M F (A0 @ B) Local (fold (choose_step opts M F) (rev Local) (A0 @ B, Map.empty))"
    by (intro choose_chosen)
  then obtain D where D: "chooseInstructionsToInstrument opts M F Local (A0 @ B) = (A0 @ B) @ D"
    "distinct (map info_inst D)" "\<forall>x \<in> set D. info_inst x \<in> set Local \<and> \<not> exempt M (tinst_at F (info_inst x))"
    "\<forall>r \<in> set Local. accounted opts M F D r"
    unfolding chosen_def chooseInstructionsToInstrument_def by auto
  have "\<forall>x \<in> set B. info_inst x \<notin> set Local"
    using assms(1) members unfolding new_accesses_def by (metis leD)
  moreover have "info_inst ` set D \<subseteq> set Local" using D(3) by blast
  ultimately have "info_inst ` set B \<inter> info_inst ` set D = {}" by blast
  then have "distinct (map info_inst (B @ D))" using assms(1) D(2) unfolding new_accesses_def by simp
  moreover have "fst (info_inst x) = b \<and> snd (info_inst x) < n \<and>
      plain_access skip (tinst_at F (info_inst x)) \<and> \<not> exempt M (tinst_at F (info_inst x))"
    if "x \<in> set (B @ D)" for x
    using that assms(1,2) D(3) members unfolding new_accesses_def by fastforce
  moreover have "represented opts M F skip (B @ D) (b, i)"
    if i: "i < n" "plain_access skip (tinst_at F (b, i))" for i
  proof (cases "i < k")
    case True
    then have "represented opts M F skip B (b, i)" using assms(1) i(2) unfolding new_accesses_def by blast
    then show ?thesis by (rule represented_mono) simp
  next
    case False
    then have "accounted opts M F D (b, i)" using D(4) i members by simp
    moreover have "covered_read opts F skip x (b, i)" if "x \<in> set D" "read_before_write opts F x (b, i)" for x
      using that D(3) members False assms(3) unfolding covered_read_def by fastforce
    ultimately have "represented opts M F skip D (b, i)" unfolding accounted_def represented_def by blast
    then show ?thesis by (rule represented_mono) simp
  qed
  ultimately have "new_accesses opts M F skip b n (B @ D)" unfolding new_accesses_def by blast
  then show ?thesis using D(1) by (intro exI [of _ "B @ D"]) simp
qed

lemma refs_Suc: "k \<le> n \<Longrightarrow> refs b k (Suc n) = refs b k n @ [(b, n)]"
  by (simp add: refs_def)

lemma scan_inst_collected:
  assumes "collected opts M F skip b n A0 st"
  shows "collected opts M F skip b (Suc n) A0 (scan_inst opts M F skip (b, n) st)"
proof -
  let ?I = "tinst_at F (b, n)"
  obtain T Local where st: "st = (T, Local)" by force
  obtain B k where B: "k \<le> n" "AllLoadsAndStores T = A0 @ B" "new_accesses opts M F skip b k B"
    "Local = filter (\<lambda>r. plain_access skip (tinst_at F r)) (refs b k n)"
    "\<forall>i \<in> {k..<n}. \<not> flushes skip (tinst_at F (b, i))"
    using assms unfolding collected_def st by auto
  show ?thesis
  proof (cases "flushes skip ?I")
    case True
    obtain C where C: "chooseInstructionsToInstrument opts M F Local (A0 @ B) = A0 @ C" "new_accesses opts M F skip b n C"
      using flush_local [OF B(3,1,5,4)] by blast
    have "new_accesses opts M F skip b (Suc n) C"
      using C(2) True unfolding new_accesses_def flushes_def plain_access_def by (metis less_Suc_eq)
    then show ?thesis
      using True B(2) C(1) unfolding st collected_def scan_inst_def flushes_def
      by (intro exI [of _ C] exI [of _ "Suc n"]) (simp add: Let_def refs_def)
  next
    case False
    have "snd (scan_inst opts M F skip (b, n) st) = Local @ (if plain_access skip ?I then [(b, n)] else [])"
      "AllLoadsAndStores (fst (scan_inst opts M F skip (b, n) st)) = AllLoadsAndStores T"
      using False unfolding st scan_inst_def flushes_def plain_access_def by (auto simp: Let_def)
    moreover have "\<forall>i \<in> {k..<Suc n}. \<not> flushes skip (tinst_at F (b, i))" using B(5) False by (auto simp: less_Suc_eq)
    ultimately show ?thesis
      unfolding collected_def using B(1-4)
      by (intro exI [of _ B] exI [of _ k]) (simp add: refs_Suc)
  qed
qed

lemma collect_refs_collected:
  assumes "AllLoadsAndStores T = A0"
  shows "collected opts M F skip b n A0 (fold (scan_inst opts M F skip) (refs b 0 n) (T, []))"
proof (induction n)
  case 0
  show ?case using assms by (auto simp: collected_def refs_def new_accesses_def intro!: exI [of _ "[]"])
next
  case (Suc n)
  then show ?case using scan_inst_collected by (simp add: refs_Suc)
qed

lemma scan_block_new:
  "\<exists>C. AllLoadsAndStores (scan_block opts M F skip b T) = AllLoadsAndStores T @ C \<and>
     new_accesses opts M F skip b (length (tinsts (blocks F ! b))) C"
proof -
  let ?n = "length (tinsts (blocks F ! b))"
  obtain T' Local where fold: "fold (scan_inst opts M F skip) (refs b 0 ?n) (T, []) = (T', Local)" by force
  with collect_refs_collected [OF refl, where T = T and n = ?n and opts = opts and M = M and F = F and skip = skip and b = b]
  obtain B k where B: "k \<le> ?n" "AllLoadsAndStores T' = AllLoadsAndStores T @ B" "new_accesses opts M F skip b k B"
    "Local = filter (\<lambda>r. plain_access skip (tinst_at F r)) (refs b k ?n)"
    "\<forall>i \<in> {k..<?n}. \<not> flushes skip (tinst_at F (b, i))"
    unfolding collected_def by auto
  from flush_local [OF B(3,1,5,4)] fold B(2) show ?thesis
    by (auto simp: scan_block_def block_refs_def refs_def [symmetric])
qed

lemma scan_blocks_new:
  "\<exists>C. AllLoadsAndStores (fold (scan_block opts M F skip) [0..<n] no_targets) = C \<and> distinct (map info_inst C) \<and>
     (\<forall>x \<in> set C. fst (info_inst x) < n \<and> snd (info_inst x) < length (tinsts (blocks F ! fst (info_inst x))) \<and>
        plain_access skip (tinst_at F (info_inst x)) \<and> \<not> exempt M (tinst_at F (info_inst x))) \<and>
     (\<forall>b < n. \<forall>i < length (tinsts (blocks F ! b)).
        plain_access skip (tinst_at F (b, i)) \<longrightarrow> represented opts M F skip C (b, i))"
proof (induction n)
  case 0
  show ?case by (simp add: no_targets_def)
next
  case (Suc n)
  then obtain C where C: "AllLoadsAndStores (fold (scan_block opts M F skip) [0..<n] no_targets) = C"
    "distinct (map info_inst C)"
    "\<forall>x \<in> set C. fst (info_inst x) < n \<and> snd (info_inst x) < length (tinsts (blocks F ! fst (info_inst x))) \<and>
        plain_access skip (tinst_at F (info_inst x)) \<and> \<not> exempt M (tinst_at F (info_inst x))"
    "\<forall>b < n. \<forall>i < length (tinsts (blocks F ! b)).
        plain_access skip (tinst_at F (b, i)) \<longrightarrow> represented opts M F skip C (b, i)" by blast
  obtain D where D: "AllLoadsAndStores (fold (scan_block opts M F skip) [0..<Suc n] no_targets) = C @ D"
    "new_accesses opts M F skip n (length (tinsts (blocks F ! n))) D"
    using scan_block_new [of opts M F skip n "fold (scan_block opts M F skip) [0..<n] no_targets"] C(1) by auto
  have "distinct (map info_inst (C @ D))"
    using C(2,3) D(2) unfolding new_accesses_def by fastforce
  moreover have "\<forall>x \<in> set (C @ D). fst (info_inst x) < Suc n \<and>
      snd (info_inst x) < length (tinsts (blocks F ! fst (info_inst x))) \<and>
      plain_access skip (tinst_at F (info_inst x)) \<and> \<not> exempt M (tinst_at F (info_inst x))"
    using C(3) D(2) unfolding new_accesses_def by auto
  moreover have "represented opts M F skip (C @ D) (b, i)"
    if "b < Suc n" "i < length (tinsts (blocks F ! b))" "plain_access skip (tinst_at F (b, i))" for b i
  proof (cases "b = n")
    case True
    then have "represented opts M F skip D (b, i)" using D(2) that unfolding new_accesses_def by blast
    then show ?thesis by (rule represented_mono) simp
  next
    case False
    then have "represented opts M F skip C (b, i)" using C(4) that by simp
    then show ?thesis by (rule represented_mono) simp
  qed
  ultimately show ?case using D(1) by blast
qed

lemma scan_function_accesses:
  "distinct (map info_inst (AllLoadsAndStores (scan_function opts M F skip)))"
  "x \<in> set (AllLoadsAndStores (scan_function opts M F skip)) \<Longrightarrow>
     plain_access skip (tinst_at F (info_inst x)) \<and> \<not> exempt M (tinst_at F (info_inst x))"
  "b < length (blocks F) \<Longrightarrow> i < length (tinsts (blocks F ! b)) \<Longrightarrow> plain_access skip (tinst_at F (b, i)) \<Longrightarrow>
     represented opts M F skip (AllLoadsAndStores (scan_function opts M F skip)) (b, i)"
  using scan_blocks_new [of opts M F skip "length (blocks F)"] unfolding scan_function_def by blast+

text \<open>Three accesses of one function, for the witnesses: a load, an atomic load and a store.\<close>

definition example_module :: tsan_module where
  "example_module =
     \<lparr>value_at = (\<lambda>v. if v = 9 then GlobalVariable None ''counter'' False else OtherValue),
      stripInBoundsOffsets = id, getUnderlyingObject = id, PointerMayBeCaptured = (\<lambda>v. True),
      PointerAddressSpace = (\<lambda>v. 0), isSwiftError = (\<lambda>v. False),
      getTypeStoreSizeInBits = (\<lambda>t. 32), cnts_section = ''__llvm_prf_cnts''\<rparr>"

definition example_inst :: "Opcode \<Rightarrow> u8 option \<Rightarrow> tvalue \<Rightarrow> tsan_inst" where
  "example_inst opc scope ptr =
     \<lparr>opcode = opc, MD_nosanitize = False, mayWriteToMemory = isa_StoreInst opc, isAtomic = (scope \<noteq> None),
      AtomicSyncScopeID = scope, isPseudoProbe = False, isLifetimeStartOrEnd = False,
      callKind = NoCall, MemIntrinsic = None, CallArgs = [], PointerOperand = ptr, ValueOperand = 0,
      CompareOperand = 0, AccessType = IntegerTy 32, Align = 4, Volatile = False, TBAAVtableAccess = False,
      Operation = Xchg, DelegateToXSan = False\<rparr>"

definition example_function :: "tsan_inst list \<Rightarrow> tsan_function" where
  "example_function Is =
     \<lparr>fname = ''f'', Naked = False, DisableSanitizerInstrumentation = False, SanitizeThread = True,
      NoCheckingAtRunTime = False, blocks = [\<lparr>tinsts = Is, tsuccs = []\<rparr>]\<rparr>"

lemmas example_defs = example_module_def example_inst_def example_function_def default_options_def

section \<open>The calls inserted in front of accesses\<close>

text \<open>The instructions that get a call in front of them.\<close>

fun checked_refs :: "edit list \<Rightarrow> inst_ref list" where
  "checked_refs [] = []"
| "checked_refs (CallBefore r f args # es) = r # checked_refs es"
| "checked_refs (_ # es) = checked_refs es"

lemma checked_refs_append [simp]: "checked_refs (es @ es') = checked_refs es @ checked_refs es'"
  by (induction es rule: checked_refs.induct) simp_all

lemma checked_refs_none: "\<forall>e \<in> set es. \<forall>r f args. e \<noteq> CallBefore r f args \<Longrightarrow> checked_refs es = []"
  by (induction es rule: checked_refs.induct) auto

text \<open>The accesses that have a callback: of a regular size, and not of a \<open>swifterror\<close> value.\<close>

definition instrumentable :: "tsan_module \<Rightarrow> tsan_inst \<Rightarrow> bool" where
  "instrumentable M I \<longleftrightarrow> \<not> isSwiftError M (PointerOperand I) \<and> getMemoryAccessFuncIndex M (AccessType I) \<noteq> None"

lemma instrumentLoadOrStore_refs:
  "instrumentLoadOrStore opts M F x = Some (Res, es) \<Longrightarrow>
   checked_refs es = (if instrumentable M (tinst_at F (info_inst x)) then [info_inst x] else [])"
  by (auto simp: instrumentLoadOrStore_def instrumentable_def Let_def split: if_splits option.splits)

lemma instrument_all_refs:
  "instrument_all (instrumentLoadOrStore opts M F) xs = Some (Res, es) \<Longrightarrow>
   checked_refs es = filter (\<lambda>r. instrumentable M (tinst_at F r)) (map info_inst xs)"
proof (induction xs arbitrary: Res es)
  case (Cons x xs)
  then show ?case using instrumentLoadOrStore_refs [of opts M F x]
    by (auto split: option.splits prod.splits if_splits)
qed simp

lemma instrument_all_atomic_refs:
  "instrument_all (instrumentAtomic M F) rs = Some (Res, es) \<Longrightarrow> checked_refs es = []"
proof (induction rs arbitrary: Res es)
  case (Cons r rs)
  have "instrumentAtomic M F r = Some (R, es) \<Longrightarrow> checked_refs es = []" for R es
    unfolding instrumentAtomic_def by (auto simp: Let_def split: Opcode.splits option.splits prod.splits)
  then show ?case using Cons by (auto split: option.splits prod.splits)
qed simp

lemma other_refs:
  "checked_refs (concat (map (instrumentMemIntrinsic F) rs)) = []"
  "checked_refs (InsertRuntimeIgnores opts) = []" "checked_refs (func_entry_exit opts) = []"
  "checked_refs (xsan_func_entry_exit opts) = []"
  by (induction rs)
    (auto simp: instrumentMemIntrinsic_def Let_def InsertRuntimeIgnores_def func_entry_exit_def
      xsan_func_entry_exit_def split: option.splits mem_intrinsic.splits)

lemma tsan_checked_refs:
  assumes "tsan_sanitizeFunction opts M F = Some (Res, es)" "\<not> shouldSkipFunction F"
    and "ClInstrumentMemoryAccesses opts" "SanitizeThread F"
  shows "checked_refs es = filter (\<lambda>r. instrumentable M (tinst_at F r))
    (map info_inst (AllLoadsAndStores (scan_function opts M F skip_inst)))"
  using assms unfolding tsan_sanitizeFunction_def shouldSkipFunction_def tsan_scan Let_def
  by (auto split: if_splits option.splits prod.splits dest!: instrument_all_refs instrument_all_atomic_refs
      simp: other_refs)

lemma xsan_checked_refs:
  assumes "xsan_sanitizeFunction opts M F (Some T) = Some (Res, es)" "\<not> shouldSkipFunction F"
    and "ClInstrumentMemoryAccesses opts" "SanitizeThread F"
  shows "checked_refs es = filter (\<lambda>r. instrumentable M (tinst_at F r)) (map info_inst (AllLoadsAndStores T))"
  using assms unfolding xsan_sanitizeFunction_def Let_def
  by (auto split: if_splits option.splits prod.splits dest!: instrument_all_refs instrument_all_atomic_refs
      simp: other_refs)

text \<open>C15: In a function to be sanitized, with accesses instrumented, the pass puts exactly one call in
  front of each access that it chose and that has a callback (a size of 1, 2, 4, 8 or 16 bytes, no
  swifterror value), and none in front of other instructions.  It chooses only plain accesses that
  are not exempt (an address TSan cannot handle, constant data, a variable of this thread only), and
  each of these is chosen, or is a read followed in its block, with no call in between, by a chosen
  write to the same address that is marked as compound.\<close>
theorem tsan_accesses_accounted:
  assumes "tsan_sanitizeFunction opts M F = Some (Res, es)" "\<not> shouldSkipFunction F"
    and "ClInstrumentMemoryAccesses opts" "SanitizeThread F"
  shows "let xs = AllLoadsAndStores (collect_function opts M F) in
    distinct (checked_refs es) \<and>
    (\<forall>r. r \<in> set (checked_refs es) \<longleftrightarrow> r \<in> info_inst ` set xs \<and> instrumentable M (tinst_at F r)) \<and>
    (\<forall>x \<in> set xs. plain_access skip_inst (tinst_at F (info_inst x)) \<and> \<not> exempt M (tinst_at F (info_inst x))) \<and>
    (\<forall>b < length (blocks F). \<forall>i < length (tinsts (blocks F ! b)).
       plain_access skip_inst (tinst_at F (b, i)) \<longrightarrow> \<not> exempt M (tinst_at F (b, i)) \<longrightarrow>
       (\<exists>x \<in> set xs. info_inst x = (b, i) \<or> covered_read opts F skip_inst x (b, i)))"
proof -
  let ?A = "AllLoadsAndStores (scan_function opts M F skip_inst)"
  note acc = scan_function_accesses [where opts = opts and M = M and F = F and skip = skip_inst]
  have refs: "checked_refs es = filter (\<lambda>r. instrumentable M (tinst_at F r)) (map info_inst ?A)"
    by (rule tsan_checked_refs [OF assms])
  have "\<exists>x \<in> set ?A. info_inst x = (b, i) \<or> covered_read opts F skip_inst x (b, i)"
    if "b < length (blocks F)" "i < length (tinsts (blocks F ! b))"
      "plain_access skip_inst (tinst_at F (b, i))" "\<not> exempt M (tinst_at F (b, i))" for b i
    using acc(3) [OF that(1-3)] that(4) unfolding represented_def by fastforce
  moreover have "distinct (checked_refs es)" unfolding refs using acc(1) by simp
  moreover have "r \<in> set (checked_refs es) \<longleftrightarrow> r \<in> info_inst ` set ?A \<and> instrumentable M (tinst_at F r)" for r
    unfolding refs by auto
  ultimately show ?thesis using acc(2) unfolding Let_def tsan_scan by blast
qed

lemma tsan_accesses_accounted_witness:
  "\<exists>es. tsan_sanitizeFunction default_options example_module (example_function
       [example_inst (LoadInst NotAtomic) None 9, example_inst (StoreInst NotAtomic) None 9]) = Some (True, es) \<and>
     distinct (checked_refs es)"
proof -
  let ?F = "example_function [example_inst (LoadInst NotAtomic) None 9, example_inst (StoreInst NotAtomic) None 9]"
  have "map_option fst (tsan_sanitizeFunction default_options example_module ?F) = Some True" by code_simp
  then obtain es where es: "tsan_sanitizeFunction default_options example_module ?F = Some (True, es)" by auto
  have "\<not> shouldSkipFunction ?F" "ClInstrumentMemoryAccesses default_options" "SanitizeThread ?F"
    by (simp_all add: shouldSkipFunction_def example_defs)
  from tsan_accesses_accounted [OF es this] have "distinct (checked_refs es)" unfolding Let_def by (rule conjunct1)
  with es show ?thesis by (intro exI conjI)
qed

text \<open>An atomic operation does not end the stretch in which a read is left out for a later write:
  a read before an acquire operation is hidden by a write after it, so that a race of the read with
  a write that the operation synchronises with is missed.\<close>
theorem read_hidden_across_atomic:
  assumes "blocks F = [\<lparr>tinsts = [R, A, W], tsuccs = ss\<rparr>]"
    and "plain_access skip R" "isa_LoadInst (opcode R)" "plain_access skip W" "isa_StoreInst (opcode W)"
    and "\<not> skip A" "isTsanAtomic A" "PointerOperand R = PointerOperand W" "\<not> exempt M W"
  shows "AllLoadsAndStores (scan_function default_options M F skip) = [\<lparr>info_inst = (0, 2), kCompoundRW = True\<rparr>] \<and>
    AtomicAccesses (scan_function default_options M F skip) = [(0, 1)]"
proof -
  have at: "tinst_at F (0, 0) = R" "tinst_at F (0, Suc 0) = A" "tinst_at F (0, 2) = W"
    using assms(1) by (simp_all add: tinst_at_def)
  have R: "\<not> isa_StoreInst (opcode R)" using assms(3) by (cases "opcode R") auto
  have W: "\<not> isa_LoadInst (opcode W)" using assms(5) by (cases "opcode W") auto
  have scan: "fold (scan_inst default_options M F skip) (block_refs F 0) (no_targets, []) =
      (no_targets\<lparr>AtomicAccesses := [(0, 1)]\<rparr>, [(0, 0), (0, 2)])"
    using assms(1-7) at
    by (simp add: block_refs_def scan_inst_def no_targets_def plain_access_def numeral_2_eq_2)
  have "choose_step default_options M F (0, 2) ([], Map.empty) =
      ([new_InstructionInfo (0, 2)], [PointerOperand W \<mapsto> 0])"
    using assms(5,9) at by (simp add: choose_step_def instrument_this_def exempt_def)
  moreover have "choose_step default_options M F (0, 0) ([new_InstructionInfo (0, 2)], [PointerOperand W \<mapsto> 0]) =
      ([\<lparr>info_inst = (0, 2), kCompoundRW = True\<rparr>], [PointerOperand W \<mapsto> 0])"
    using assms(8,9) at R
    by (simp add: choose_step_def exempt_def default_options_def AnyVolatile_def new_InstructionInfo_def)
  ultimately have "chooseInstructionsToInstrument default_options M F [(0, 0), (0, 2)] [] =
      [\<lparr>info_inst = (0, 2), kCompoundRW = True\<rparr>]"
    by (simp add: chooseInstructionsToInstrument_def)
  then show ?thesis using assms(1) scan by (simp add: scan_function_def scan_block_def no_targets_def)
qed

lemma read_hidden_across_atomic_witness:
  "AllLoadsAndStores (scan_function default_options example_module
     (example_function [example_inst (LoadInst NotAtomic) None 9, example_inst (LoadInst Acquire) (Some 1) 8,
        example_inst (StoreInst NotAtomic) None 9]) skip_inst) = [\<lparr>info_inst = (0, 2), kCompoundRW = True\<rparr>]"
  by (rule conjunct1 [OF read_hidden_across_atomic [where R = "example_inst (LoadInst NotAtomic) None 9"
        and A = "example_inst (LoadInst Acquire) (Some 1) 8" and W = "example_inst (StoreInst NotAtomic) None 9"]])
    (simp_all add: example_defs plain_access_def skip_inst_def isTsanAtomic_def SingleThread_def exempt_def
      not_captured_def shouldInstrumentReadWriteFromAddress_def prefix_def)


section \<open>The function called for an access\<close>

lemma access_sizes:
  assumes "getMemoryAccessFuncIndex M ty = Some Idx"
  shows "Idx \<le> 4" "unat ((ucast (getTypeStoreSizeInBits M ty) :: u32) div 8) = ByteSize Idx"
    "unat (ucast (getTypeStoreSizeInBits M ty) :: u32) = BitSize Idx"
proof -
  let ?s = "ucast (getTypeStoreSizeInBits M ty) :: u32"
  from assms have "?s = 8 \<or> ?s = 16 \<or> ?s = 32 \<or> ?s = 64 \<or> ?s = 128"
    by (auto simp: getMemoryAccessFuncIndex_def Let_def split: if_splits)
  then show "Idx \<le> 4" "unat (?s div 8) = ByteSize Idx" "unat ?s = BitSize Idx"
    using assms by (auto simp: getMemoryAccessFuncIndex_def Let_def ByteSize_def BitSize_def)
qed

definition power_of_two :: "nat \<Rightarrow> bool" where
  "power_of_two n \<longleftrightarrow> (\<exists>k. n = 2 ^ k)"

text \<open>The bytes of an access of size \<open>s\<close> at \<open>a\<close> lie in as few shadow granules as possible.\<close>

definition fits_granules :: "nat \<Rightarrow> nat \<Rightarrow> bool" where
  "fits_granules s a \<longleftrightarrow> (if s \<le> 8 then a mod 8 + s \<le> 8 else a mod 8 = 0)"

lemma dvd_fits:
  assumes "i \<le> 3" "(2::nat) ^ i dvd a"
  shows "a mod 8 + 2 ^ i \<le> 8"
proof -
  have "(2::nat) ^ i dvd 8" using le_imp_power_dvd [OF assms(1), of "2::nat"] by simp
  then have "2 ^ i dvd a mod 8" using assms(2) by (metis dvd_mod)
  then obtain q where q: "a mod 8 = 2 ^ i * q" by blast
  from \<open>(2::nat) ^ i dvd 8\<close> obtain p where p: "(8::nat) = 2 ^ i * p" by blast
  have "2 ^ i * q < 2 ^ i * p" using q p pos_mod_bound by (metis mod_less_divisor zero_less_numeral)
  then have "q + 1 \<le> p" by simp
  then have "2 ^ i * (q + 1) \<le> 2 ^ i * p" by (rule mult_le_mono2)
  then show ?thesis using q p by simp
qed

lemma aligned_access_exact:
  assumes "getMemoryAccessFuncIndex M (AccessType I) = Some Idx" "power_of_two (Align I)"
  shows "aligned_access M I \<longleftrightarrow> (\<forall>a. Align I dvd a \<longrightarrow> fits_granules (ByteSize Idx) a)"
proof -
  obtain k where k: "Align I = 2 ^ k" using assms(2) by (auto simp: power_of_two_def)
  have dvd: "(2::nat) ^ i dvd 2 ^ j \<longleftrightarrow> i \<le> j" for i j by (rule dvd_power_iff_le) simp
  have Idx: "Idx \<le> 4" by (rule access_sizes(1) [OF assms(1)])
  have aligned: "aligned_access M I \<longleftrightarrow> 3 \<le> k \<or> Idx \<le> k"
  proof -
    have "(8::nat) \<le> 2 ^ k \<longleftrightarrow> 3 \<le> k" using power_increasing_iff [of "2::nat" 3 k] by simp
    moreover have "(2::nat) ^ k mod 2 ^ Idx = 0 \<longleftrightarrow> Idx \<le> k" using dvd by (simp add: mod_eq_0_iff_dvd)
    ultimately show ?thesis
      unfolding aligned_access_def access_sizes(2) [OF assms(1)] k ByteSize_def by simp
  qed
  show ?thesis
  proof
    assume "aligned_access M I"
    show "\<forall>a. Align I dvd a \<longrightarrow> fits_granules (ByteSize Idx) a"
    proof (intro allI impI)
      fix a assume "Align I dvd a"
      then have a: "2 ^ i dvd a" if "i \<le> k" for i using that k dvd by (metis dvd_trans)
      show "fits_granules (ByteSize Idx) a"
      proof (cases "Idx \<le> 3")
        case True
        then have "2 ^ Idx dvd a" using a \<open>aligned_access M I\<close> aligned by (cases "Idx \<le> k") auto
        then show ?thesis
          using dvd_fits [OF True] power_increasing [OF True, of "2::nat"] by (simp add: fits_granules_def ByteSize_def)
      next
        case False
        then have "3 \<le> k" "Idx = 4" using \<open>aligned_access M I\<close> aligned Idx by auto
        then show ?thesis using a [of 3] by (simp add: fits_granules_def ByteSize_def dvd_eq_mod_eq_0)
      qed
    qed
  next
    assume fits: "\<forall>a. Align I dvd a \<longrightarrow> fits_granules (ByteSize Idx) a"
    show "aligned_access M I"
    proof (rule ccontr)
      assume "\<not> aligned_access M I"
      then have less: "k < 3" "k < Idx" using aligned by auto
      have "fits_granules (2 ^ Idx) (8 - 2 ^ k)"
        using fits k dvd [of k 3] less(1) by (simp add: ByteSize_def dvd_diff_nat)
      moreover have "k = 0 \<or> k = 1 \<or> k = 2" "Idx = 1 \<or> Idx = 2 \<or> Idx = 3 \<or> Idx = 4" using less Idx by auto
      ultimately show False using less(2) by (elim disjE) (simp_all add: fits_granules_def)
    qed
  qed
qed

text \<open>The name of the callback, by what it is told about the access.\<close>

definition callback_name :: "bool \<Rightarrow> bool \<Rightarrow> bool \<Rightarrow> bool \<Rightarrow> nat \<Rightarrow> string" where
  "callback_name aligned compound volatile write bytes =
     ''__tsan_'' @ (if aligned then [] else ''unaligned_'') @
     (if compound then ''read_write'' else (if volatile then ''volatile_'' else []) @
        (if write then ''write'' else ''read'')) @ utostr bytes"

text \<open>C18: An access with a callback, which no tbaa metadata marks as a vtable access, gets one call
  with its address, whose name gives its size, whether it is a write, a compound or a volatile one,
  and says \<open>unaligned\<close> unless the alignment of the access guarantees that it touches one granule of
  eight bytes, or two whole ones for sixteen bytes.\<close>
theorem aligned_callback_exact:
  assumes "instrumentLoadOrStore opts M F x = Some (Res, es)" "power_of_two (Align (tinst_at F (info_inst x)))"
    and "getMemoryAccessFuncIndex M (AccessType (tinst_at F (info_inst x))) = Some Idx"
    and "\<not> isSwiftError M (PointerOperand (tinst_at F (info_inst x)))"
    and "\<not> TBAAVtableAccess (tinst_at F (info_inst x))"
  shows "es = [CallBefore (info_inst x)
    (callback_name (\<forall>a. Align (tinst_at F (info_inst x)) dvd a \<longrightarrow> fits_granules (ByteSize Idx) a)
       (ClCompoundReadBeforeWrite opts \<and> kCompoundRW x)
       (ClDistinguishVolatile opts \<and> Volatile (tinst_at F (info_inst x)))
       (isa_StoreInst (opcode (tinst_at F (info_inst x)))) (ByteSize Idx))
    [Addr_arg (PointerOperand (tinst_at F (info_inst x)))]]"
  using assms(1,3-5) unfolding aligned_access_exact [OF assms(3,2), symmetric]
  by (auto simp: instrumentLoadOrStore_def Let_def OnAccessFunc_def callback_name_def TsanRead_def TsanWrite_def
      TsanUnalignedRead_def TsanUnalignedWrite_def TsanVolatileRead_def TsanVolatileWrite_def
      TsanUnalignedVolatileRead_def TsanUnalignedVolatileWrite_def TsanCompoundRW_def TsanUnalignedCompoundRW_def
      split: if_splits simp del: utostr.simps)

lemma aligned_callback_exact_witness:
  "instrumentLoadOrStore default_options example_module (example_function [example_inst (LoadInst NotAtomic) None 9])
     (new_InstructionInfo (0, 0)) = Some (True, [CallBefore (0, 0) ''__tsan_read4'' [Addr_arg 9]]) \<and>
   (\<exists>aligned. ''__tsan_read4'' = callback_name aligned False False False 4)"
proof -
  let ?F = "example_function [example_inst (LoadInst NotAtomic) None 9]" and ?x = "new_InstructionInfo (0, 0)"
  have x: "info_inst ?x = (0, 0)" "tinst_at ?F (0, 0) = example_inst (LoadInst NotAtomic) None 9" "\<not> kCompoundRW ?x"
    by (simp_all add: new_InstructionInfo_def tinst_at_def example_function_def)
  have run: "instrumentLoadOrStore default_options example_module ?F ?x =
      Some (True, [CallBefore (0, 0) ''__tsan_read4'' [Addr_arg 9]])"
    by code_simp
  have "power_of_two (Align (tinst_at ?F (info_inst ?x)))"
    unfolding power_of_two_def x by (rule exI [of _ 2]) (simp add: example_inst_def)
  moreover have "getMemoryAccessFuncIndex example_module (AccessType (tinst_at ?F (info_inst ?x))) = Some 2"
    unfolding x by (simp add: getMemoryAccessFuncIndex_def example_defs)
  ultimately have "[CallBefore (0, 0) ''__tsan_read4'' [Addr_arg 9]] =
      [CallBefore (0, 0) (callback_name (\<forall>a. 4 dvd a \<longrightarrow> fits_granules (ByteSize 2) a) False False False (ByteSize 2))
        [Addr_arg 9]]"
    using aligned_callback_exact [OF run, of 2] x by (simp add: example_defs)
  then have "''__tsan_read4'' = callback_name (\<forall>a. 4 dvd a \<longrightarrow> fits_granules (ByteSize 2) a) False False False (ByteSize 2)"
    by (simp only: list.inject edit.inject)
  then have "''__tsan_read4'' = callback_name (\<forall>a. 4 dvd a \<longrightarrow> fits_granules (ByteSize 2) a) False False False 4"
    by (simp only: ByteSize_def) (simp add: power2_eq_square)
  with run show ?thesis by blast
qed

section \<open>What replaces an atomic operation\<close>

definition result_type :: "tsan_inst \<Rightarrow> Ty option" where
  "result_type I = (case opcode I of
     LoadInst _ \<Rightarrow> Some (AccessType I)
   | AtomicRMWInst _ \<Rightarrow> Some (AccessType I)
   | AtomicCmpXchgInst _ _ \<Rightarrow> Some (PairTy (AccessType I))
   | _ \<Rightarrow> None)"

text \<open>C19: The call that replaces an atomic operation hands its uses a value of the type of the
  operation, except for a read-modify-write: its uses get the integer that the runtime returns, so
  the types agree exactly when it operates on integers, and an exchange of a floating-point number
  or a pointer leaves ill-typed uses.\<close>
theorem atomic_replacement_types:
  assumes "instrumentAtomic M F r = Some (Res, [Replace r' callee args t])"
  shows "t = result_type (tinst_at F r) \<longleftrightarrow>
    (\<forall>ord. opcode (tinst_at F r) = AtomicRMWInst ord \<longrightarrow>
       (\<exists>Idx. getMemoryAccessFuncIndex M (AccessType (tinst_at F r)) = Some Idx \<and>
          AccessType (tinst_at F r) = IntegerTy (BitSize Idx)))"
  using assms unfolding instrumentAtomic_def result_type_def
  by (auto simp: Let_def split: Opcode.splits option.splits prod.splits)

lemma utostr_32: "utostr 32 = ''32''"
  by code_simp

lemma atomic_replacement_types_witness:
  "let I = (example_inst (AtomicRMWInst Monotonic) (Some 1) 9)\<lparr>AccessType := FloatTy 32\<rparr>
   in instrumentAtomic example_module (example_function [I]) (0, 0) = Some (True,
        [Replace (0, 0) ''__tsan_atomic32_exchange'' [Addr_arg 9, Value_arg 0 (IntegerTy 32), Ordering_arg 0]
           (Some (IntegerTy 32))]) \<and>
      Some (IntegerTy 32) \<noteq> result_type I"
proof -
  let ?I = "(example_inst (AtomicRMWInst Monotonic) (Some 1) 9)\<lparr>AccessType := FloatTy 32\<rparr>"
  let ?F = "example_function [?I]"
  have at: "tinst_at ?F (0, 0) = ?I" by (simp add: tinst_at_def example_function_def)
  have "opcode ?I = AtomicRMWInst Monotonic" "AccessType ?I = FloatTy 32" "PointerOperand ?I = 9"
    "Operation ?I = Xchg" "ValueOperand ?I = 0" by (simp_all add: example_inst_def)
  moreover have idx: "getMemoryAccessFuncIndex example_module (FloatTy 32) = Some 2"
    by (simp add: getMemoryAccessFuncIndex_def example_defs)
  ultimately have run: "instrumentAtomic example_module ?F (0, 0) = Some (True,
      [Replace (0, 0) ''__tsan_atomic32_exchange'' [Addr_arg 9, Value_arg 0 (IntegerTy 32), Ordering_arg 0]
         (Some (IntegerTy 32))])"
    unfolding instrumentAtomic_def at
    by (simp add: TsanAtomicRMW_def rmw_name_part_def BitSize_def ByteSize_def utostr_32 del: utostr.simps)
  from atomic_replacement_types [OF run] have "Some (IntegerTy 32) \<noteq> result_type ?I"
    unfolding at by (simp add: example_inst_def idx)
  with run show ?thesis unfolding Let_def by blast
qed

section \<open>XSan's variant of the pass\<close>

lemma choose_step_intrinsics:
  "choose_step (opts\<lparr>ClInstrumentMemIntrinsics := m\<rparr>) M F = choose_step opts M F"
  by (intro ext) (auto simp: choose_step_def AnyVolatile_def Let_def split: option.splits)

lemma scan_inst_intrinsics:
  "scan_inst (opts\<lparr>ClInstrumentMemIntrinsics := m\<rparr>) M F skip = scan_inst opts M F skip"
  by (intro ext) (auto simp: scan_inst_def chooseInstructionsToInstrument_def choose_step_intrinsics
      Let_def split: prod.splits)

lemma scan_function_intrinsics:
  "scan_function (opts\<lparr>ClInstrumentMemIntrinsics := m\<rparr>) M F skip = scan_function opts M F skip"
proof -
  have "scan_block (opts\<lparr>ClInstrumentMemIntrinsics := m\<rparr>) M F skip = scan_block opts M F skip"
    by (intro ext) (simp add: scan_block_def scan_inst_intrinsics chooseInstructionsToInstrument_def
        choose_step_intrinsics)
  then show ?thesis by (simp add: scan_function_def)
qed

lemma scan_function_skip:
  assumes "\<And>b i. b < length (blocks F) \<Longrightarrow> i < length (tinsts (blocks F ! b)) \<Longrightarrow>
      skip (tinst_at F (b, i)) = skip' (tinst_at F (b, i))"
  shows "scan_function opts M F skip = scan_function opts M F skip'"
proof -
  have "scan_inst opts M F skip r st = scan_inst opts M F skip' r st"
    if "b < length (blocks F)" "r \<in> set (block_refs F b)" for b r st
    using that assms by (auto simp: scan_inst_def block_refs_def)
  then have "fold (scan_inst opts M F skip) (block_refs F b) st = fold (scan_inst opts M F skip') (block_refs F b) st"
    if "b < length (blocks F)" for b st
    using that by (intro fold_cong refl) (simp add: fun_eq_iff)
  then have "scan_block opts M F skip b T = scan_block opts M F skip' b T" if "b < length (blocks F)" for b T
    using that unfolding scan_block_def by simp
  then show ?thesis unfolding scan_function_def by (intro fold_cong) auto
qed

lemma instrumentLoadOrStore_intrinsics:
  "instrumentLoadOrStore (opts\<lparr>ClInstrumentMemIntrinsics := m\<rparr>) M F = instrumentLoadOrStore opts M F"
  by (intro ext) (auto simp: instrumentLoadOrStore_def Let_def split: option.splits)

text \<open>C17: Without the two reductions, and when no instruction is delegated to XSan, XSan's variant of
  the pass, which has its own copies of the scan and of the instrumentation, makes exactly the edits
  of the original pass with memory intrinsics left alone.\<close>
theorem xsan_matches_standalone:
  assumes "\<And>b i. b < length (blocks F) \<Longrightarrow> i < length (tinsts (blocks F ! b)) \<Longrightarrow> \<not> DelegateToXSan (tinst_at F (b, i))"
  shows "xsan_sanitizeFunction opts M F (TsanTargetsToInstrument_run opts M F None None) =
    tsan_sanitizeFunction (opts\<lparr>ClInstrumentMemIntrinsics := False\<rparr>) M F"
proof (cases "shouldSkipFunction F")
  case True
  then show ?thesis
    by (auto simp: xsan_sanitizeFunction_def TsanTargetsToInstrument_run_def xsan_scan tsan_sanitizeFunction_def
        shouldSkipFunction_def)
next
  case False
  have skip: "scan_function opts M F xsan_skip_inst = scan_function opts M F skip_inst"
    using assms by (intro scan_function_skip) (simp add: xsan_skip_inst_def skip_inst_def)
  have targets: "TsanTargetsToInstrument_run opts M F None None = Some (scan_function opts M F skip_inst)"
    using False by (simp add: TsanTargetsToInstrument_run_def xsan_scan skip)
  have names: "fname F \<noteq> ''tsan.module_ctor''" "\<not> Naked F" "\<not> DisableSanitizerInstrumentation F"
    using False by (auto simp: shouldSkipFunction_def split: if_splits)
  show ?thesis
    unfolding targets xsan_sanitizeFunction_def tsan_sanitizeFunction_def tsan_scan scan_function_intrinsics
      instrumentLoadOrStore_intrinsics
    using False names
    by (cases "NoCheckingAtRunTime F"; cases "SanitizeThread F")
      (auto simp: Let_def xsan_func_entry_exit_def func_entry_exit_def InsertRuntimeIgnores_def
        split: option.split prod.split)
qed

lemma xsan_matches_standalone_witness:
  "let F = example_function [example_inst (StoreInst NotAtomic) None 9]
   in xsan_sanitizeFunction default_options example_module F
        (TsanTargetsToInstrument_run default_options example_module F None None) =
      tsan_sanitizeFunction (default_options\<lparr>ClInstrumentMemIntrinsics := False\<rparr>) example_module F"
  unfolding Let_def
  by (rule xsan_matches_standalone) (simp add: tinst_at_def example_function_def example_inst_def)

end
