(* ===== verification/Tsan_Pipeline_Props.thy ===== *)
theory Tsan_Pipeline_Props
  imports Tsan_Inst_Props Recurrence_Props Stack_Race
begin

text \<open>
  The targets of TSan's pass under XSan: the accesses chosen by \<open>Tsan_Inst\<close> go through the
  stack-object race analysis (\<open>Stack_Race\<close>) and the recurring-check reduction (\<open>Recurrence\<close>),
  each run on its own view of the function.
\<close>

definition reducer_view :: "tsan_function \<Rightarrow> Func" where
  "reducer_view F =
     map (\<lambda>b. \<lparr>insts = map Instruction.truncate (tinsts b), succs = tsuccs b\<rparr>) (blocks F)"

definition tsan_targets ::
  "tsan_options \<Rightarrow> tsan_module \<Rightarrow> tsan_function \<Rightarrow> IRFunc \<Rightarrow> StackObjRaceResult \<Rightarrow> nat list \<Rightarrow> llvm_env \<Rightarrow>
   TsanToInstrument option" where
  "tsan_targets opts M F SF SOR RPOT env =
     TsanTargetsToInstrument_run opts M F (Some (mightRace SF SOR))
       (Some (\<lambda>NewLdSt. distillRecurringChecks RPOT (reducer_view F) env NewLdSt True False))"

lemma filterM_option_Some:
  "filterM_option f xs = Some ys \<Longrightarrow> ys = filter (\<lambda>x. f x = Some True) xs \<and> (\<forall>x \<in> set xs. f x \<noteq> None)"
  by (induction xs arbitrary: ys) (auto split: option.splits)

lemma tsan_targets_accesses:
  assumes "tsan_targets opts M F SF SOR RPOT env = Some T" "\<not> shouldSkipFunction F"
  defines "A \<equiv> map info_inst (AllLoadsAndStores (scan_function opts M F xsan_skip_inst))"
  shows "distillRecurringChecks RPOT (reducer_view F) env (filter (\<lambda>a. mightRace SF SOR a = Some True) A) True False =
      Some (map info_inst (AllLoadsAndStores T))"
    and "\<forall>a \<in> set A. mightRace SF SOR a \<noteq> None"
  using assms(1,2) unfolding tsan_targets_def TsanTargetsToInstrument_run_def xsan_scan A_def
  by (auto simp: Let_def new_InstructionInfo_def comp_def split: option.splits dest!: filterM_option_Some)

text \<open>C16: With both reductions on, in a function to be sanitized, every plain access that is not exempt
  is accounted for by an access \<open>x\<close> that was chosen - itself, or the write that stands for a read -
  and if \<open>x\<close> might race, a check that was kept covers all of its bytes, as a write if it is one, and
  has its call in front of it if it has a callback.  Every call is in front of a chosen access that
  might race.  This supposes that the whole-object shortcut of the reduction applies to no pair of
  accesses.\<close>
theorem tsan_targets_cover:
  assumes "tsan_targets opts M F SF SOR RPOT env = Some T" "collectTargetsToIntrument opts M F = Some Collected"
    and "xsan_sanitizeFunction opts M F (Some T) = Some (Res, es)"
    and "ClInstrumentMemoryAccesses opts" "SanitizeThread F"
    and "env_sound (reducer_view F) env addr"
    and "\<And>i j. \<not> wholeObjectOverwrite env i (MemoryLocation_get env i) (MemoryLocation_get env j)"
    and "b < length (blocks F)" "i < length (tinsts (blocks F ! b))"
    and "plain_access xsan_skip_inst (tinst_at F (b, i))" "\<not> exempt M (tinst_at F (b, i))"
  shows "(\<exists>x \<in> set (AllLoadsAndStores Collected).
      (info_inst x = (b, i) \<or> covered_read opts F xsan_skip_inst x (b, i)) \<and>
      (mightRace SF SOR (info_inst x) = Some True \<longrightarrow>
        (\<exists>k \<in> set (AllLoadsAndStores T). check_within (reducer_view F) env addr True (info_inst x) (info_inst k) \<and>
           (instrumentable M (tinst_at F (info_inst k)) \<longrightarrow> info_inst k \<in> set (checked_refs es))))) \<and>
    (\<forall>r \<in> set (checked_refs es). mightRace SF SOR r = Some True \<and> r \<in> info_inst ` set (AllLoadsAndStores Collected))"
proof -
  have noskip: "\<not> shouldSkipFunction F" and Collected: "Collected = scan_function opts M F xsan_skip_inst"
    using assms(2) by (auto simp: xsan_scan split: if_splits)
  let ?A = "map info_inst (AllLoadsAndStores Collected)"
  let ?R = "filter (\<lambda>a. mightRace SF SOR a = Some True) ?A"
  let ?C = "collectCandidates (collectEdges (reducer_view F) env True ?R)"
  note distilled = tsan_targets_accesses(1) [OF assms(1) noskip, folded Collected]
  have kept: "set (map info_inst (AllLoadsAndStores T)) \<subseteq> set ?R"
    and cover: "\<forall>d \<in> set ?R. \<exists>k \<in> set (map info_inst (AllLoadsAndStores T)).
      (active_cover RPOT (reducer_view F) env True False ?C)\<^sup>*\<^sup>* k d"
    using distill_cover [OF distilled] by blast+
  have calls: "checked_refs es = filter (\<lambda>r. instrumentable M (tinst_at F r)) (map info_inst (AllLoadsAndStores T))"
    by (rule xsan_checked_refs [OF assms(3) noskip assms(4,5)])
  have within: "\<exists>k \<in> set (AllLoadsAndStores T). check_within (reducer_view F) env addr True d (info_inst k)"
    if d: "d \<in> set ?R" for d
  proof -
    obtain r where r: "r \<in> set (map info_inst (AllLoadsAndStores T))"
      "(active_cover RPOT (reducer_view F) env True False ?C)\<^sup>*\<^sup>* r d"
      using bspec [OF cover d] by (rule bexE)
    have "check_within (reducer_view F) env addr True d r"
      by (rule active_cover_within [OF assms(6) r(2)]) (intro ballI assms(7))
    with r(1) show ?thesis by (simp only: set_map) (erule imageE, blast)
  qed
  have "represented opts M F xsan_skip_inst (AllLoadsAndStores Collected) (b, i)"
    unfolding Collected by (rule scan_function_accesses(3) [OF assms(8-10)])
  then obtain x where x: "x \<in> set (AllLoadsAndStores Collected)"
    "info_inst x = (b, i) \<or> covered_read opts F xsan_skip_inst x (b, i)"
    using assms(11) unfolding represented_def by auto
  have "mightRace SF SOR (info_inst x) = Some True \<Longrightarrow> info_inst x \<in> set ?R" using x(1) by simp
  moreover have "info_inst k \<in> set (checked_refs es)"
    if "k \<in> set (AllLoadsAndStores T)" "instrumentable M (tinst_at F (info_inst k))" for k
    unfolding calls using that by simp
  ultimately have "mightRace SF SOR (info_inst x) = Some True \<longrightarrow>
      (\<exists>k \<in> set (AllLoadsAndStores T). check_within (reducer_view F) env addr True (info_inst x) (info_inst k) \<and>
         (instrumentable M (tinst_at F (info_inst k)) \<longrightarrow> info_inst k \<in> set (checked_refs es)))"
    using within by blast
  moreover have "mightRace SF SOR r = Some True \<and> r \<in> info_inst ` set (AllLoadsAndStores Collected)"
    if "r \<in> set (checked_refs es)" for r
    using kept that unfolding calls by auto
  ultimately show ?thesis using x by blast
qed

text \<open>Two stores to the same address; the longer one covers the other.\<close>

definition two_stores :: tsan_function where
  "two_stores = example_function [example_inst (StoreInst NotAtomic) None 9, example_inst (StoreInst NotAtomic) None 9]"

definition store_view :: IRFunc where
  "store_view =
     (let I = \<lparr>Opcode_of = StoreOp, Operands = [OtherOperand 0, OtherOperand 9], NoSanitize = False,
        DelegatesToXSan = False, IsIntrinsic = False, ReadsMemory = False, WritesMemory = True,
        ReturnsAliasedArgument = False, CalleeOperand = 0, DataOperands = [], NoCaptureOperands = [],
        RetTy = 0, ArgTys = []\<rparr>
      in [\<lparr>Insts = [I, I], Succs = []\<rparr>])"

lemma two_stores_targets:
  "map_option (\<lambda>T. map info_inst (AllLoadsAndStores T))
     (tsan_targets default_options example_module two_stores store_view Map.empty [0] same_pointer_env) = Some [(0, 1)]"
  by code_simp

lemma two_stores_sound: "env_sound (reducer_view two_stores) same_pointer_env int"
  by (auto simp: env_sound_def same_pointer_env_def)

lemma tsan_targets_cover_witness:
  "\<exists>T es. tsan_targets default_options example_module two_stores store_view Map.empty [0] same_pointer_env = Some T \<and>
     xsan_sanitizeFunction default_options example_module two_stores (Some T) = Some (True, es) \<and>
     (\<exists>C x. collectTargetsToIntrument default_options example_module two_stores = Some C \<and> x \<in> set (AllLoadsAndStores C) \<and>
        (info_inst x = (0, 0) \<or> covered_read default_options two_stores xsan_skip_inst x (0, 0)))"
proof -
  let ?run = "Option.bind (tsan_targets default_options example_module two_stores store_view Map.empty [0] same_pointer_env)
    (\<lambda>T. xsan_sanitizeFunction default_options example_module two_stores (Some T))"
  have "map_option fst ?run = Some True" by code_simp
  then obtain T es where T: "tsan_targets default_options example_module two_stores store_view Map.empty [0] same_pointer_env = Some T"
    and es: "xsan_sanitizeFunction default_options example_module two_stores (Some T) = Some (True, es)"
    by (auto split: Option.bind_splits)
  obtain C where C: "collectTargetsToIntrument default_options example_module two_stores = Some C"
    by (auto simp: xsan_scan shouldSkipFunction_def two_stores_def example_function_def)
  have "\<And>i j. \<not> wholeObjectOverwrite same_pointer_env i (MemoryLocation_get same_pointer_env i)
      (MemoryLocation_get same_pointer_env j)"
    by (simp add: wholeObjectOverwrite_def same_pointer_env_def strengthenLocationSize_def)
  moreover have "0 < length (blocks two_stores)" "0 < length (tinsts (blocks two_stores ! 0))"
    "ClInstrumentMemoryAccesses default_options" "SanitizeThread two_stores"
    by (simp_all add: two_stores_def example_function_def default_options_def)
  moreover have "plain_access xsan_skip_inst (tinst_at two_stores (0, 0))" "\<not> exempt example_module (tinst_at two_stores (0, 0))"
    by (simp_all add: two_stores_def example_defs tinst_at_def plain_access_def xsan_skip_inst_def isTsanAtomic_def
        exempt_def not_captured_def shouldInstrumentReadWriteFromAddress_def prefix_def)
  ultimately show ?thesis using tsan_targets_cover [OF T C es _ _ two_stores_sound] T es C by blast
qed

end
