(* ===== verification/Loop_Opt.thy ===== *)
theory Loop_Opt
  imports Tsan_Inst
begin

unbundle bit_operations_syntax

text \<open>
  The loop optimisation (\<open>LoopMopInstrumenter\<close> in \<open>instrumentation/Instrumentation.cpp\<close>)
  and the runtime functions it calls (\<open>runtime/lib/xsan/xsan_interface.cpp\<close>): the checks of an
  access whose address advances by a constant amount become one check behind the loop, the
  checks of an access whose address does not change move out of the loop.
  Addresses are 64-bit words, values of a narrower integer type are natural numbers below the
  power of two of its width.  The emitted code is modelled by the values it computes.
\<close>

section \<open>The runtime functions\<close>

text \<open>
  What the hooks of the sanitizers are called with: a range and its size, or one access of a
  given size.  The first component tells writes from reads.  \<open>DCHECK\<close> is inactive in a
  release build.
\<close>

datatype runtime_check = RangeCheck bool uptr uptr | AccessCheck bool nat uptr

definition xsan_range :: "bool \<Rightarrow> uptr \<Rightarrow> uptr \<Rightarrow> runtime_check list" where
  "xsan_range is_write beg end =
     (if beg = end then [] else let size = end - beg in [RangeCheck is_write beg size])"

partial_function (option) period_loop ::
  "bool \<Rightarrow> nat \<Rightarrow> uptr \<Rightarrow> uptr \<Rightarrow> uptr \<Rightarrow> runtime_check list option" where
  [code]: "period_loop is_write size_param offset R step =
     (if offset < R
      then Option.bind (period_loop is_write size_param (offset + step) R step)
             (\<lambda>cs. Some (AccessCheck is_write size_param offset # cs))
      else Some [])"

partial_function (option) xsan_period ::
  "bool \<Rightarrow> nat \<Rightarrow> uptr \<Rightarrow> uptr \<Rightarrow> uptr \<Rightarrow> runtime_check list option" where
  [code]: "xsan_period is_write size_param beg end step =
     (if beg = end then Some []
      else if sint step < 0 then xsan_period is_write size_param (end - step) (beg - step) (- step)
      else if step = of_nat size_param then Some (xsan_range is_write beg end)
      else period_loop is_write size_param beg end step)"

section \<open>Loops\<close>

record loop_inst =
  shouldSkip_inst :: bool
  volatile_inst :: bool
  atomic_inst :: bool
  dbg_info :: bool
  call_base :: bool
  may_write :: bool
  access_kind :: "bool option"
  access_addr :: tvalue
  access_bits :: nat

text \<open>\<open>access_kind\<close> is \<open>Some True\<close> for a store and \<open>Some False\<close> for a load.\<close>

record loop_info =
  getHeader :: "nat option"
  getLoopPredecessor :: "nat option"
  getLoopPreheader :: "nat option"
  getLoopLatch :: "nat option"
  getExitingBlock :: "nat option"
  getUniqueExitBlock :: "nat option"
  getBlocks :: "nat list"
  getParentLoop :: "nat option"

record loop_function =
  loop_blocks :: "loop_inst list list"
  all_loops :: "loop_info list"
  getLoopFor_block :: "nat \<Rightarrow> nat option"
  DT_block :: "nat \<Rightarrow> nat \<Rightarrow> bool"
  PDT_block :: "nat \<Rightarrow> nat \<Rightarrow> bool"

definition the_loop :: "loop_function \<Rightarrow> nat \<Rightarrow> loop_info" where
  "the_loop F l = all_loops F ! l"

text \<open>The two sets of loops already classified only remember the answer.\<close>

definition isSimpleLoop :: "loop_function \<Rightarrow> nat \<Rightarrow> bool" where
  "isSimpleLoop F l =
     (let L = the_loop F l in
      if getHeader L = None \<or> getLoopPredecessor L = None \<or> getLoopLatch L = None \<or>
         getUniqueExitBlock L = None \<or> getExitingBlock L = None then False
      else list_all (\<lambda>BB. list_all (\<lambda>I.
             if shouldSkip_inst I then True
             else if \<not> may_write I then True
             else if dbg_info I then True
             else \<not> (atomic_inst I \<or> call_base I)) (loop_blocks F ! BB)) (getBlocks L))"

section \<open>The accesses considered\<close>

record LoopMop =
  Mop_inst :: inst_ref
  Address :: tvalue
  Loop_of :: nat
  MopSize :: nat
  DupTo :: "inst_ref list"
  InBranch :: bool
  IsWrite :: bool

fun add_dup :: "LoopMop \<Rightarrow> LoopMop list \<Rightarrow> LoopMop list" where
  "add_dup Mop [] = [Mop]"
| "add_dup Mop (m # ms) =
     (if Address m = Address Mop then m\<lparr>DupTo := DupTo m @ [Mop_inst Mop]\<rparr> # ms else m # add_dup Mop ms)"

definition filterAndAddMops :: "LoopMop list \<Rightarrow> LoopMop list \<Rightarrow> LoopMop list" where
  "filterAndAddMops MOPs LoopMopCandidates =
     (if MOPs = [] then LoopMopCandidates
      else if length MOPs = 1 then LoopMopCandidates @ MOPs
      else let MopsReversed = fold add_dup (rev MOPs) [] in LoopMopCandidates @ rev MopsReversed)"

definition collect_mop_step ::
  "tsan_module \<Rightarrow> loop_function \<Rightarrow> nat \<Rightarrow> nat \<Rightarrow> nat \<times> loop_inst \<Rightarrow> LoopMop list \<times> LoopMop list \<Rightarrow>
   LoopMop list \<times> LoopMop list" where
  "collect_mop_step M F b l x st =
     (let (i, I) = x; (LoopMops, Candidates) = st in
      if shouldSkip_inst I then st
      else if volatile_inst I \<or> atomic_inst I \<or> dbg_info I then st
      else case access_kind I of
        None \<Rightarrow> if call_base I \<and> may_write I then ([], filterAndAddMops LoopMops Candidates) else st
      | Some w \<Rightarrow>
          if \<not> shouldInstrumentReadWriteFromAddress M (access_addr I) then st
          else if access_bits I \<notin> {8, 16, 32, 64, 128} then st
          else
            let in_branch = (case getLoopLatch (the_loop F l) of None \<Rightarrow> True | Some latch \<Rightarrow> \<not> DT_block F b latch)
            in (LoopMops @ [\<lparr>Mop_inst = (b, i), Address = access_addr I, Loop_of = l,
                  MopSize = access_bits I div 8, DupTo = [], InBranch = in_branch, IsWrite = w\<rparr>], Candidates))"

definition collectLoopMopCandidates :: "tsan_module \<Rightarrow> loop_function \<Rightarrow> LoopMop list" where
  "collectLoopMopCandidates M F =
     fold (\<lambda>b Candidates. case getLoopFor_block F b of
             None \<Rightarrow> Candidates
           | Some l \<Rightarrow>
               if \<not> isSimpleLoop F l then Candidates
               else let (LoopMops, Candidates) =
                          fold (collect_mop_step M F b l) (enumerate 0 (loop_blocks F ! b)) ([], Candidates)
                    in filterAndAddMops LoopMops Candidates)
       [0..<length (loop_blocks F)] []"

section \<open>Counting the iterations\<close>

text \<open>
  A result \<open>None\<close> below stands for the null value, upon which the access keeps its own checks, and
  in \<open>saturationTruncate\<close> for its two \<open>llvm_unreachable\<close>: a source narrower than the target, and a wider
  source for a target of 64 bits, with which the compiler stops or its behaviour is undefined.
\<close>

datatype phi_operand = ThePhi | ConstantOperand nat | OtherOperand'
datatype phi_incoming = ConstantIncoming nat | AddIncoming phi_operand phi_operand | OtherIncoming

text \<open>A phi node: the width of its type (\<open>None\<close> if it is not an integer) and its incoming edges.\<close>

record phi_node =
  phi_width :: "nat option"
  incoming :: "(phi_incoming \<times> nat) list"

definition counts_up :: "phi_operand \<Rightarrow> phi_operand \<Rightarrow> bool" where
  "counts_up Op0 Op1 \<longleftrightarrow> Op0 = ThePhi \<and> Op1 = ConstantOperand 1 \<or> Op1 = ThePhi \<and> Op0 = ConstantOperand 1"

text \<open>The state is \<open>(HasZeroOrOne, HasAddUp, ZeroBase)\<close>; the answer comes with \<open>ZeroBase\<close>.\<close>

definition phi_edge ::
  "nat \<Rightarrow> nat \<Rightarrow> phi_incoming \<times> nat \<Rightarrow> bool \<times> bool \<times> bool \<Rightarrow> bool \<times> bool \<times> bool" where
  "phi_edge Predecessor Latch e st =
     (let (Incoming, BB) = e; (HasZeroOrOne, HasAddUp, ZeroBase) = st in
      case Incoming of
        ConstantIncoming c \<Rightarrow>
          if (c = 1 \<or> c = 0) \<and> BB = Predecessor then (True, HasAddUp, c = 0) else st
      | AddIncoming Op0 Op1 \<Rightarrow>
          if counts_up Op0 Op1 then (HasZeroOrOne, BB = Latch, ZeroBase) else st
      | OtherIncoming \<Rightarrow> st)"

definition isLoopCountingPhi :: "nat \<Rightarrow> phi_node \<Rightarrow> nat \<Rightarrow> nat \<Rightarrow> bool \<times> bool" where
  "isLoopCountingPhi TargetTy PN Predecessor Latch =
     (if length (incoming PN) \<noteq> 2 then (False, False)
      else case phi_width PN of
        None \<Rightarrow> (False, False)
      | Some BitWidth \<Rightarrow>
          if BitWidth < TargetTy \<or> BitWidth < 32 then (False, False)
          else let (HasZeroOrOne, HasAddUp, ZeroBase) =
                     fold (phi_edge Predecessor Latch) (incoming PN) (False, False, False)
               in (HasZeroOrOne \<and> HasAddUp, ZeroBase))"

text \<open>
  A run of a loop: how often the latch was left for the header (\<open>backedges\<close>), the width of the
  count that scalar evolution finds for it, and the phi nodes of the header.
\<close>

record loop_run =
  backedges :: nat
  BackedgeTakenCount :: "nat option"
  header_predecessors :: nat
  header_phis :: "phi_node list"

text \<open>A phi that counts up from \<open>init\<close>, and the counter inserted with \<open>uadd_sat\<close>.\<close>

definition phi_value :: "nat \<Rightarrow> nat \<Rightarrow> nat \<Rightarrow> nat" where
  "phi_value w init n = (init + n) mod 2 ^ w"

fun sat_counter :: "nat \<Rightarrow> nat \<Rightarrow> nat \<Rightarrow> nat" where
  "sat_counter w init 0 = init"
| "sat_counter w init (Suc n) = min (sat_counter w init n + 1) (2 ^ w - 1)"

text \<open>The width and value the counter has behind the loop.\<close>

definition getOrInsertLoopCounter :: "loop_info \<Rightarrow> loop_run \<Rightarrow> bool \<Rightarrow> nat \<Rightarrow> (nat \<times> nat) option" where
  "getOrInsertLoopCounter L run BeforeExiting CounterTy =
     (case (getHeader L, getLoopPredecessor L, getLoopLatch L) of
        (Some Header, Some Predecessor, Some Latch) \<Rightarrow>
          if header_predecessors run \<noteq> 2 then None
          else (case find (\<lambda>PN. fst (isLoopCountingPhi CounterTy PN Predecessor Latch)) (header_phis run) of
              Some PN \<Rightarrow>
                let ZeroBase = snd (isLoopCountingPhi CounterTy PN Predecessor Latch);
                    w = the (phi_width PN);
                    Counter = phi_value w (if ZeroBase then 0 else 1) (backedges run)
                in if ZeroBase \<and> BeforeExiting then Some (w, (Counter + 1) mod 2 ^ w)
                   else if \<not> ZeroBase \<and> \<not> BeforeExiting then Some (w, (Counter + (2 ^ w - 1)) mod 2 ^ w)
                   else Some (w, Counter)
            | None \<Rightarrow> Some (CounterTy, sat_counter CounterTy (if BeforeExiting then 1 else 0) (backedges run)))
      | _ \<Rightarrow> None)"

definition saturationTruncate :: "nat \<Rightarrow> nat \<Rightarrow> nat \<Rightarrow> nat option" where
  "saturationTruncate SrcTy TargetTy SrcVal =
     (if SrcTy = TargetTy then Some SrcVal
      else if SrcTy < TargetTy then None
      else if TargetTy = 64 then None
      else let MaxIntPlusOne = 2 ^ TargetTy in Some (if SrcVal \<ge> MaxIntPlusOne then MaxIntPlusOne else SrcVal))"

definition getCounterBoundedByTargetTy :: "nat \<Rightarrow> nat \<Rightarrow> nat \<Rightarrow> uptr option" where
  "getCounterBoundedByTargetTy SrcTy TargetTy SrcVal =
     map_option of_nat (if SrcTy = TargetTy then Some SrcVal else saturationTruncate SrcTy TargetTy SrcVal)"

text \<open>\<open>safe_to_expand\<close> is LLVM's answer for the start; the values are \<open>(Beg, End, StepVal)\<close>.\<close>

definition expandBegAndEnd ::
  "loop_info \<Rightarrow> loop_run \<Rightarrow> bool \<Rightarrow> uptr \<Rightarrow> uptr \<Rightarrow> bool \<Rightarrow> nat \<Rightarrow> bool \<Rightarrow> (uptr \<times> uptr \<times> uptr) option" where
  "expandBegAndEnd L run safe_to_expand Start Step ConstStep CounterTy BeforeExiting =
     (if getHeader L = None \<or> getLoopPredecessor L = None \<or> getLoopLatch L = None then None
      else if \<not> safe_to_expand then None
      else
        let IsConstStepNegative = ConstStep \<and> sint Step < 0;
            Start = (if IsConstStepNegative then Start + (- Step) else Start);
            Beg = Start;
            Counter = (case BackedgeTakenCount run of
                Some OrigCounterTy \<Rightarrow>
                  let BackedgeTakenCount = (of_nat (backedges run mod 2 ^ OrigCounterTy) :: uptr);
                      IterCounter = (if BeforeExiting then BackedgeTakenCount + 1 else BackedgeTakenCount)
                  in Some (if OrigCounterTy > CounterTy then min IterCounter (of_nat (2 ^ CounterTy)) else IterCounter)
              | None \<Rightarrow>
                  Option.bind (getOrInsertLoopCounter L run BeforeExiting CounterTy)
                    (\<lambda>(w, v). getCounterBoundedByTargetTy w CounterTy v))
        in case Counter of
             None \<Rightarrow> None
           | Some Counter \<Rightarrow>
               let End = Start + Counter * Step
               in Some (if IsConstStepNegative then (End, Beg, - Step) else (Beg, End, Step)))"

section \<open>Combining periodic checks\<close>

text \<open>
  The address of an access as an affine recurrence: from scalar evolution directly (then the
  counter has 64 bits) or through \<open>PtrAddExpr2PtrAddRecRewriter\<close>.
\<close>

record addrec =
  ar_loop :: nat
  ar_affine :: bool
  ar_start :: uptr
  ar_step :: uptr
  ar_const_step :: bool
  ar_counter_ty :: nat
  ar_safe :: bool

datatype exit_check = RangeCall bool uptr uptr | PeriodCall bool nat uptr uptr uptr

definition combine_mop ::
  "loop_function \<Rightarrow> (nat \<Rightarrow> loop_run) \<Rightarrow> (LoopMop \<Rightarrow> addrec option) \<Rightarrow> bool \<Rightarrow> LoopMop \<Rightarrow> exit_check option" where
  "combine_mop F run scev RangeAccessOnly Mop =
     (if InBranch Mop then None
      else case scev Mop of
        None \<Rightarrow> None
      | Some AR \<Rightarrow>
          if \<not> ar_affine AR then None
          else if \<not> isSimpleLoop F (ar_loop AR) then None
          else
            let L = the_loop F (ar_loop AR);
                IsRangeAccess = ar_const_step AR \<and> nat \<bar>sint (ar_step AR)\<bar> = MopSize Mop
            in if RangeAccessOnly \<and> \<not> IsRangeAccess then None
               else
                 let IsMopBeforeExiting = DT_block F (fst (Mop_inst Mop)) (the (getExitingBlock L))
                 in (case expandBegAndEnd L (run (ar_loop AR)) (ar_safe AR) (ar_start AR) (ar_step AR)
                            (ar_const_step AR) (ar_counter_ty AR) IsMopBeforeExiting of
                       None \<Rightarrow> None
                     | Some (Beg, End, StepVal) \<Rightarrow>
                         Some (if IsRangeAccess then RangeCall (IsWrite Mop) Beg End
                               else PeriodCall (IsWrite Mop) (MopSize Mop) Beg End StepVal)))"

text \<open>The calls behind the loops, and the accesses whose own checks are dropped.\<close>

definition tagMopAsDelegated :: "LoopMop \<Rightarrow> inst_ref list" where
  "tagMopAsDelegated Mop = Mop_inst Mop # DupTo Mop"

definition combinePeriodicChecks ::
  "tsan_module \<Rightarrow> loop_function \<Rightarrow> (nat \<Rightarrow> loop_run) \<Rightarrow> (LoopMop \<Rightarrow> addrec option) \<Rightarrow> bool \<Rightarrow>
   exit_check list \<times> inst_ref list" where
  "combinePeriodicChecks M F run scev RangeAccessOnly =
     fold (\<lambda>Mop (calls, delegated). case combine_mop F run scev RangeAccessOnly Mop of
             None \<Rightarrow> (calls, delegated)
           | Some c \<Rightarrow> (calls @ [c], delegated @ tagMopAsDelegated Mop))
       (collectLoopMopCandidates M F) ([], [])"

text \<open>What a call does when it is reached.\<close>

fun run_exit_check :: "exit_check \<Rightarrow> runtime_check list option" where
  "run_exit_check (RangeCall is_write Beg End) = Some (xsan_range is_write Beg End)"
| "run_exit_check (PeriodCall is_write size_param Beg End Step) = xsan_period is_write size_param Beg End Step"

section \<open>Moving invariant checks\<close>

text \<open>\<open>AtExitIf\<close> is the branch behind the loop that tests the indicator variable.\<close>

datatype insert_point = AtPreheader nat | AtExit nat | AtExitIf nat

text \<open>The loop nest has at most \<open>fuel\<close> levels.\<close>

fun top_loop :: "loop_function \<Rightarrow> (tvalue \<Rightarrow> nat \<Rightarrow> bool) \<Rightarrow> tvalue \<Rightarrow> nat \<Rightarrow> nat \<Rightarrow> nat" where
  "top_loop F invariant Addr 0 TopL = TopL"
| "top_loop F invariant Addr (Suc fuel) TopL =
     (case getParentLoop (the_loop F TopL) of
        None \<Rightarrow> TopL
      | Some ParentL \<Rightarrow>
          if invariant Addr ParentL \<and> isSimpleLoop F ParentL then top_loop F invariant Addr fuel ParentL else TopL)"

type_synonym relocate_state = "(insert_point \<times> nat) option \<times> (LoopMop \<times> insert_point) list"

text \<open>Without a preheader the null block stands for the virtual exit, which nothing post-dominates.\<close>

definition insert_point_of ::
  "loop_function \<Rightarrow> (tvalue \<Rightarrow> nat \<Rightarrow> bool) \<Rightarrow> LoopMop \<Rightarrow> insert_point" where
  "insert_point_of F invariant Mop =
     (let TopL = top_loop F invariant (Address Mop) (length (all_loops F)) (Loop_of Mop);
          Preheader = getLoopPreheader (the_loop F TopL);
          IsInBranch = (if InBranch Mop then True
             else case Preheader of None \<Rightarrow> True | Some p \<Rightarrow> \<not> PDT_block F (fst (Mop_inst Mop)) p)
      in if \<not> IsInBranch \<and> Preheader \<noteq> None then AtPreheader TopL
         else if IsInBranch then AtExitIf TopL else AtExit TopL)"

definition relocate_mop ::
  "loop_function \<Rightarrow> (tvalue \<Rightarrow> nat \<Rightarrow> bool) \<Rightarrow> LoopMop \<Rightarrow> relocate_state \<Rightarrow> relocate_state" where
  "relocate_mop F invariant Mop st =
     (let (LastInsertPt, calls) = st in
      if \<not> invariant (Address Mop) (Loop_of Mop) then st
      else
        let InsertPt = (case LastInsertPt of
            Some (pt, LastBB) \<Rightarrow> if LastBB = fst (Mop_inst Mop) then pt else insert_point_of F invariant Mop
          | None \<Rightarrow> insert_point_of F invariant Mop)
        in (Some (InsertPt, fst (Mop_inst Mop)), calls @ [(Mop, InsertPt)]))"

definition relocateInvariantChecks ::
  "tsan_module \<Rightarrow> loop_function \<Rightarrow> (tvalue \<Rightarrow> nat \<Rightarrow> bool) \<Rightarrow> (LoopMop \<times> insert_point) list" where
  "relocateInvariantChecks M F invariant =
     snd (fold (relocate_mop F invariant) (collectLoopMopCandidates M F) (None, []))"

text \<open>The levels of \<open>LoopMopInstrumenter::instrument\<close>; a relocated check is a call at its place.\<close>

datatype LoopOptLevel = NoOpt | RelocateInvariantChecks | CombineToRangeCheck | CombinePeriodicChecks | Full

definition instrument_loops ::
  "tsan_module \<Rightarrow> loop_function \<Rightarrow> (nat \<Rightarrow> loop_run) \<Rightarrow> (LoopMop \<Rightarrow> addrec option) \<Rightarrow>
   (tvalue \<Rightarrow> nat \<Rightarrow> bool) \<Rightarrow> LoopOptLevel \<Rightarrow> exit_check list \<times> (LoopMop \<times> insert_point) list \<times> inst_ref list" where
  "instrument_loops M F run scev invariant OptLevel =
     (let combine = (\<lambda>RangeAccessOnly. combinePeriodicChecks M F run scev RangeAccessOnly);
          relocated = relocateInvariantChecks M F invariant;
          relocated_mops = concat (map (\<lambda>(Mop, pt). tagMopAsDelegated Mop) relocated)
      in if loop_blocks F = [] then ([], [], [])
         else case OptLevel of
           CombineToRangeCheck \<Rightarrow> (fst (combine True), [], snd (combine True))
         | RelocateInvariantChecks \<Rightarrow> ([], relocated, relocated_mops)
         | CombinePeriodicChecks \<Rightarrow> (fst (combine False), [], snd (combine False))
         | Full \<Rightarrow> (fst (combine False), relocated, snd (combine False) @ relocated_mops)
         | NoOpt \<Rightarrow> ([], [], []))"

text \<open>
  The code of \<open>instrumentIndicator\<close> over successive runs of the loop in one call of the function:
  \<open>executed\<close> says for each run whether the access was reached, the answer whether the check
  behind the loop is made.  The variable is cleared at the entry of the function.
\<close>

fun indicator_checks :: "bool \<Rightarrow> bool list \<Rightarrow> bool list" where
  "indicator_checks indicator [] = []"
| "indicator_checks indicator (executed # rest) =
     (let indicator = (if executed then True else indicator) in indicator # indicator_checks indicator rest)"

definition instrumentIndicator :: "bool list \<Rightarrow> bool list" where
  "instrumentIndicator runs = indicator_checks False runs"

end
