(* ===== verification/Loop_Opt_Props.thy ===== *)
theory Loop_Opt_Props
  imports Loop_Opt
begin

unbundle bit_operations_syntax

text \<open>
  Properties of the loop optimisation: the check behind a loop covers exactly the accesses made in
  it as long as the counter is exact, the counters are exact up to the width of the index, which
  accesses a combined check stands for, and the cases in which checks are lost or made for accesses
  that never happen.
\<close>

section \<open>The addresses of a periodic access\<close>

text \<open>The access of iteration \<open>i\<close>, and no wrap-around over \<open>c\<close> iterations.\<close>

definition access_at :: "uptr \<Rightarrow> uptr \<Rightarrow> nat \<Rightarrow> int" where
  "access_at Start Step i = uint Start + int i * sint Step"

definition stays_in_memory :: "uptr \<Rightarrow> uptr \<Rightarrow> nat \<Rightarrow> nat \<Rightarrow> bool" where
  "stays_in_memory Start Step sz c \<longleftrightarrow>
     (\<forall>i < c. 0 \<le> access_at Start Step i \<and> access_at Start Step i + int sz < 2 ^ 64 \<and>
       access_at Start Step i + \<bar>sint Step\<bar> < 2 ^ 64)"

definition loop_bytes :: "uptr \<Rightarrow> uptr \<Rightarrow> nat \<Rightarrow> nat \<Rightarrow> int set" where
  "loop_bytes Start Step sz c = (\<Union>i < c. {access_at Start Step i ..< access_at Start Step i + int sz})"

fun check_bytes :: "runtime_check \<Rightarrow> int set" where
  "check_bytes (RangeCheck w b n) = {uint b ..< uint b + uint n}"
| "check_bytes (AccessCheck w sz a) = {uint a ..< uint a + int sz}"

lemma access_Suc: "access_at Start Step (Suc i) = access_at Start Step i + sint Step"
  by (simp add: access_at_def algebra_simps)

lemma word_of_access: "Start + of_nat i * Step = word_of_int (access_at Start Step i)"
  by (simp add: access_at_def)

lemma uint_access:
  assumes "0 \<le> access_at Start Step i" "access_at Start Step i < 2 ^ 64"
  shows "uint (Start + of_nat i * Step) = access_at Start Step i"
  using assms by (simp only: word_of_access uint_word_of_int) (simp add: take_bit_int_eq_self)

text \<open>Ranges laid end to end.\<close>

lemma consecutive_ranges:
  "0 \<le> d \<Longrightarrow> (\<Union>i < c. {a + int i * d ..< a + int i * d + d}) = {a ..< a + int c * d}"
proof (induction c)
  case (Suc c)
  have nonneg: "0 \<le> int c * d" using Suc.prems by simp
  have "(\<Union>i < Suc c. {a + int i * d ..< a + int i * d + d}) =
      {a ..< a + int c * d} \<union> {a + int c * d ..< a + int c * d + d}"
    using Suc by (simp add: lessThan_Suc Un_commute)
  also have "\<dots> = {a ..< a + int c * d + d}"
    using nonneg Suc.prems by (intro ivl_disj_un_two(3)) linarith+
  finally show ?case by (simp add: algebra_simps)
qed simp

lemma consecutive_ranges_down:
  "0 \<le> d \<Longrightarrow> (\<Union>i < c. {a - int i * d ..< a - int i * d + d}) = {a + d - int c * d ..< a + d}"
proof (induction c)
  case (Suc c)
  have nonneg: "0 \<le> int c * d" using Suc.prems by simp
  have "(\<Union>i < Suc c. {a - int i * d ..< a - int i * d + d}) =
      {a - int c * d ..< a - int c * d + d} \<union> {a - int c * d + d ..< a + d}"
    using Suc by (simp add: lessThan_Suc algebra_simps)
  also have "\<dots> = {a - int c * d ..< a + d}"
    using nonneg Suc.prems by (intro ivl_disj_un_two(3)) linarith+
  finally show ?case by (simp add: algebra_simps)
qed simp

section \<open>Examples\<close>

definition example_loop :: loop_info where
  "example_loop = \<lparr>getHeader = Some 1, getLoopPredecessor = Some 0, getLoopPreheader = Some 0, getLoopLatch = Some 2,
     getExitingBlock = Some 1, getUniqueExitBlock = Some 3, getBlocks = [1, 2], getParentLoop = None\<rparr>"

definition example_run :: "nat \<Rightarrow> nat option \<Rightarrow> loop_run" where
  "example_run n count = \<lparr>backedges = n, BackedgeTakenCount = count, header_predecessors = 2, header_phis = []\<rparr>"

section \<open>The number of iterations\<close>

text \<open>How often the access was made.\<close>

definition trip_count :: "loop_run \<Rightarrow> bool \<Rightarrow> nat" where
  "trip_count run BeforeExiting = backedges run + (if BeforeExiting then 1 else 0)"

definition has_counting_phi :: "loop_info \<Rightarrow> loop_run \<Rightarrow> nat \<Rightarrow> bool" where
  "has_counting_phi L run CounterTy \<longleftrightarrow> (\<exists>PN \<in> set (header_phis run).
     fst (isLoopCountingPhi CounterTy PN (the (getLoopPredecessor L)) (the (getLoopLatch L))))"

lemma sat_counter_value: "init \<le> 2 ^ w - 1 \<Longrightarrow> sat_counter w init n = min (init + n) (2 ^ w - 1)"
  by (induction n) auto

lemma counting_phi_width:
  "fst (isLoopCountingPhi CounterTy PN P B) \<Longrightarrow>
     \<exists>w. phi_width PN = Some w \<and> CounterTy \<le> w \<and> 32 \<le> w"
  by (auto simp: isLoopCountingPhi_def split: option.splits if_splits)

lemma phi_counter:
  fixes n w :: nat
  assumes "n + 1 < 2 ^ w"
  shows "(phi_value w 0 n + 1) mod 2 ^ w = n + 1" "(phi_value w 1 n + (2 ^ w - 1)) mod 2 ^ w = n"
    "phi_value w 0 n = n" "phi_value w 1 n = n + 1"
proof -
  show "phi_value w 0 n = n" "phi_value w 1 n = n + 1" using assms by (simp_all add: phi_value_def)
  then show "(phi_value w 0 n + 1) mod 2 ^ w = n + 1" using assms by simp
  have "1 + n + (2 ^ w - 1) = n + 2 ^ w" using assms by simp
  then show "(phi_value w 1 n + (2 ^ w - 1)) mod 2 ^ w = n"
    using assms \<open>phi_value w 1 n = n + 1\<close> by (metis Suc_eq_plus1 Suc_eq_plus1_left Suc_lessD mod_add_self2 mod_less)
qed

lemma counter_exact:
  assumes "getOrInsertLoopCounter L run BeforeExiting w = Some (w', v)"
    and "getCounterBoundedByTargetTy w' w v = Some k"
    and "trip_count run BeforeExiting < 2 ^ 31" "0 < w" "w \<le> 64" "w' \<le> 64"
  shows "unat k = min (trip_count run BeforeExiting) (if has_counting_phi L run w then 2 ^ w else 2 ^ w - 1)"
proof -
  let ?c = "trip_count run BeforeExiting" and ?n = "backedges run"
  obtain H P B where loop: "getHeader L = Some H" "getLoopPredecessor L = Some P" "getLoopLatch L = Some B"
    "header_predecessors run = 2"
    using assms(1) by (auto simp: getOrInsertLoopCounter_def split: option.splits if_splits)
  have small: "?c < 2 ^ 64" using assms(3) by simp
  show ?thesis
  proof (cases "find (\<lambda>PN. fst (isLoopCountingPhi w PN P B)) (header_phis run)")
    case None
    then have no: "\<not> has_counting_phi L run w" using loop by (auto simp: has_counting_phi_def find_None_iff)
    have "w' = w" "v = sat_counter w (if BeforeExiting then 1 else 0) ?n"
      using assms(1) loop None by (auto simp: getOrInsertLoopCounter_def)
    moreover have "1 \<le> (2::nat) ^ w - 1" using power_increasing [of 1 w "2 :: nat"] assms(4) by simp
    ultimately have v: "w' = w" "v = min ?c (2 ^ w - 1)"
      using sat_counter_value [of 1 w ?n] sat_counter_value [of 0 w ?n] by (auto simp: trip_count_def)
    then have "k = of_nat v" using assms(2) by (simp add: getCounterBoundedByTargetTy_def)
    moreover have "v < 2 ^ 64" using v small by linarith
    ultimately show ?thesis using v no by (simp add: unat_of_nat)
  next
    case (Some PN)
    then have PN: "fst (isLoopCountingPhi w PN P B)" "PN \<in> set (header_phis run)" by (auto simp: find_Some_iff)
    then have yes: "has_counting_phi L run w" using loop by (auto simp: has_counting_phi_def)
    obtain u where u: "phi_width PN = Some u" "w \<le> u" "32 \<le> u" using counting_phi_width [OF PN(1)] by blast
    have "(2::nat) ^ 32 \<le> 2 ^ u" using u(3) by (intro power_increasing) auto
    then have "?n + 1 < 2 ^ u" using assms(3) by (simp add: trip_count_def split: if_splits)
    note phi = phi_counter [OF this]
    have v: "w' = u" "v = ?c"
      using assms(1) loop Some u(1) phi
      by (auto simp: getOrInsertLoopCounter_def trip_count_def Let_def split: if_splits)
    show ?thesis
    proof (cases "u = w")
      case True
      then have "k = of_nat ?c" using assms(2) v by (simp add: getCounterBoundedByTargetTy_def)
      moreover have "?c < 2 ^ w" using True \<open>(2::nat) ^ 32 \<le> 2 ^ u\<close> assms(3) by simp
      ultimately show ?thesis using yes small by (simp add: unat_of_nat)
    next
      case False
      then have "w < u" using u(2) by simp
      then have "k = of_nat (min ?c (2 ^ w))"
        using assms(2,6) v
        by (auto simp: getCounterBoundedByTargetTy_def saturationTruncate_def min_def Let_def split: if_splits)
      moreover have "min ?c (2 ^ w) < 2 ^ 64" using small by linarith
      ultimately show ?thesis using yes by (simp add: unat_of_nat)
    qed
  qed
qed


text \<open>C23: The counter of a loop whose iterations scalar evolution cannot count is the number of
  times the access was made, bounded by the number of values of its index: by all of them when a
  counter of the program is reused, but by one less when a counter is inserted, so that an index of
  8 or 16 bits that goes round leaves its last element unchecked.\<close>
theorem loop_counter_exact:
  assumes "getOrInsertLoopCounter L run BeforeExiting w = Some (w', v)"
    and "getCounterBoundedByTargetTy w' w v = Some k"
    and "trip_count run BeforeExiting < 2 ^ 31" "0 < w" "w \<le> 64" "w' \<le> 64"
  shows "unat k = min (trip_count run BeforeExiting) (if has_counting_phi L run w then 2 ^ w else 2 ^ w - 1)"
  by (rule counter_exact [OF assms])

lemma loop_counter_exact_witness:
  "getOrInsertLoopCounter example_loop (example_run 256 None) False 8 = Some (8, 255) \<and> unat (255 :: uptr) = min 256 255"
proof -
  have counter: "getOrInsertLoopCounter example_loop (example_run 256 None) False 8 = Some (8, 255)"
    by (simp add: getOrInsertLoopCounter_def example_loop_def example_run_def sat_counter_value)
  have "getCounterBoundedByTargetTy 8 8 255 = Some 255" by (simp add: getCounterBoundedByTargetTy_def)
  from loop_counter_exact [OF counter this] counter show ?thesis
    by (simp add: trip_count_def has_counting_phi_def example_run_def)
qed

section \<open>The values computed behind the loop\<close>

text \<open>
  The counter is exact: scalar evolution has a count of at most 64 bits, which the width of the
  index does not truncate; or it has none, and the counter of the loop, reused or inserted, is not
  cut off by that width (with fewer than \<open>2 ^ 31\<close> iterations, and phi nodes of at most 64 bits).
\<close>

definition exact_count :: "loop_info \<Rightarrow> loop_run \<Rightarrow> bool \<Rightarrow> nat \<Rightarrow> bool" where
  "exact_count L run BeforeExiting w \<longleftrightarrow> (case BackedgeTakenCount run of
       Some ow \<Rightarrow> ow \<le> 64 \<and> backedges run < 2 ^ ow \<and> (w < ow \<longrightarrow> trip_count run BeforeExiting \<le> 2 ^ w) \<and>
         trip_count run BeforeExiting < 2 ^ 64
     | None \<Rightarrow> trip_count run BeforeExiting < 2 ^ 31 \<and> 0 < w \<and> w \<le> 64 \<and>
         trip_count run BeforeExiting \<le> (if has_counting_phi L run w then 2 ^ w else 2 ^ w - 1) \<and>
         (\<forall>PN \<in> set (header_phis run). \<forall>u. phi_width PN = Some u \<longrightarrow> u \<le> 64))"

lemma min_of_nat:
  fixes c :: nat
  assumes "c \<le> 2 ^ w" "w < 64"
  shows "min (of_nat c) (of_nat (2 ^ w)) = (of_nat c :: uptr)"
proof -
  have "(2::nat) ^ w < 2 ^ 64" using assms(2) by (intro power_strict_increasing) simp_all
  then have "unat (of_nat c :: uptr) = c" "unat (of_nat (2 ^ w) :: uptr) = 2 ^ w"
    using assms(1) by (simp_all only: unat_of_nat) (simp_all add: take_bit_nat_eq_self)
  then have "(of_nat c :: uptr) \<le> of_nat (2 ^ w)" using assms(1) by (simp only: word_le_nat_alt)
  then show ?thesis by (simp only: min_def if_True)
qed

lemma counter_width:
  assumes "getOrInsertLoopCounter L run BeforeExiting w = Some (w', v)"
  shows "w' = w \<or> (\<exists>PN \<in> set (header_phis run). phi_width PN = Some w')"
proof -
  have "find P xs = Some x \<Longrightarrow> x \<in> set xs \<and> P x" for P and xs :: "phi_node list" and x
    by (auto simp: find_Some_iff)
  then show ?thesis
    using assms counting_phi_width
    by (fastforce simp: getOrInsertLoopCounter_def Let_def split: option.splits if_splits)
qed

lemma expand_exact_count:
  assumes "expandBegAndEnd L run safe Start Step ConstStep w BeforeExiting = Some (Beg, End, StepVal)"
    and "exact_count L run BeforeExiting w"
  shows "(Beg, End, StepVal) =
    (if ConstStep \<and> sint Step < 0
     then (Start - Step + of_nat (trip_count run BeforeExiting) * Step, Start - Step, - Step)
     else (Start, Start + of_nat (trip_count run BeforeExiting) * Step, Step))"
proof -
  let ?c = "trip_count run BeforeExiting"
  define S where "S = (if ConstStep \<and> sint Step < 0 then Start + (- Step) else Start)"
  define counter where "counter = (case BackedgeTakenCount run of
      Some ow \<Rightarrow>
        let count = (of_nat (backedges run mod 2 ^ ow) :: uptr); iters = (if BeforeExiting then count + 1 else count)
        in Some (if ow > w then min iters (of_nat (2 ^ w)) else iters)
    | None \<Rightarrow> Option.bind (getOrInsertLoopCounter L run BeforeExiting w)
        (\<lambda>(u, v). getCounterBoundedByTargetTy u w v))"
  obtain k where k: "counter = Some k"
    and values': "(Beg, End, StepVal) =
      (if ConstStep \<and> sint Step < 0 then (S + k * Step, S, - Step) else (S, S + k * Step, Step))"
    using assms(1) unfolding expandBegAndEnd_def Let_def S_def [symmetric] counter_def
    by (auto split: if_splits option.splits)
  have "k = of_nat ?c"
  proof (cases "BackedgeTakenCount run")
    case (Some ow)
    then have iters: "(if BeforeExiting then of_nat (backedges run mod 2 ^ ow) + 1 else of_nat (backedges run mod 2 ^ ow)) =
        (of_nat ?c :: uptr)"
      using assms(2) by (simp add: exact_count_def trip_count_def)
    have "w < ow \<Longrightarrow> min (of_nat ?c) (of_nat (2 ^ w)) = (of_nat ?c :: uptr)"
      using assms(2) Some by (intro min_of_nat) (simp_all add: exact_count_def)
    then show ?thesis using k Some iters by (simp add: counter_def Let_def del: of_nat_power split: if_splits)
  next
    case None
    then obtain u v where c: "getOrInsertLoopCounter L run BeforeExiting w = Some (u, v)"
      "getCounterBoundedByTargetTy u w v = Some k"
      using k by (auto simp: counter_def split: Option.bind_splits)
    have bounds: "?c < 2 ^ 31" "0 < w" "w \<le> 64" "u \<le> 64"
      "?c \<le> (if has_counting_phi L run w then 2 ^ w else 2 ^ w - 1)"
      using assms(2) None counter_width [OF c(1)] by (auto simp: exact_count_def)
    have "unat k = ?c" using counter_exact [OF c bounds(1-4)] bounds(5) by simp
    then have "of_nat (unat k) = (of_nat ?c :: uptr)" by simp
    then show ?thesis by simp
  qed
  then show ?thesis using values' by (simp add: S_def)
qed

lemma sint_bounds: "- (2 ^ 63) \<le> sint (x :: uptr)" "sint (x :: uptr) < 2 ^ 63"
  using sint_greater_eq [of x] sint_less [of x] by simp_all

lemma uint_of_sint: "0 \<le> sint (x :: uptr) \<Longrightarrow> uint x = sint x"
  using sint_bounds [of x] by (simp add: uint_sint take_bit_int_eq_self)

lemma sint_minus: "sint (x :: uptr) \<noteq> - (2 ^ 63) \<Longrightarrow> sint (- x) = - sint x"
  using sint_bounds [of x] by (simp add: sint_word_minus signed_take_bit_int_eq_self)

lemma uint_multiple:
  assumes "0 \<le> sint d" "int c * sint d < 2 ^ 64"
  shows "uint (of_nat c * d :: uptr) = int c * sint d"
  using uint_access [of 0 d c] assms by (simp add: access_at_def)

lemma last_access:
  "0 < c \<Longrightarrow> Start - Step + of_nat c * Step = (Start + of_nat (c - 1) * Step :: uptr)"
  by (cases c) (simp_all add: algebra_simps)

lemma stays_bounds:
  assumes "stays_in_memory Start Step sz c" "0 < c"
  shows "0 \<le> access_at Start Step (c - 1)" "access_at Start Step (c - 1) + \<bar>sint Step\<bar> < 2 ^ 64"
    "access_at Start Step 0 + \<bar>sint Step\<bar> < 2 ^ 64" "0 \<le> access_at Start Step 0"
proof -
  have each: "0 \<le> access_at Start Step i" "access_at Start Step i + \<bar>sint Step\<bar> < 2 ^ 64"
    if "i < c" for i
    using assms(1) that by (simp_all add: stays_in_memory_def)
  show "0 \<le> access_at Start Step (c - 1)" "access_at Start Step (c - 1) + \<bar>sint Step\<bar> < 2 ^ 64"
    "access_at Start Step 0 + \<bar>sint Step\<bar> < 2 ^ 64" "0 \<le> access_at Start Step 0"
    using each [of "c - 1"] each [of 0] assms(2) by auto
qed

lemma range_up:
  assumes "sint Step = int sz" "0 < sz" "0 < c" "stays_in_memory Start Step sz c"
  shows "(\<Union>k \<in> set (xsan_range wr Start (Start + of_nat c * Step)). check_bytes k) = loop_bytes Start Step sz c"
proof -
  note bounds = stays_bounds [OF assms(4,3)]
  have "uint Start + int c * int sz < 2 ^ 64"
    using bounds(2) assms(1,3) by (simp add: access_at_def of_nat_diff algebra_simps)
  moreover have "0 \<le> uint Start" by simp
  ultimately have "int c * int sz < 2 ^ 64" by linarith
  then have n: "uint (of_nat c * Step) = int c * int sz" using assms(1) uint_multiple [of Step c] by simp
  then have "Start \<noteq> Start + of_nat c * Step" using assms(2,3) by auto
  then show ?thesis
    using n consecutive_ranges [of "int sz" "uint Start" c] assms(1)
    by (simp add: xsan_range_def loop_bytes_def access_at_def Let_def)
qed

lemma range_down:
  assumes "sint Step = - int sz" "0 < sz" "sz \<le> 16" "0 < c" "stays_in_memory Start Step sz c"
  shows "(\<Union>k \<in> set (xsan_range wr (Start - Step + of_nat c * Step) (Start - Step)). check_bytes k) =
    loop_bytes Start Step sz c"
proof -
  note bounds = stays_bounds [OF assms(5,4)]
  define Beg where "Beg = Start - Step + of_nat c * Step"
  have step: "sint (- Step) = int sz" using assms(1,3) by (simp add: sint_minus)
  have last: "int (c - 1) = int c - 1" using assms(4) by simp
  have size: "Start - Step - Beg = of_nat c * (- Step)" by (simp add: Beg_def)
  have "int c * int sz < 2 ^ 64" using bounds assms(1) last by (simp add: access_at_def algebra_simps)
  then have n: "uint (Start - Step - Beg) = int c * int sz" using size step uint_multiple [of "- Step" c] by simp
  have "access_at Start Step (c - 1) < 2 ^ 64" using bounds(2) by linarith
  then have "uint Beg = access_at Start Step (c - 1)"
    unfolding Beg_def last_access [OF assms(4)] by (rule uint_access [OF bounds(1)])
  also have "\<dots> = uint Start + int sz - int c * int sz"
    using assms(1) last by (simp add: access_at_def algebra_simps)
  finally have b: "uint Beg = uint Start + int sz - int c * int sz" .
  have "Beg \<noteq> Start - Step" using n assms(2,4) by auto
  then show ?thesis
    using n b consecutive_ranges_down [of "int sz" "uint Start" c] assms(1)
    by (simp add: xsan_range_def loop_bytes_def access_at_def Let_def flip: Beg_def)
qed

text \<open>C20: The single range check behind a loop whose address advances by exactly the size of the access,
  upwards or downwards, covers the bytes of all the accesses made in the loop and no others, provided
  that the counter is exact (scalar evolution's count is not truncated by the width of the index, or
  the counter used instead is not cut off by it) and no access wraps around the address space; a loop
  left before its first access is not checked.\<close>
theorem combined_range_exact:
  assumes "expandBegAndEnd L run safe Start Step True w BeforeExiting = Some (Beg, End, StepVal)"
    and "exact_count L run BeforeExiting w" "\<bar>sint Step\<bar> = int sz" "0 < sz" "sz \<le> 16"
    and "stays_in_memory Start Step sz (trip_count run BeforeExiting)"
  shows "(\<Union>k \<in> set (xsan_range wr Beg End). check_bytes k) =
    loop_bytes Start Step sz (trip_count run BeforeExiting)"
proof (cases "trip_count run BeforeExiting = 0")
  case True
  then show ?thesis using expand_exact_count [OF assms(1,2)]
    by (auto simp: xsan_range_def loop_bytes_def split: if_splits)
next
  case False
  then show ?thesis
    using expand_exact_count [OF assms(1,2)] range_up [of Step sz _ Start wr] range_down [of Step sz _ Start wr] assms(3-)
    by (cases "sint Step < 0") auto
qed

lemma combined_range_exact_witness:
  "expandBegAndEnd example_loop (example_run 2 (Some 64)) True 0x1000 (- 4) True 64 True = Some (0xFF8, 0x1004, 4) \<and>
   (\<Union>k \<in> set (xsan_range False 0xFF8 0x1004). check_bytes k) = loop_bytes 0x1000 (- 4) 4 3"
proof -
  have e: "expandBegAndEnd example_loop (example_run 2 (Some 64)) True 0x1000 (- 4) True 64 True = Some (0xFF8, 0x1004, 4)"
    by (simp add: expandBegAndEnd_def example_loop_def example_run_def)
  have "trip_count (example_run 2 (Some 64)) True = 3" "exact_count example_loop (example_run 2 (Some 64)) True 64"
    by (simp_all add: trip_count_def exact_count_def example_run_def)
  moreover have "stays_in_memory 0x1000 (- 4) 4 3" by (simp add: stays_in_memory_def access_at_def)
  ultimately show ?thesis using combined_range_exact [OF e, of 4 False] e by simp
qed

section \<open>Periodic checks\<close>

lemma period_loop_value:
  assumes "0 < sint step" "uint offset + int n * sint step < 2 ^ 64"
  shows "period_loop wr sz offset (offset + of_nat n * step) step =
    Some (map (\<lambda>i. AccessCheck wr sz (offset + of_nat i * step)) [0..<n])"
  using assms(2)
proof (induction n arbitrary: offset)
  case 0
  then show ?case by (simp add: period_loop.simps)
next
  case (Suc n)
  have acc: "access_at offset step i = uint offset + int i * sint step" for i by (simp add: access_at_def)
  have nonneg: "0 \<le> uint offset" "0 \<le> int n * sint step" using assms(1) by simp_all
  have bound: "uint offset + sint step + int n * sint step < 2 ^ 64" using Suc.prems by (simp add: algebra_simps)
  have end1: "uint (offset + of_nat (Suc n) * step) = uint offset + int (Suc n) * sint step"
    using uint_access [of offset step "Suc n"] Suc.prems nonneg assms(1) by (simp only: acc) simp
  have next1: "uint (offset + of_nat 1 * step) = uint offset + int 1 * sint step"
    using uint_access [of offset step 1] bound nonneg assms(1) by (simp only: acc)
  have "offset < offset + of_nat (Suc n) * step"
    unfolding word_less_def end1 using add_pos_nonneg [OF assms(1) nonneg(2)] by (simp add: distrib_right)
  moreover have "period_loop wr sz (offset + step) (offset + step + of_nat n * step) step =
      Some (map (\<lambda>i. AccessCheck wr sz (offset + step + of_nat i * step)) [0..<n])"
    using bound next1 by (intro Suc.IH) simp
  moreover have "offset + step + of_nat n * step = offset + of_nat (Suc n) * step" by (simp add: algebra_simps)
  moreover have "[0..<Suc n] = 0 # map Suc [0..<n]" by (simp add: map_Suc_upt upt_conv_Cons del: upt_Suc)
  ultimately show ?case
    by (subst period_loop.simps) (simp add: algebra_simps comp_def del: upt_Suc)
qed

lemma period_up:
  assumes "0 < sint step" "sint step \<noteq> int sz" "sz \<le> 16" "uint b + int c * sint step < 2 ^ 64"
  shows "xsan_period wr sz b (b + of_nat c * step) step =
    Some (map (\<lambda>i. AccessCheck wr sz (b + of_nat i * step)) [0..<c])"
proof (cases "c = 0")
  case True
  then show ?thesis by (simp add: xsan_period.simps)
next
  case False
  have "0 \<le> uint b" by simp
  then have "int c * sint step < 2 ^ 64" using assms(4) by linarith
  then have "uint (of_nat c * step) \<noteq> 0" using uint_multiple [of step c] assms(1) False by simp
  then have "b \<noteq> b + of_nat c * step" by auto
  moreover have "step \<noteq> of_nat sz"
  proof
    assume "step = of_nat sz"
    then have "sint step = int sz" using assms(3) by (simp add: sint_uint uint_nat unat_of_nat signed_take_bit_int_eq_self)
    then show False using assms(2) by simp
  qed
  ultimately show ?thesis using assms(1) period_loop_value [OF assms(1,4)] by (simp add: xsan_period.simps)
qed

lemma period_down:
  assumes "sint Step < 0" "sint Step \<noteq> - (2 ^ 63)" "\<bar>sint Step\<bar> \<noteq> int sz" "sz \<le> 16" "0 < c"
    and "stays_in_memory Start Step sz c"
  shows "xsan_period wr sz (Start - Step + of_nat c * Step) (Start - Step) (- Step) =
    Some (map (\<lambda>i. AccessCheck wr sz (Start + of_nat (c - 1 - i) * Step)) [0..<c])"
proof -
  note bounds = stays_bounds [OF assms(6,5)]
  define b where "b = Start + of_nat (c - 1) * Step"
  have last: "int (c - 1) = int c - 1" using assms(5) by simp
  have step: "sint (- Step) = - sint Step" using sint_minus [OF assms(2)] .
  have "access_at Start Step (c - 1) < 2 ^ 64" using bounds(2) by linarith
  then have b: "uint b = access_at Start Step (c - 1)" unfolding b_def by (rule uint_access [OF bounds(1)])
  have first: "access_at Start Step 0 = access_at Start Step (c - 1) - int (c - 1) * sint Step"
    by (simp add: access_at_def)
  have "uint b + int c * sint (- Step) < 2 ^ 64"
    using bounds(3) first b assms(1) unfolding step last by (simp add: algebra_simps)
  then have "xsan_period wr sz b (b + of_nat c * (- Step)) (- Step) =
      Some (map (\<lambda>i. AccessCheck wr sz (b + of_nat i * (- Step))) [0..<c])"
    using assms(1,3,4) step by (intro period_up) auto
  moreover have "b + of_nat c * (- Step) = Start - Step"
    using last_access [OF assms(5), of Start Step] by (simp add: b_def algebra_simps)
  moreover have "b + of_nat i * (- Step) = Start + of_nat (c - 1 - i) * Step" if "i < c" for i
    using that by (simp add: b_def of_nat_diff algebra_simps)
  ultimately show ?thesis
    unfolding last_access [OF assms(5), of Start Step] b_def [symmetric] by simp
qed

lemma reversed_set: "(\<lambda>i. f (c - 1 - i)) ` {0..<c} = f ` {0..<c :: nat}"
proof (intro equalityI image_subsetI)
  fix i assume "i \<in> {0..<c}"
  then show "f (c - 1 - i) \<in> f ` {0..<c}" "f i \<in> (\<lambda>i. f (c - 1 - i)) ` {0..<c}"
    by (auto intro!: image_eqI [of _ _ "c - 1 - i"])
qed

text \<open>C21: The calls made behind a loop whose address advances by more than the size of the access, by a
  step known or only computed at run time, upwards or downwards, return after checking the access of
  every iteration at its own address, each once, and nothing else, provided that the counter is exact
  (scalar evolution's count is not truncated by the width of the index, or the counter used instead is
  not cut off by it) and no access wraps around the address space.\<close>
theorem period_checks_exact:
  assumes "expandBegAndEnd L run safe Start Step ConstStep w BeforeExiting = Some (Beg, End, StepVal)"
    and "exact_count L run BeforeExiting w" "sint Step \<noteq> - (2 ^ 63)" "int sz < \<bar>sint Step\<bar>" "sz \<le> 16"
    and "stays_in_memory Start Step sz (trip_count run BeforeExiting)"
  shows "\<exists>cs. xsan_period wr sz Beg End StepVal = Some cs \<and> length cs = trip_count run BeforeExiting \<and>
    set cs = (\<lambda>i. AccessCheck wr sz (Start + of_nat i * Step)) ` {0..<trip_count run BeforeExiting}"
proof (cases "trip_count run BeforeExiting = 0")
  case True
  then have "Beg = End" using expand_exact_count [OF assms(1,2)] by (auto split: if_splits)
  then show ?thesis using True by (simp add: xsan_period.simps)
next
  case False
  let ?c = "trip_count run BeforeExiting"
  note expanded = expand_exact_count [OF assms(1,2)]
  have bounds: "access_at Start Step (?c - 1) + \<bar>sint Step\<bar> < 2 ^ 64" using stays_bounds [OF assms(6)] False by simp
  show ?thesis
  proof (cases "sint Step < 0")
    case True
    have "\<bar>sint Step\<bar> \<noteq> int sz" using assms(4) by simp
    note down = period_down [OF True assms(3) this assms(5) _ assms(6), of wr]
    have "xsan_period wr sz Beg End StepVal =
        xsan_period wr sz (Start - Step + of_nat ?c * Step) (Start - Step) (- Step)"
    proof (cases ConstStep)
      case False
      then have "Beg = Start" "End = Start + of_nat ?c * Step" "StepVal = Step" using expanded by simp_all
      moreover have "Beg \<noteq> End"
      proof
        assume "Beg = End"
        with calculation have "Start - Step + of_nat ?c * Step = Start - Step" by (simp add: algebra_simps)
        then show False using down \<open>?c \<noteq> 0\<close> by (simp add: xsan_period.simps)
      qed
      ultimately show ?thesis using True by (subst xsan_period.simps) (simp add: algebra_simps)
    qed (use expanded True in simp)
    then show ?thesis
      using down \<open>?c \<noteq> 0\<close> reversed_set [of "\<lambda>i. AccessCheck wr sz (Start + of_nat i * Step)" ?c] by simp
  next
    case pos: False
    have "uint Start + int ?c * sint Step < 2 ^ 64"
      using bounds pos False by (simp add: access_at_def of_nat_diff algebra_simps)
    then have "xsan_period wr sz Start (Start + of_nat ?c * Step) Step =
        Some (map (\<lambda>i. AccessCheck wr sz (Start + of_nat i * Step)) [0..<?c])"
      using pos assms(4,5) by (intro period_up) auto
    then show ?thesis using expanded pos by auto
  qed
qed

lemma period_checks_exact_witness:
  "\<exists>cs. xsan_period True 4 0x1000 0x1018 8 = Some cs \<and> length cs = 3 \<and>
    set cs = (\<lambda>i. AccessCheck True 4 (0x1000 + of_nat i * 8)) ` {0..<3}"
proof -
  have e: "expandBegAndEnd example_loop (example_run 2 (Some 64)) True 0x1000 8 True 64 True = Some (0x1000, 0x1018, 8)"
    by (simp add: expandBegAndEnd_def example_loop_def example_run_def)
  have "trip_count (example_run 2 (Some 64)) True = 3" "exact_count example_loop (example_run 2 (Some 64)) True 64"
    by (simp_all add: trip_count_def exact_count_def example_run_def)
  moreover have "stays_in_memory 0x1000 8 4 3" by (simp add: stays_in_memory_def access_at_def)
  ultimately show ?thesis using period_checks_exact [OF e, of 4 True] by simp
qed

text \<open>C24: A step that is zero only at run time loses the checks: the two ends are then equal, which the
  runtime takes for an empty range, although every iteration made the access at the start.\<close>
theorem zero_stride_unchecked:
  assumes "expandBegAndEnd L run safe Start 0 False w BeforeExiting = Some (Beg, End, StepVal)"
    and "0 < trip_count run BeforeExiting"
  shows "xsan_period wr sz Beg End StepVal = Some [] \<and>
    loop_bytes Start 0 sz (trip_count run BeforeExiting) = {uint Start ..< uint Start + int sz}"
proof
  have "Beg = End" using assms(1) by (auto simp: expandBegAndEnd_def Let_def split: option.splits if_splits)
  then show "xsan_period wr sz Beg End StepVal = Some []" by (simp add: xsan_period.simps)
  show "loop_bytes Start 0 sz (trip_count run BeforeExiting) = {uint Start ..< uint Start + int sz}"
    using assms(2) by (auto simp: loop_bytes_def access_at_def)
qed

lemma zero_stride_unchecked_witness:
  "xsan_period True 4 0x1000 0x1000 0 = Some [] \<and> loop_bytes 0x1000 0 4 3 = {0x1000 ..< 0x1004}"
proof -
  have e: "expandBegAndEnd example_loop (example_run 2 (Some 64)) True 0x1000 0 False 64 True = Some (0x1000, 0x1000, 0)"
    by (simp add: expandBegAndEnd_def example_loop_def example_run_def)
  have c: "trip_count (example_run 2 (Some 64)) True = 3" by (simp add: trip_count_def example_run_def)
  show ?thesis using zero_stride_unchecked [OF e, of True 4] c by simp
qed

section \<open>The accesses whose checks are combined\<close>

definition loop_inst_at :: "loop_function \<Rightarrow> inst_ref \<Rightarrow> loop_inst" where
  "loop_inst_at F r = loop_blocks F ! fst r ! snd r"

text \<open>
  \<open>r\<close> is an access of block \<open>b\<close> to address \<open>a\<close>.  The candidate \<open>m\<close> has the kind and the size of its
  own instruction, it is in no branch only if its block dominates the latch of its loop \<open>l\<close>, and
  every access merged into it is one of the same block to the same address.
\<close>

definition access_to :: "loop_function \<Rightarrow> nat \<Rightarrow> tvalue \<Rightarrow> inst_ref \<Rightarrow> bool" where
  "access_to F b a r \<longleftrightarrow> fst r = b \<and> snd r < length (loop_blocks F ! b) \<and>
     access_addr (loop_inst_at F r) = a \<and> access_kind (loop_inst_at F r) \<noteq> None"

definition mop_of_block :: "loop_function \<Rightarrow> nat \<Rightarrow> nat \<Rightarrow> LoopMop \<Rightarrow> bool" where
  "mop_of_block F b l m \<longleftrightarrow> Loop_of m = l \<and>
     (\<not> InBranch m \<longrightarrow> (\<exists>latch. getLoopLatch (the_loop F l) = Some latch \<and> DT_block F b latch)) \<and>
     access_kind (loop_inst_at F (Mop_inst m)) = Some (IsWrite m) \<and>
     access_bits (loop_inst_at F (Mop_inst m)) = 8 * MopSize m \<and>
     (\<forall>r \<in> set (tagMopAsDelegated m). access_to F b (Address m) r)"

definition well_placed :: "loop_function \<Rightarrow> LoopMop \<Rightarrow> bool" where
  "well_placed F m \<longleftrightarrow> (\<exists>b < length (loop_blocks F). getLoopFor_block F b = Some (Loop_of m) \<and>
     isSimpleLoop F (Loop_of m) \<and> mop_of_block F b (Loop_of m) m)"

lemma mop_of_block_dup:
  "mop_of_block F b l (m\<lparr>DupTo := DupTo m @ [r]\<rparr>) \<longleftrightarrow> mop_of_block F b l m \<and> access_to F b (Address m) r"
  by (simp add: mop_of_block_def tagMopAsDelegated_def) blast

lemma mop_of_block_inst: "mop_of_block F b l m \<Longrightarrow> access_to F b (Address m) (Mop_inst m)"
  by (simp add: mop_of_block_def tagMopAsDelegated_def)

lemma add_dup_all:
  assumes "\<forall>m \<in> set ms. mop_of_block F b l m" "mop_of_block F b l Mop"
  shows "\<forall>m \<in> set (add_dup Mop ms). mop_of_block F b l m"
  using assms
proof (induction ms)
  case (Cons m ms)
  show ?case
  proof (cases "Address m = Address Mop")
    case True
    then show ?thesis using Cons.prems mop_of_block_inst [of F b l Mop] by (simp add: mop_of_block_dup)
  next
    case False
    then show ?thesis using Cons by simp
  qed
qed simp

lemma filter_all:
  assumes "\<forall>m \<in> set mops. mop_of_block F b l m"
  shows "\<forall>m \<in> set (filterAndAddMops mops cands). m \<in> set cands \<or> mop_of_block F b l m"
proof -
  have "\<forall>m \<in> set (fold add_dup (rev mops) []). mop_of_block F b l m"
  proof (rule fold_invariant [where Q = "mop_of_block F b l"])
    show "\<And>x. x \<in> set (rev mops) \<Longrightarrow> mop_of_block F b l x" using assms by simp
    show "\<forall>m \<in> set []. mop_of_block F b l m" by simp
    show "\<And>x s. mop_of_block F b l x \<Longrightarrow> \<forall>m \<in> set s. mop_of_block F b l m \<Longrightarrow>
        \<forall>m \<in> set (add_dup x s). mop_of_block F b l m" by (rule add_dup_all)
  qed
  then show ?thesis using assms by (auto simp: filterAndAddMops_def Let_def)
qed

lemma collect_step_all:
  assumes "\<forall>m \<in> set (fst st). mop_of_block F b l m" "\<forall>m \<in> set (snd st). P m"
    and "\<And>m. mop_of_block F b l m \<Longrightarrow> P m"
    and "fst x < length (loop_blocks F ! b)" "snd x = loop_blocks F ! b ! fst x"
  shows "(\<forall>m \<in> set (fst (collect_mop_step M F b l x st)). mop_of_block F b l m) \<and>
    (\<forall>m \<in> set (snd (collect_mop_step M F b l x st)). P m)"
proof -
  obtain i I mops cands where x: "x = (i, I)" and st: "st = (mops, cands)" by (cases x; cases st)
  have filtered: "\<forall>m \<in> set (filterAndAddMops mops cands). P m"
    using filter_all [of mops F b l cands] assms(1-3) st by auto
  show ?thesis
  proof (cases "access_kind I")
    case None
    then show ?thesis using assms(1,2) filtered st x by (simp add: collect_mop_step_def)
  next
    case (Some w)
    let ?br = "case getLoopLatch (the_loop F l) of None \<Rightarrow> True | Some latch \<Rightarrow> \<not> DT_block F b latch"
    have "mop_of_block F b l \<lparr>Mop_inst = (b, i), Address = access_addr I, Loop_of = l,
        MopSize = access_bits I div 8, DupTo = [], InBranch = ?br, IsWrite = w\<rparr>"
      if "access_bits I \<in> {8, 16, 32, 64, 128}"
      using that Some assms(4,5) x
      by (auto simp: mop_of_block_def tagMopAsDelegated_def access_to_def loop_inst_at_def split: option.splits)
    then show ?thesis using Some assms(1,2) st x by (simp add: collect_mop_step_def Let_def)
  qed
qed

text \<open>
  What merging does: only the last access to each address stays, in the order of the block, with the
  instructions of the earlier accesses to this address, the latest first.
\<close>

fun last_per_address :: "LoopMop list \<Rightarrow> LoopMop list" where
  "last_per_address [] = []"
| "last_per_address (m # ms) =
     (if Address m \<in> Address ` set ms then last_per_address ms else m # last_per_address ms)"

definition standing_for :: "LoopMop list \<Rightarrow> LoopMop \<Rightarrow> LoopMop" where
  "standing_for ms x =
     x\<lparr>DupTo := DupTo x @ map Mop_inst (rev (butlast (filter (\<lambda>m. Address m = Address x) ms)))\<rparr>"

lemma last_per_address_set: "x \<in> set (last_per_address ms) \<Longrightarrow> x \<in> set ms"
  by (induction ms) (auto split: if_splits)

lemma last_per_address_addresses: "Address ` set (last_per_address ms) = Address ` set ms"
  by (induction ms) auto

lemma last_per_address_distinct: "distinct (map Address (last_per_address ms))"
  by (induction ms) (auto simp: last_per_address_addresses dest: last_per_address_set)

lemma add_dup_new: "Address m \<notin> Address ` set ms \<Longrightarrow> add_dup m ms = ms @ [m]"
  by (induction ms) auto

lemma add_dup_known:
  "Address m \<in> Address ` set ms \<Longrightarrow> distinct (map Address ms) \<Longrightarrow>
   add_dup m ms = map (\<lambda>x. if Address x = Address m then x\<lparr>DupTo := DupTo x @ [Mop_inst m]\<rparr> else x) ms"
proof (induction ms)
  case (Cons x xs)
  have "map (\<lambda>y. if Address y = Address m then y\<lparr>DupTo := DupTo y @ [Mop_inst m]\<rparr> else y) xs = xs"
    if "Address x = Address m"
    using Cons.prems(2) that by (intro map_idI) (metis distinct.simps(2) imageI list.set_map list.simps(9))
  then show ?case using Cons by auto
qed simp

lemma no_same_address: "filter (\<lambda>m. Address m = a) ms = [] \<longleftrightarrow> a \<notin> Address ` set ms"
  by (induction ms) auto

lemma standing_for_Cons:
  "standing_for (m # ms) x =
    (if Address x = Address m \<and> Address m \<in> Address ` set ms
     then (standing_for ms x)\<lparr>DupTo := DupTo (standing_for ms x) @ [Mop_inst m]\<rparr>
     else standing_for ms x)"
  using no_same_address [of "Address x" ms] by (auto simp: standing_for_def)

lemma standing_for_Address: "Address (standing_for ms x) = Address x"
  by (simp add: standing_for_def)

lemma merged_reversed: "fold add_dup (rev ms) [] = rev (map (standing_for ms) (last_per_address ms))"
proof (induction ms)
  case (Cons m ms)
  have known: "Address ` set (map (standing_for ms) (last_per_address ms)) = Address ` set ms"
    using last_per_address_addresses [of ms] by (simp add: image_image standing_for_Address)
  show ?case
  proof (cases "Address m \<in> Address ` set ms")
    case True
    have "distinct (map Address (rev (map (standing_for ms) (last_per_address ms))))"
      using last_per_address_distinct [of ms] by (simp add: rev_map [symmetric] comp_def standing_for_Address)
    then show ?thesis using Cons True known
      by (simp add: add_dup_known rev_map comp_def standing_for_Address standing_for_Cons cong: if_cong)
  next
    case False
    have "standing_for ms m = m"
      using False no_same_address [of "Address m" ms] by (simp add: standing_for_def)
    moreover have "standing_for (m # ms) x = standing_for ms x" for x
      using False by (simp add: standing_for_Cons)
    ultimately show ?thesis using Cons False known by (simp add: add_dup_new)
  qed
qed simp

text \<open>C25: Of the accesses of a block collected between two calls, those with the same address become one
  candidate, whatever their kinds and sizes: exactly the last access to each address remains, in the
  order of the block and with its own kind and size, and stands for all the earlier ones; the
  candidates collected before are kept as they are.\<close>
theorem merged_accesses:
  "filterAndAddMops MOPs LoopMopCandidates =
     LoopMopCandidates @ map (standing_for MOPs) (last_per_address MOPs)"
proof (cases MOPs)
  case (Cons m ms)
  then show ?thesis
    by (cases ms) (simp_all only: filterAndAddMops_def Let_def merged_reversed rev_rev_ident,
      simp_all add: standing_for_def)
qed (simp add: filterAndAddMops_def)

lemma candidates_well_placed: "m \<in> set (collectLoopMopCandidates M F) \<Longrightarrow> well_placed F m"
proof -
  let ?P = "well_placed F"
  have step: "\<forall>m \<in> set (filterAndAddMops (fst s) (snd s)). ?P m"
    if b: "b < length (loop_blocks F)" and l: "getLoopFor_block F b = Some l" "isSimpleLoop F l"
      and cands: "\<forall>m \<in> set cands. ?P m"
      and s: "s = fold (collect_mop_step M F b l) (enumerate 0 (loop_blocks F ! b)) ([], cands)" for b l cands s
  proof -
    have ok: "?P m" if "mop_of_block F b l m" for m
      using b l that by (auto simp: well_placed_def mop_of_block_def)
    have "(\<forall>m \<in> set (fst s). mop_of_block F b l m) \<and> (\<forall>m \<in> set (snd s). ?P m)"
      unfolding s
    proof (rule fold_invariant [where Q = "\<lambda>x. fst x < length (loop_blocks F ! b) \<and> snd x = loop_blocks F ! b ! fst x"])
      fix x st
      assume "fst x < length (loop_blocks F ! b) \<and> snd x = loop_blocks F ! b ! fst x"
        and "(\<forall>m \<in> set (fst st). mop_of_block F b l m) \<and> (\<forall>m \<in> set (snd st). ?P m)"
      then show "(\<forall>m \<in> set (fst (collect_mop_step M F b l x st)). mop_of_block F b l m) \<and>
          (\<forall>m \<in> set (snd (collect_mop_step M F b l x st)). ?P m)"
        using collect_step_all [of st F b l ?P x M] ok by blast
    qed (use cands in \<open>auto simp: in_set_enumerate_eq\<close>)
    then show ?thesis using filter_all [of "fst s" F b l "snd s"] ok by blast
  qed
  have "\<forall>m \<in> set (collectLoopMopCandidates M F). ?P m"
    unfolding collectLoopMopCandidates_def
  proof (rule fold_invariant [where Q = "\<lambda>b. b < length (loop_blocks F)"])
    fix b cands
    assume "b < length (loop_blocks F)" "\<forall>m \<in> set cands. ?P m"
    then show "\<forall>m \<in> set (case getLoopFor_block F b of None \<Rightarrow> cands
        | Some l \<Rightarrow> if \<not> isSimpleLoop F l then cands
            else let (LoopMops, Candidates) = fold (collect_mop_step M F b l) (enumerate 0 (loop_blocks F ! b)) ([], cands)
                 in filterAndAddMops LoopMops Candidates). ?P m"
      using step [of b _ cands] by (simp split: option.split add: split_beta)
  qed simp_all
  then show "m \<in> set (collectLoopMopCandidates M F) \<Longrightarrow> well_placed F m" by simp
qed

lemma combined_calls:
  "fold (\<lambda>Mop (calls, delegated). case f Mop of None \<Rightarrow> (calls, delegated)
      | Some c \<Rightarrow> (calls @ [c], delegated @ tagMopAsDelegated Mop)) mops (calls, delegated) =
   (calls @ List.map_filter f mops, delegated @ concat (map tagMopAsDelegated (filter (\<lambda>m. f m \<noteq> None) mops)))"
  by (induction mops arbitrary: calls delegated) (auto simp: map_filter_simps split: option.splits)

lemma combine_mopD:
  assumes "combine_mop F run scev RangeAccessOnly Mop = Some call"
  obtains AR Beg End StepVal where "\<not> InBranch Mop" "scev Mop = Some AR" "ar_affine AR" "isSimpleLoop F (ar_loop AR)"
    "expandBegAndEnd (the_loop F (ar_loop AR)) (run (ar_loop AR)) (ar_safe AR) (ar_start AR) (ar_step AR)
       (ar_const_step AR) (ar_counter_ty AR)
       (DT_block F (fst (Mop_inst Mop)) (the (getExitingBlock (the_loop F (ar_loop AR))))) = Some (Beg, End, StepVal)"
    "call = (if ar_const_step AR \<and> nat \<bar>sint (ar_step AR)\<bar> = MopSize Mop then RangeCall (IsWrite Mop) Beg End
       else PeriodCall (IsWrite Mop) (MopSize Mop) Beg End StepVal)"
  using assms unfolding combine_mop_def Let_def by (auto split: if_splits option.splits)

text \<open>C22: Whenever the check of an access is dropped because of a combined check, the access lies in a
  simple loop whose latch its block dominates, so that it runs in every iteration that is completed.
  Some access of the same block to the same address stands for it, whose address is an affine
  recurrence of a simple loop, and the check made behind that loop has the kind and the size of this
  representative: a range check between the two ends that were computed if the step is a constant of
  the size of the access, and a periodic check with the computed step otherwise.\<close>
theorem delegated_accesses_checked:
  assumes "r \<in> set (snd (combinePeriodicChecks M F run scev RangeAccessOnly))"
  shows "\<exists>Mop AR latch Beg End StepVal.
    Mop \<in> set (collectLoopMopCandidates M F) \<and>
    access_to F (fst r) (Address Mop) r \<and> access_to F (fst r) (Address Mop) (Mop_inst Mop) \<and>
    access_kind (loop_inst_at F (Mop_inst Mop)) = Some (IsWrite Mop) \<and>
    access_bits (loop_inst_at F (Mop_inst Mop)) = 8 * MopSize Mop \<and>
    getLoopFor_block F (fst r) = Some (Loop_of Mop) \<and> isSimpleLoop F (Loop_of Mop) \<and>
    getLoopLatch (the_loop F (Loop_of Mop)) = Some latch \<and> DT_block F (fst r) latch \<and>
    scev Mop = Some AR \<and> ar_affine AR \<and> isSimpleLoop F (ar_loop AR) \<and>
    expandBegAndEnd (the_loop F (ar_loop AR)) (run (ar_loop AR)) (ar_safe AR) (ar_start AR) (ar_step AR)
      (ar_const_step AR) (ar_counter_ty AR)
      (DT_block F (fst r) (the (getExitingBlock (the_loop F (ar_loop AR))))) = Some (Beg, End, StepVal) \<and>
    (if ar_const_step AR \<and> nat \<bar>sint (ar_step AR)\<bar> = MopSize Mop then RangeCall (IsWrite Mop) Beg End
     else PeriodCall (IsWrite Mop) (MopSize Mop) Beg End StepVal)
      \<in> set (fst (combinePeriodicChecks M F run scev RangeAccessOnly))"
proof -
  let ?f = "combine_mop F run scev RangeAccessOnly" and ?cands = "collectLoopMopCandidates M F"
  obtain Mop call where m: "Mop \<in> set ?cands" "?f Mop = Some call" "r \<in> set (tagMopAsDelegated Mop)"
    using assms by (auto simp: combinePeriodicChecks_def combined_calls)
  have made: "call \<in> set (fst (combinePeriodicChecks M F run scev RangeAccessOnly))"
    using m by (auto simp: combinePeriodicChecks_def combined_calls List.map_filter_def intro!: image_eqI [of _ _ Mop])
  obtain AR Beg End StepVal where call: "\<not> InBranch Mop" "scev Mop = Some AR" "ar_affine AR" "isSimpleLoop F (ar_loop AR)"
    "expandBegAndEnd (the_loop F (ar_loop AR)) (run (ar_loop AR)) (ar_safe AR) (ar_start AR) (ar_step AR)
       (ar_const_step AR) (ar_counter_ty AR)
       (DT_block F (fst (Mop_inst Mop)) (the (getExitingBlock (the_loop F (ar_loop AR))))) = Some (Beg, End, StepVal)"
    "call = (if ar_const_step AR \<and> nat \<bar>sint (ar_step AR)\<bar> = MopSize Mop then RangeCall (IsWrite Mop) Beg End
       else PeriodCall (IsWrite Mop) (MopSize Mop) Beg End StepVal)"
    using combine_mopD [OF m(2)] by metis
  obtain b where b: "getLoopFor_block F b = Some (Loop_of Mop)" "isSimpleLoop F (Loop_of Mop)"
    "mop_of_block F b (Loop_of Mop) Mop"
    using candidates_well_placed [OF m(1)] by (auto simp: well_placed_def)
  then obtain latch where latch: "getLoopLatch (the_loop F (Loop_of Mop)) = Some latch" "DT_block F b latch"
    using call(1) by (auto simp: mop_of_block_def)
  have accesses: "access_to F b (Address Mop) r" "access_to F b (Address Mop) (Mop_inst Mop)"
    using b(3) m(3) by (auto simp: mop_of_block_def tagMopAsDelegated_def)
  then have same: "fst r = b" "fst (Mop_inst Mop) = b" by (simp_all add: access_to_def)
  show ?thesis
    using m(1) accesses b latch call made same
    by (intro exI [of _ Mop] exI [of _ AR] exI [of _ latch] exI [of _ Beg] exI [of _ End] exI [of _ StepVal])
      (simp add: mop_of_block_def)
qed

section \<open>Checks moved behind a loop\<close>

lemma indicator_checks_nth:
  "n < length runs \<Longrightarrow> indicator_checks b runs ! n \<longleftrightarrow> b \<or> (\<exists>m \<le> n. runs ! m)"
proof (induction runs arbitrary: b n)
  case (Cons executed rest)
  show ?case
  proof (cases n)
    case (Suc k)
    have "(\<exists>m \<le> Suc k. (executed # rest) ! m) \<longleftrightarrow> executed \<or> (\<exists>m \<le> k. rest ! m)"
      by (simp flip: less_Suc_eq_le add: Ex_less_Suc2)
    then show ?thesis using Cons Suc by auto
  qed auto
qed simp

text \<open>The check behind a loop that stands for a conditional access is made after every run of the loop
  in which the access was made, but also after every later run in the same call of the function, as
  the indicator is cleared at the function's entry only.\<close>
theorem indicator_check_stale:
  assumes "n < length runs"
  shows "instrumentIndicator runs ! n \<longleftrightarrow> (\<exists>m \<le> n. runs ! m)"
  using assms by (simp add: instrumentIndicator_def indicator_checks_nth)

lemma indicator_check_stale_witness: "instrumentIndicator [True, False] ! 1"
  using indicator_check_stale [of 1 "[True, False]"] by (auto intro: exI [of _ 0])

section \<open>Checks lost and checks too many\<close>

definition flat_module :: tsan_module where
  "flat_module = \<lparr>value_at = (\<lambda>_. OtherValue), stripInBoundsOffsets = id, getUnderlyingObject = id,
     PointerMayBeCaptured = (\<lambda>_. True), PointerAddressSpace = (\<lambda>_. 0), isSwiftError = (\<lambda>_. False),
     getTypeStoreSizeInBits = (\<lambda>_. 64), cnts_section = []\<rparr>"

definition loop_access :: "bool \<Rightarrow> tvalue \<Rightarrow> nat \<Rightarrow> loop_inst" where
  "loop_access w a bits = \<lparr>shouldSkip_inst = False, volatile_inst = False, atomic_inst = False, dbg_info = False,
     call_base = False, may_write = w, access_kind = Some w, access_addr = a, access_bits = bits\<rparr>"

text \<open>An inner loop (block 2) in an outer one (blocks 1 to 3); \<open>is\<close> are the instructions of block 2.\<close>

definition nested_loops :: "loop_inst list \<Rightarrow> loop_function" where
  "nested_loops is = \<lparr>loop_blocks = [[], [], is, [], []],
     all_loops = [\<lparr>getHeader = Some 1, getLoopPredecessor = Some 0, getLoopPreheader = Some 0, getLoopLatch = Some 3,
         getExitingBlock = Some 3, getUniqueExitBlock = Some 4, getBlocks = [1, 2, 3], getParentLoop = None\<rparr>,
       \<lparr>getHeader = Some 2, getLoopPredecessor = Some 1, getLoopPreheader = Some 1, getLoopLatch = Some 2,
         getExitingBlock = Some 2, getUniqueExitBlock = Some 3, getBlocks = [2], getParentLoop = Some 0\<rparr>],
     getLoopFor_block = (\<lambda>b. if b = 2 then Some 1 else if b = 1 \<or> b = 3 then Some 0 else None),
     DT_block = (\<lambda>a b. a \<le> b), PDT_block = (\<lambda>a b. a \<ge> b)\<rparr>"

lemmas loop_examples = flat_module_def loop_access_def nested_loops_def collectLoopMopCandidates_def
  isSimpleLoop_def the_loop_def collect_mop_step_def filterAndAddMops_def shouldInstrumentReadWriteFromAddress_def
  Let_def

text \<open>
  Two losses.  A store of eight bytes followed by a load of one byte at the same address leaves a
  check of one byte read.  And an access moved out of its loop takes the place chosen for the access
  before it in its block: after an access whose address no loop changes, one whose address the outer
  loop changes is checked before the outer loop instead of before the inner one.
\<close>
lemma loop_opt_gaps:
  shows "map (\<lambda>m. (IsWrite m, MopSize m, tagMopAsDelegated m))
      (collectLoopMopCandidates flat_module (nested_loops [loop_access True 7 64, loop_access False 7 8])) =
      [(False, 1, [(2, 1), (2, 0)])] \<and>
    (let F = nested_loops [loop_access False 7 64, loop_access False 8 64]; inv = (\<lambda>a l. a = 7 \<or> l = 1) in
     map (\<lambda>(m, pt). (Address m, pt, insert_point_of F inv m)) (relocateInvariantChecks flat_module F inv) =
       [(7, AtPreheader 0, AtPreheader 0), (8, AtPreheader 0, AtPreheader 1)])"
proof
  show "map (\<lambda>m. (IsWrite m, MopSize m, tagMopAsDelegated m))
      (collectLoopMopCandidates flat_module (nested_loops [loop_access True 7 64, loop_access False 7 8])) =
      [(False, 1, [(2, 1), (2, 0)])]"
    by code_simp
  show "(let F = nested_loops [loop_access False 7 64, loop_access False 8 64]; inv = (\<lambda>a l. a = 7 \<or> l = 1) in
     map (\<lambda>(m, pt). (Address m, pt, insert_point_of F inv m)) (relocateInvariantChecks flat_module F inv) =
       [(7, AtPreheader 0, AtPreheader 0), (8, AtPreheader 0, AtPreheader 1)])"
    by code_simp
qed

text \<open>
  The count behind an outer loop does not look at the inner loop that contains the access: the
  combined check is the same whether the inner loop was entered in an iteration or not.
\<close>

lemma combined_ignores_inner_loop:
  assumes "scev Mop = Some AR" "run (ar_loop AR) = run' (ar_loop AR)"
  shows "combine_mop F run scev ro Mop = combine_mop F run' scev ro Mop"
  unfolding combine_mop_def assms(1) option.case Let_def assms(2) by (rule refl)

lemma delegated_accesses_checked_witness:
  "let F = nested_loops [loop_access True 7 64];
     scev = (\<lambda>m. Some \<lparr>ar_loop = 1, ar_affine = True, ar_start = 0x1000, ar_step = 8, ar_const_step = True,
       ar_counter_ty = 64, ar_safe = True\<rparr>) in
   \<exists>Mop. Mop \<in> set (collectLoopMopCandidates flat_module F) \<and> access_to F 2 (Address Mop) (2, 0) \<and> DT_block F 2 2 \<and>
     RangeCall (IsWrite Mop) 0x1000 0x1018
       \<in> set (fst (combinePeriodicChecks flat_module F (\<lambda>l. example_run 2 (Some 64)) scev True))"
proof -
  let ?F = "nested_loops [loop_access True 7 64]"
  let ?scev = "\<lambda>m. Some \<lparr>ar_loop = 1, ar_affine = True, ar_start = 0x1000, ar_step = 8, ar_const_step = True,
       ar_counter_ty = 64, ar_safe = True\<rparr>"
  have cands: "collectLoopMopCandidates flat_module ?F = [\<lparr>Mop_inst = (2, 0), Address = 7, Loop_of = 1, MopSize = 8,
      DupTo = [], InBranch = False, IsWrite = True\<rparr>]" and simple: "isSimpleLoop ?F 1"
    by code_simp+
  then have "snd (combinePeriodicChecks flat_module ?F (\<lambda>l. example_run 2 (Some 64)) ?scev True) = [(2, 0)]"
    by (simp add: combinePeriodicChecks_def combine_mop_def tagMopAsDelegated_def expandBegAndEnd_def
      nested_loops_def the_loop_def example_run_def)
  then have "(2, 0) \<in> set (snd (combinePeriodicChecks flat_module ?F (\<lambda>l. example_run 2 (Some 64)) ?scev True))"
    by simp
  from delegated_accesses_checked [OF this] show ?thesis
    unfolding Let_def cands
    by (elim exE conjE) (intro exI conjI, assumption,
      auto simp: expandBegAndEnd_def nested_loops_def the_loop_def example_run_def)
qed

end
