(* ===== verification/Spec2Isabelle.thy ===== *)
theory Spec2Isabelle
  imports Layout_Props Recurrence_Props Stack_Race_Props Mop_IR_Props Asan_Container_Props Wrapper_Props
    Tsan_Pipeline_Props Loop_Opt_Props
begin

text \<open>
  Verification development for MAIR/XSan, which composes the address (ASan), thread (TSan), memory
  (MSan) and undefined-behaviour (UBSan) sanitizers in one process.  Paths are below \<open>src/src\<close>.

  \<^bold>\<open>The program.\<close>  A wrapper (\<open>compiler\<close>) reads the command line, decides which sanitizers are on and
  runs the real compiler with their options.  In the compiler, passes (\<open>instrumentation\<close>) put calls in
  front of memory accesses; analyses that XSan adds decide beforehand which checks are redundant,
  which accesses to stack objects cannot race, and which checks of a loop can be made once behind
  it.  In the process, the runtime (\<open>runtime/lib/xsan\<close>) lays out the address space so that the shadow
  memories of all sanitizers fit beside the program, checks and protects this layout at start-up,
  and keeps ASan's shadow.

  \<^bold>\<open>Theories.\<close>  Each \<open>_Props\<close> theory holds the properties of the one before it in the list.

  \<^item> \<open>XPrelude\<close>: machine types, theorem collections and lemmas shared by the components.
  \<^item> \<open>Active_Mop\<close> (\<open>Analysis/ActiveMopAnalysis.cpp\<close>): the analysis whether one memory operation is still
    active at another: block transfer, meet, the iteration to a fixpoint (a \<open>partial_function\<close>, whose
    \<open>None\<close> is non-termination) and the query.  \<open>Active_Mop_Dataflow\<close>: the iteration terminates and yields the
    meet over all paths.  \<open>Active_Mop_Query\<close>: what positive and negative answers say of executions, a
    step relation on instructions.
  \<^item> \<open>Recurrence\<close> (\<open>Analysis/MopRecurrenceReducer.cpp\<close>): which checks are covered by others; it calls
    \<open>Active_Mop\<close>.  \<open>Recurrence_Props\<close>: every removed check lies within a kept one, and the shortcut on
    whole objects for which this fails.
  \<^item> \<open>Stack_Race\<close> (\<open>Analysis/TsanMopAnalysis.cpp\<close>, \<open>Utils/ValueUtils.cpp\<close>): which accesses to stack objects
    might race.  The search through a type is a \<open>partial_function\<close>: on recursive types it diverges.
    \<open>Stack_Race_Props\<close>: what is kept, and the later blocks that are missed since the forward traversal of
    the control-flow graph is empty.
  \<^item> \<open>Mop_IR\<close> (\<open>MopIR\<close>): the list of memory operations with its builder, analyses and pipelines, state
    passed explicitly.  \<open>Mop_IR_Props\<close>: agreement with the reducer, the invariant of the pipeline
    over all sequences of its operations, the types of the operations built.
  \<^item> \<open>Tsan_Inst\<close> (\<open>ThreadSanitizer.cpp\<close>): the TSan pass and XSan's variant of it, each with its own scan
    and instrumentation as in the source; the result is the list of edits.  \<open>Tsan_Inst_Props\<close>: which
    accesses get a call and which function is called, atomics, and the agreement of the two variants.
    \<open>Tsan_Pipeline_Props\<close>: the pass together with the stack-object analysis and the reducer.
  \<^item> \<open>Loop_Opt\<close> (\<open>Instrumentation.cpp\<close>, \<open>xsan_interface.cpp\<close>): the checks combined behind loops or moved out
    of them, as values of 64-bit words, and the runtime functions they call (\<open>xsan_period\<close> may run for
    ever, so it is a \<open>partial_function\<close>).  \<open>Loop_Opt_Props\<close>: the bytes checked are the bytes accessed,
    bounds of the counters, and the cases in which checks are lost.
  \<^item> \<open>Mem_Mapping\<close>, \<open>Tsan_Mapping\<close>, \<open>Shadow_Layout\<close> (\<open>include/platforms\<close>, \<open>tsan_platform.h\<close>,
    \<open>msan_interface_xsan.h\<close>, \<open>asan_mapping.h\<close>): the tables for x86-64 and AArch64 and the address
    arithmetic of the three shadows.  The laws of a mapping are locales, interpreted on both tables:
    shadow addresses determine their application addresses, and no two sanitizers share metadata.
  \<^item> \<open>Asan_Poison\<close>, \<open>Asan_Container\<close> (\<open>asan_poisoning.cpp\<close>): ASan's shadow as a map from addresses to
    bytes; poisoning, region checks, container annotations.  A failed \<open>CHECK\<close> is \<open>None\<close>; the fuel of the
    loops is the number of granules they walk over.  The \<open>_Props\<close> theories give the effect on each byte
    and show that an annotated container passes its own verification.
  \<^item> \<open>Heap_Sort\<close>, \<open>Layout_Check\<close> (\<open>sanitizer_common.h\<close>, \<open>xsan_linux.cpp\<close>, the \<open>NeededMapRanges\<close> hooks): start-up,
    from the table of needed ranges through the sort to the protected gaps and the restarts of the
    process.  \<open>Layout_Props\<close>: the sort is correct for every strict weak order (a locale, interpreted on
    the order of ranges), exactly the gaps are protected, two restarts are enough.
  \<^item> \<open>Wrapper_Options\<close>, \<open>Wrapper_Driver\<close>, \<open>Wrapper_Clang\<close>, \<open>Wrapper_Gcc\<close> (\<open>xsan_wrapper_helper.c.inc\<close>,
    \<open>clang_wrapper.c\<close>, \<open>gcc_wrapper.c\<close>): masks of sanitizers, the passes over the arguments, and the
    parameters passed on; errors are a sum type with the message.  \<open>Wrapper_Params\<close> counts and classifies
    the parameters in a locale; \<open>Wrapper_Props\<close>: which command lines are rejected, what is passed on,
    and the inputs on which options are lost or the array of parameters overflows.

  \<^bold>\<open>Conventions.\<close>  Instructions are pairs of a block and an index; values are numbers.  Answers of LLVM
  (alias analysis, dominator trees, loops, object sizes, scalar evolution, reverse post-order) are
  fields of the records \<open>llvm_env\<close>, \<open>cfg_env\<close>, \<open>tsan_module\<close>, \<open>builder_env\<close> and \<open>loop_function\<close> or
  arguments, and what is assumed of them is a named hypothesis: \<open>env_sound\<close> (aliasing and the
  decomposition of pointers agree with the addresses), \<open>visits_reachable\<close> (the post-order lists the reachable blocks), \<open>cfg_env_ok\<close> (blocks on a
  cycle belong to a loop, reachability is not denied), \<open>llvm_plain\<close> (a store may write
  memory, a load only if it is volatile).  Integers keep their width where it matters (\<open>uptr\<close>, \<open>u32\<close>, masks).  The one
  bound passed as fuel in the loop optimisation is the number of loops, which a nest cannot exceed.
  Assertions are \<open>None\<close> where the source would stop.

  \<^bold>\<open>Not modelled.\<close>  The passes of ASan, MSan and coverage and the runtimes below \<open>runtime/lib\<close> are
  upstream LLVM with small changes; the interceptors, hooks, allocator and threads of XSan forward
  to them; the live patches of the compilers depend on binary layouts; pass registration, metadata,
  logging and UBSan's tagging are glue.  In the modelled files, rewriting of address expressions by
  scalar evolution and the search for loop invariants are parameters, and the IR that only carries
  values (casts, splits of edges) and printing are left out.
\<close>

end
